(* ===== verification/Prelude.thy ===== *)
theory Prelude
  imports Main "HOL-Library.Word"
begin

text \<open>
  Shared vocabulary of the NimbusFS development: the fixed-width integer types the sources use,
  the ways a C++ call can end (it returns, it throws, or its thread blocks for ever), the
  \<^verbatim>\<open><cctype>\<close> character classes of the ``C'' locale, decimal printing, the number parsers of
  the standard library, and the word facts that the component theories rely on.
\<close>

unbundle bit_operations_syntax

named_theorems run_simps \<comment> \<open>evaluation of sequenced C++ calls\<close>
named_theorems cctype_defs \<comment> \<open>definitions of the character classes\<close>

type_synonym byte = "8 word"
type_synonym uint32 = "32 word"
type_synonym uint64 = "64 word"

section \<open>How a call ends\<close>

text \<open>
  The exceptions the sources raise or let through. \<open>Blocks\<close> is a call whose thread waits on a
  mutex that is never released: it neither returns nor unwinds.
\<close>

datatype cxx_exception =
    logic_error string
  | runtime_error string
  | system_error
  | filesystem_error

datatype 'a run = Returns 'a | Throws cxx_exception | Blocks

definition run_bind :: "'a run \<times> 's \<Rightarrow> ('a \<Rightarrow> 's \<Rightarrow> 'b run \<times> 's) \<Rightarrow> 'b run \<times> 's" where
  "run_bind m k = (case m of
      (Returns a, s) \<Rightarrow> k a s
    | (Throws e, s) \<Rightarrow> (Throws e, s)
    | (Blocks, s) \<Rightarrow> (Blocks, s))"

lemma run_bind_simps [simp, run_simps]:
  "run_bind (Returns a, s) k = k a s"
  "run_bind (Throws e, s) k = (Throws e, s)"
  "run_bind (Blocks, s) k = (Blocks, s)"
  by (simp_all add: run_bind_def)

lemma run_bind_eq_Returns:
  "run_bind m k = (Returns b, t) \<longleftrightarrow> (\<exists>a s. m = (Returns a, s) \<and> k a s = (Returns b, t))"
  by (cases m; cases "fst m") (auto simp: run_bind_def)

lemma run_bind_assoc:
  "run_bind (run_bind m f) g = run_bind m (\<lambda>a s. run_bind (f a s) g)"
  by (cases m; cases "fst m") (auto simp: run_bind_def)

section \<open>Characters\<close>

abbreviation code :: "char \<Rightarrow> nat" where
  "code c \<equiv> of_char c"

definition isdigit :: "char \<Rightarrow> bool" where
  [cctype_defs]: "isdigit c \<longleftrightarrow> 48 \<le> code c \<and> code c \<le> 57"

definition isupper :: "char \<Rightarrow> bool" where
  [cctype_defs]: "isupper c \<longleftrightarrow> 65 \<le> code c \<and> code c \<le> 90"

definition islower :: "char \<Rightarrow> bool" where
  [cctype_defs]: "islower c \<longleftrightarrow> 97 \<le> code c \<and> code c \<le> 122"

definition isxdigit :: "char \<Rightarrow> bool" where
  [cctype_defs]: "isxdigit c \<longleftrightarrow>
     isdigit c \<or> (65 \<le> code c \<and> code c \<le> 70) \<or> (97 \<le> code c \<and> code c \<le> 102)"

definition isspace :: "char \<Rightarrow> bool" where
  [cctype_defs]: "isspace c \<longleftrightarrow> code c = 32 \<or> (9 \<le> code c \<and> code c \<le> 13)"

definition toupper :: "char \<Rightarrow> char" where
  [cctype_defs]: "toupper c = (if islower c then char_of (code c - 32) else c)"

definition tolower :: "char \<Rightarrow> char" where
  [cctype_defs]: "tolower c = (if isupper c then char_of (code c + 32) else c)"

lemma code_char_of [simp]: "n < 256 \<Longrightarrow> code (char_of n) = n"
  by (simp add: char_of_nat)

lemma code_less_256 [simp]: "code c < 256"
  by (cases c) (simp add: of_char_def)

lemma toupper_not_lower: "\<not> islower (toupper c)"
  by (auto simp: toupper_def islower_def)

lemma tolower_not_upper: "\<not> isupper (tolower c)"
  by (auto simp: tolower_def isupper_def)

section \<open>Numbers in decimal: \<^verbatim>\<open>std::to_string\<close>\<close>

definition digit_char :: "nat \<Rightarrow> char" where
  "digit_char d = char_of (48 + d)"

fun decimal :: "nat \<Rightarrow> string" where
  "decimal n = (if n < 10 then [digit_char n] else decimal (n div 10) @ [digit_char (n mod 10)])"

declare decimal.simps [simp del]

definition to_string :: "int \<Rightarrow> string" where
  "to_string i = (if i < 0 then CHR ''-'' # decimal (nat (- i)) else decimal (nat i))"

section \<open>Numbers from text: \<^verbatim>\<open>strtol\<close>, \<^verbatim>\<open>std::stoi\<close>, \<^verbatim>\<open>std::stoll\<close>\<close>

text \<open>
  \<^verbatim>\<open>strtol\<close> skips white space, takes an optional sign, in base 16 an optional \<^verbatim>\<open>0x\<close> that a digit
  follows, and then the longest run of digits. The result carries the number of characters
  consumed, which \<^verbatim>\<open>std::stoi\<close> reports through its \<^verbatim>\<open>pos\<close> argument. \<open>None\<close> is the exception
  (\<^verbatim>\<open>invalid_argument\<close> without a digit, \<^verbatim>\<open>out_of_range\<close> outside the target type).
\<close>

definition isdigit_base :: "nat \<Rightarrow> char \<Rightarrow> bool" where
  "isdigit_base b c = (if b = 16 then isxdigit c else isdigit c)"

definition digit_value :: "char \<Rightarrow> nat" where
  "digit_value c = (if isdigit c then code c - 48 else if islower c then code c - 87 else code c - 55)"

definition digits_value :: "nat \<Rightarrow> string \<Rightarrow> nat" where
  "digits_value b ds = foldl (\<lambda>a c. b * a + digit_value c) 0 ds"

definition scan_sign :: "string \<Rightarrow> bool \<times> string \<times> nat" where
  "scan_sign s = (case s of
      [] \<Rightarrow> (False, [], 0)
    | c # r \<Rightarrow> if c = CHR ''-'' then (True, r, 1)
              else if c = CHR ''+'' then (False, r, 1) else (False, s, 0))"

definition scan_prefix :: "nat \<Rightarrow> string \<Rightarrow> string \<times> nat" where
  "scan_prefix b s = (case s of
      z # x # d # r \<Rightarrow>
        if b = 16 \<and> z = CHR ''0'' \<and> (x = CHR ''x'' \<or> x = CHR ''X'') \<and> isxdigit d
        then (d # r, 2) else (s, 0)
    | _ \<Rightarrow> (s, 0))"

definition strtol :: "nat \<Rightarrow> string \<Rightarrow> (int \<times> nat) option" where
  "strtol b s =
     (let ws = takeWhile isspace s;
          (neg, r1, k1) = scan_sign (drop (length ws) s);
          (r2, k2) = scan_prefix b r1;
          ds = takeWhile (isdigit_base b) r2;
          v = int (digits_value b ds)
      in if ds = [] then None
         else Some (if neg then - v else v, length ws + k1 + k2 + length ds))"

definition in_range :: "nat \<Rightarrow> int \<Rightarrow> bool" where
  "in_range w v \<longleftrightarrow> - (2 ^ (w - 1)) \<le> v \<and> v < 2 ^ (w - 1)"

definition stoi16 :: "string \<Rightarrow> (int \<times> nat) option" where
  "stoi16 s = (case strtol 16 s of None \<Rightarrow> None
     | Some (v, pos) \<Rightarrow> if in_range 32 v then Some (v, pos) else None)"

definition stoll :: "string \<Rightarrow> int option" where
  "stoll s = (case strtol 10 s of None \<Rightarrow> None
     | Some (v, pos) \<Rightarrow> if in_range 64 v then Some v else None)"

section \<open>Words\<close>

lemma unat_byte: "unat (b :: byte) < 256"
  using unsigned_less [of b] by simp

section \<open>Sums\<close>

lemma balance_shift: "a' + d' + b = a + d + b' \<Longrightarrow> a' + d' + (f + b) = a + d + (f + b')" for a :: "'a :: comm_monoid_add"
  by (metis add.left_commute)

lemma sum_list_update_add:
  fixes f :: "'a \<Rightarrow> 'b :: comm_monoid_add"
  assumes "i < length xs"
  shows "sum_list (map f (xs[i := y])) + f (xs ! i) = sum_list (map f xs) + f y"
  using assms
proof (induction xs arbitrary: i)
  case (Cons x xs)
  show ?case
  proof (cases i)
    case (Suc j)
    then show ?thesis using Cons.IH [of j] Cons.prems by (simp add: add.assoc)
  qed (simp add: ac_simps)
qed simp

lemma balance_update:
  fixes c :: "'a :: ab_group_add"
  assumes "c + d = f + b" "d' + x = d + x'" "b' + y = b + y'" "c' + x' + (f + y) = c + x + (f' + y')"
  shows "c' + d' = f' + b'"
proof -
  have "(c' + d') + (x + x' + f + y) = (c' + x' + (f + y)) + (d' + x)" by (simp add: ac_simps)
  also have "\<dots> = (c + d) + (x + f' + y' + x')" unfolding assms(2,4) by (simp add: ac_simps)
  also have "\<dots> = f + f' + x + x' + (b + y')" unfolding assms(1) by (simp add: ac_simps)
  also have "\<dots> = (f' + b') + (x + x' + f + y)" unfolding assms(3) [symmetric] by (simp add: ac_simps)
  finally show ?thesis by simp
qed

section \<open>Runs\<close>

text \<open>
  The contracts a step relation can offer: its steps keep an invariant, and they use up a measure.
  The first gives the invariant of every reachable state, the second a bound on the length of a run
  and a state where it ends.
\<close>

locale step_invariant =
  fixes step :: "'s \<Rightarrow> 's \<Rightarrow> bool" and inv :: "'s \<Rightarrow> bool"
  assumes step_keeps: "step x y \<Longrightarrow> inv x \<Longrightarrow> inv y"
begin

lemma run_keeps: "step\<^sup>*\<^sup>* x y \<Longrightarrow> inv x \<Longrightarrow> inv y"
  by (induction rule: rtranclp_induct) (auto intro: step_keeps)

end

locale step_measure = step_invariant +
  fixes left :: "'a \<Rightarrow> nat"
  assumes step_decreases: "step x y \<Longrightarrow> inv x \<Longrightarrow> left y < left x"
begin

lemma run_bounded: "(step ^^ k) x y \<Longrightarrow> inv x \<Longrightarrow> k + left y \<le> left x"
proof (induction k arbitrary: y)
  case (Suc k)
  then obtain z where z: "(step ^^ k) x z" "step z y" by auto
  then have "inv z" using run_keeps Suc.prems(2) by (auto dest: relpowp_imp_rtranclp)
  then show ?case using step_decreases [OF z(2)] Suc.IH [OF z(1) Suc.prems(2)] by simp
qed simp

lemma run_ends: "inv x \<Longrightarrow> \<exists>y. step\<^sup>*\<^sup>* x y \<and> (\<forall>z. \<not> step y z)"
proof (induction "left x" arbitrary: x rule: less_induct)
  case less
  show ?case
  proof (cases "\<exists>z. step x z")
    case True
    then obtain z where z: "step x z" by blast
    then have "\<exists>y. step\<^sup>*\<^sup>* z y \<and> (\<forall>w. \<not> step y w)"
      using less step_decreases step_keeps by blast
    then show ?thesis using z by (meson converse_rtranclp_into_rtranclp)
  qed auto
qed

end

lemma refl_run: "r\<^sup>=\<^sup>= x y \<Longrightarrow> r\<^sup>*\<^sup>* x y"
  by auto

text \<open>
  A detailed step relation implements an abstract one, read through \<open>abs\<close>: a detailed step is any
  number of abstract ones, none included.
\<close>

locale step_refinement = step_invariant step inv
  for step :: "'s \<Rightarrow> 's \<Rightarrow> bool" and inv :: "'s \<Rightarrow> bool" +
  fixes astep :: "'a \<Rightarrow> 'a \<Rightarrow> bool" and abs :: "'s \<Rightarrow> 'a"
  assumes step_refines: "step x y \<Longrightarrow> inv x \<Longrightarrow> astep\<^sup>*\<^sup>* (abs x) (abs y)"
begin

lemma run_refines: "step\<^sup>*\<^sup>* x y \<Longrightarrow> inv x \<Longrightarrow> astep\<^sup>*\<^sup>* (abs x) (abs y)"
proof (induction rule: rtranclp_induct)
  case (step y z)
  then show ?case using step_refines [of y z] run_keeps [of x y] by (meson rtranclp_trans)
qed simp

end

end
