(* ===== verification/Result.thy ===== *)
theory Result
  imports Prelude
begin

text \<open>
  \<^verbatim>\<open>libs/common/include/nimbus/common/result.h\<close>: the two-armed variant every fallible operation
  of the code base returns. \<open>Value\<close> and \<open>Error\<close> throw \<^verbatim>\<open>std::logic_error\<close> on the wrong arm.
\<close>

datatype ('t, 'e) Result = Ok 't | Err 'e

definition IsOk :: "('t, 'e) Result \<Rightarrow> bool" where
  "IsOk r = (case r of Ok _ \<Rightarrow> True | Err _ \<Rightarrow> False)"

definition Value :: "('t, 'e) Result \<Rightarrow> 't run" where
  "Value r = (case r of
      Ok v \<Rightarrow> Returns v
    | Err _ \<Rightarrow> Throws (logic_error ''Called Value() on an error Result''))"

definition Error :: "('t, 'e) Result \<Rightarrow> 'e run" where
  "Error r = (case r of
      Ok _ \<Rightarrow> Throws (logic_error ''Called Error() on an ok Result'')
    | Err e \<Rightarrow> Returns e)"

lemma IsOk_simps [simp]: "IsOk (Ok v)" "\<not> IsOk (Err e)"
  by (simp_all add: IsOk_def)

lemma Value_simps [simp]:
  "Value (Ok v) = Returns v"
  "Value (Err e) = Throws (logic_error ''Called Value() on an error Result'')"
  by (simp_all add: Value_def)

lemma Error_simps [simp]:
  "Error (Err e) = Returns e"
  "Error (Ok v) = Throws (logic_error ''Called Error() on an ok Result'')"
  by (simp_all add: Error_def)

lemma IsOk_iff: "IsOk r \<longleftrightarrow> (\<exists>v. r = Ok v)"
  by (cases r) simp_all

end
