(* ===== verification/Sha256.thy ===== *)
theory Sha256
  imports Result
begin

text \<open>
  \<^verbatim>\<open>libs/common/src/sha256.cpp\<close>: the streaming wrapper over OpenSSL's EVP digest interface and the
  two hexadecimal conversions. OpenSSL itself is a parameter: the record \<open>EVP\<close> holds the four
  functions the wrapper calls, each with the success flag it returns, and \<open>evp_computes\<close> states
  the documented behaviour of that interface.
\<close>

section \<open>OpenSSL as a parameter\<close>

record 'c EVP =
  EVP_MD_CTX_new :: "'c option" \<comment> \<open>\<open>None\<close> is a null pointer\<close>
  EVP_DigestInit_ex :: "'c \<Rightarrow> bool \<times> 'c"
  EVP_DigestUpdate :: "'c \<Rightarrow> byte list \<Rightarrow> bool \<times> 'c"
  EVP_DigestFinal_ex :: "'c \<Rightarrow> bool \<times> byte list \<times> 'c"

text \<open>
  Documented behaviour: the calls succeed, an update appends its bytes to the message absorbed so
  far (\<open>absorbed\<close> reads it off the context), and the final call yields the 32-byte digest \<open>H\<close> of
  that message.
\<close>

definition evp_computes :: "'c EVP \<Rightarrow> ('c \<Rightarrow> byte list) \<Rightarrow> (byte list \<Rightarrow> byte list) \<Rightarrow> bool" where
  "evp_computes evp absorbed H \<longleftrightarrow>
     (case EVP_MD_CTX_new evp of
        None \<Rightarrow> False
      | Some c \<Rightarrow> fst (EVP_DigestInit_ex evp c) \<and> absorbed (snd (EVP_DigestInit_ex evp c)) = []) \<and>
     (\<forall>c d. fst (EVP_DigestUpdate evp c d) \<and>
            absorbed (snd (EVP_DigestUpdate evp c d)) = absorbed c @ d) \<and>
     (\<forall>c. fst (EVP_DigestFinal_ex evp c) \<and>
          fst (snd (EVP_DigestFinal_ex evp c)) = H (absorbed c)) \<and>
     (\<forall>m. length (H m) = 32)"

section \<open>The class\<close>

datatype HashError = HashError_InvalidHexLength | HashError_InvalidHexCharacter

record 'c Sha256 =
  ctx :: 'c
  finalized :: bool

definition Sha256_new :: "'c EVP \<Rightarrow> 'c Sha256 run" where
  "Sha256_new evp = (case EVP_MD_CTX_new evp of
      None \<Rightarrow> Throws (runtime_error ''Failed to create EVP_MD_CTX'')
    | Some c \<Rightarrow>
        if \<not> fst (EVP_DigestInit_ex evp c) then Throws (runtime_error ''Failed to init SHA256'')
        else Returns \<lparr>ctx = snd (EVP_DigestInit_ex evp c), finalized = False\<rparr>)"

definition Sha256_Update :: "'c EVP \<Rightarrow> byte list \<Rightarrow> 'c Sha256 \<Rightarrow> unit run \<times> 'c Sha256" where
  "Sha256_Update evp data h =
     (if finalized h then (Throws (logic_error ''Called Update after Finalize''), h)
      else if data = [] then (Returns (), h)
      else let (ok, c) = EVP_DigestUpdate evp (ctx h) data
           in if \<not> ok then (Throws (runtime_error ''Failed to update SHA256''), h\<lparr>ctx := c\<rparr>)
              else (Returns (), h\<lparr>ctx := c\<rparr>))"

definition Sha256_Finalize :: "'c EVP \<Rightarrow> 'c Sha256 \<Rightarrow> byte list run \<times> 'c Sha256" where
  "Sha256_Finalize evp h =
     (if finalized h then (Throws (logic_error ''Called Finalize twice''), h)
      else let h1 = h\<lparr>finalized := True\<rparr>;
               (ok, digest, c) = EVP_DigestFinal_ex evp (ctx h1)
           in if \<not> ok then (Throws (runtime_error ''Failed to finalize SHA256''), h1\<lparr>ctx := c\<rparr>)
              else (Returns digest, h1\<lparr>ctx := c\<rparr>))"

definition HashBytes :: "'c EVP \<Rightarrow> byte list \<Rightarrow> byte list run" where
  "HashBytes evp data = (case Sha256_new evp of
      Returns hasher \<Rightarrow>
        fst (run_bind (Sha256_Update evp data hasher) (\<lambda>_ h. Sha256_Finalize evp h))
    | Throws e \<Rightarrow> Throws e
    | Blocks \<Rightarrow> Blocks)"

text \<open>A client that feeds the message in several pieces, as the streaming interface allows.\<close>

fun Sha256_Updates :: "'c EVP \<Rightarrow> byte list list \<Rightarrow> 'c Sha256 \<Rightarrow> unit run \<times> 'c Sha256" where
  "Sha256_Updates evp [] h = (Returns (), h)"
| "Sha256_Updates evp (d # ds) h =
     run_bind (Sha256_Update evp d h) (\<lambda>_ h'. Sha256_Updates evp ds h')"

section \<open>Hexadecimal text\<close>

text \<open>
  \<^verbatim>\<open>oss << std::hex << std::setw(2) << std::setfill('0') << static_cast<int>(b)\<close>: the number in
  lower-case hexadecimal, padded on the left to the field width.
\<close>

definition hex_digit :: "nat \<Rightarrow> char" where
  "hex_digit d = char_of (if d < 10 then 48 + d else 87 + d)"

fun hexadecimal :: "nat \<Rightarrow> string" where
  "hexadecimal n = (if n < 16 then [hex_digit n] else hexadecimal (n div 16) @ [hex_digit (n mod 16)])"

declare hexadecimal.simps [simp del]

definition setw_setfill :: "nat \<Rightarrow> char \<Rightarrow> string \<Rightarrow> string" where
  "setw_setfill w c s = replicate (w - length s) c @ s"

fun ToHexString :: "byte list \<Rightarrow> string" where
  "ToHexString [] = []"
| "ToHexString (b # digest) = setw_setfill 2 (CHR ''0'') (hexadecimal (unat b)) @ ToHexString digest"

definition substr :: "string \<Rightarrow> nat \<Rightarrow> nat \<Rightarrow> string" where
  "substr s pos n = take n (drop pos s)"

text \<open>The decoding loop: \<open>i\<close> is the byte index, \<open>digest\<close> the bytes stored so far.\<close>

function FromHexString_loop :: "string \<Rightarrow> nat \<Rightarrow> byte list \<Rightarrow> (byte list, HashError) Result" where
  "FromHexString_loop hex i digest =
     (if i < 32 then
        (case stoi16 (substr hex (i * 2) 2) of
           None \<Rightarrow> Err HashError_InvalidHexCharacter
         | Some (b, pos) \<Rightarrow>
             if pos \<noteq> 2 then Err HashError_InvalidHexCharacter
             else FromHexString_loop hex (Suc i) (digest @ [of_int b]))
      else Ok digest)"
  by pat_completeness auto
termination
  by (relation "measure (\<lambda>(hex, i, digest). 32 - i)") auto

declare FromHexString_loop.simps [simp del]

definition FromHexString :: "string \<Rightarrow> (byte list, HashError) Result" where
  "FromHexString hex =
     (if length hex \<noteq> 64 then Err HashError_InvalidHexLength else FromHexString_loop hex 0 [])"

section \<open>Hashing\<close>

lemma evp_computesD:
  assumes "evp_computes evp absorbed H"
  shows "\<exists>c. EVP_MD_CTX_new evp = Some c \<and> fst (EVP_DigestInit_ex evp c) \<and>
             absorbed (snd (EVP_DigestInit_ex evp c)) = []"
    and "fst (EVP_DigestUpdate evp c d)"
    and "absorbed (snd (EVP_DigestUpdate evp c d)) = absorbed c @ d"
    and "fst (EVP_DigestFinal_ex evp c)"
    and "fst (snd (EVP_DigestFinal_ex evp c)) = H (absorbed c)"
    and "length (H m) = 32"
  using assms by (auto simp: evp_computes_def split: option.splits)

lemma Sha256_new_ok:
  assumes "evp_computes evp absorbed H"
  shows "\<exists>h. Sha256_new evp = Returns h \<and> absorbed (ctx h) = [] \<and> \<not> finalized h"
  using evp_computesD(1) [OF assms] by (auto simp: Sha256_new_def)

lemma Sha256_Update_ok:
  assumes "evp_computes evp absorbed H" and "\<not> finalized h"
  shows "\<exists>h'. Sha256_Update evp d h = (Returns (), h') \<and>
              absorbed (ctx h') = absorbed (ctx h) @ d \<and> \<not> finalized h'"
  using assms(2) evp_computesD(2,3) [OF assms(1), of "ctx h" d]
  by (auto simp: Sha256_Update_def split: prod.splits)

lemma Sha256_Updates_ok:
  assumes "evp_computes evp absorbed H" and "\<not> finalized h"
  shows "\<exists>h'. Sha256_Updates evp ds h = (Returns (), h') \<and>
              absorbed (ctx h') = absorbed (ctx h) @ concat ds \<and> \<not> finalized h'"
  using assms(2)
proof (induction ds arbitrary: h)
  case Nil
  then show ?case by simp
next
  case (Cons d ds)
  obtain h1 where h1: "Sha256_Update evp d h = (Returns (), h1)"
      "absorbed (ctx h1) = absorbed (ctx h) @ d" "\<not> finalized h1"
    using Sha256_Update_ok [OF assms(1) Cons.prems] by blast
  from Cons.IH [OF h1(3)] h1 show ?case by auto
qed

lemma Sha256_Finalize_ok:
  assumes "evp_computes evp absorbed H" and "\<not> finalized h"
  shows "\<exists>h'. Sha256_Finalize evp h = (Returns (H (absorbed (ctx h))), h') \<and> finalized h'"
  using assms(2) evp_computesD(4,5) [OF assms(1), of "ctx h"]
  by (auto simp: Sha256_Finalize_def Let_def split: prod.splits)

lemma HashBytes_eq:
  assumes "evp_computes evp absorbed H"
  shows "HashBytes evp d = Returns (H d)"
proof -
  obtain h where h: "Sha256_new evp = Returns h" "absorbed (ctx h) = []" "\<not> finalized h"
    using Sha256_new_ok [OF assms] by blast
  obtain h1 where h1: "Sha256_Update evp d h = (Returns (), h1)"
      "absorbed (ctx h1) = d" "\<not> finalized h1"
    using Sha256_Update_ok [OF assms h(3), of d] h(2) by auto
  obtain h2 where "Sha256_Finalize evp h1 = (Returns (H d), h2)"
    using Sha256_Finalize_ok [OF assms h1(3)] h1(2) by auto
  with h h1 show ?thesis by (simp add: HashBytes_def)
qed

lemma finalized_stays:
  assumes "finalized h"
  shows "Sha256_Update evp d h = (Throws (logic_error ''Called Update after Finalize''), h)"
    and "Sha256_Finalize evp h = (Throws (logic_error ''Called Finalize twice''), h)"
  using assms by (simp_all add: Sha256_Update_def Sha256_Finalize_def)

section \<open>Hexadecimal digits\<close>

lemma hex_digit_props:
  assumes "d < 16"
  shows "isxdigit (hex_digit d)" "\<not> isupper (hex_digit d)" "digit_value (hex_digit d) = d"
  using assms by (auto simp: hex_digit_def digit_value_def cctype_defs)

lemma hex_digit_digit_value:
  assumes "isxdigit c" "\<not> isupper c"
  shows "hex_digit (digit_value c) = c"
proof -
  have "code (hex_digit (digit_value c)) = code c"
    using assms by (auto simp: hex_digit_def digit_value_def cctype_defs)
  then show ?thesis by simp
qed

lemma digit_value_less: "isxdigit c \<Longrightarrow> digit_value c < 16"
  by (auto simp: digit_value_def cctype_defs)

lemma hex_digit_0: "hex_digit 0 = CHR ''0''"
  by code_simp

lemma hexadecimal_byte:
  "setw_setfill 2 (CHR ''0'') (hexadecimal (unat (b :: byte))) =
     [hex_digit (unat b div 16), hex_digit (unat b mod 16)]"
proof -
  have "unat b < 256" by (rule unat_byte)
  then show ?thesis
    by (auto simp: setw_setfill_def hexadecimal.simps [of "unat b"]
        hexadecimal.simps [of "unat b div 16"] hex_digit_0)
qed

lemma ToHexString_Cons:
  "ToHexString (b # bs) = hex_digit (unat b div 16) # hex_digit (unat b mod 16) # ToHexString bs"
  by (simp add: hexadecimal_byte)

declare ToHexString.simps(2) [simp del] ToHexString_Cons [simp]

lemma byte_nibbles: "unat (b :: byte) div 16 < 16" "unat b mod 16 < 16"
  using unat_byte [of b] by auto

lemma length_ToHexString [simp]: "length (ToHexString bs) = 2 * length bs"
  by (induction bs) auto

lemma ToHexString_chars:
  "c \<in> set (ToHexString bs) \<Longrightarrow> isxdigit c \<and> \<not> isupper c"
  by (induction bs) (auto simp: hex_digit_props byte_nibbles)

lemma ToHexString_nth:
  assumes "k < length bs"
  shows "ToHexString bs ! (2 * k) = hex_digit (unat (bs ! k) div 16)"
    and "ToHexString bs ! Suc (2 * k) = hex_digit (unat (bs ! k) mod 16)"
  using assms
proof (induction bs arbitrary: k)
  case (Cons b bs)
  {
    case 1
    then show ?case by (cases k) (auto simp: Cons.IH)
  next
    case 2
    then show ?case by (cases k) (auto simp: Cons.IH)
  }
qed simp_all

section \<open>Decoding\<close>

definition pair_value :: "char \<Rightarrow> char \<Rightarrow> nat" where
  "pair_value c1 c2 = 16 * digit_value c1 + digit_value c2"

lemma xdigit_not_space_sign:
  assumes "isxdigit c"
  shows "\<not> isspace c" "c \<noteq> CHR ''-''" "c \<noteq> CHR ''+''"
  using assms by (auto simp: cctype_defs)

lemma stoi16_pair:
  assumes "isxdigit c1" "isxdigit c2"
  shows "stoi16 [c1, c2] = Some (int (pair_value c1 c2), 2)"
proof -
  have "pair_value c1 c2 < 256"
    using digit_value_less [OF assms(1)] digit_value_less [OF assms(2)]
    by (simp add: pair_value_def)
  moreover have "strtol 16 [c1, c2] = Some (int (pair_value c1 c2), 2)"
    using assms xdigit_not_space_sign [OF assms(1)]
    by (simp add: strtol_def scan_sign_def scan_prefix_def isdigit_base_def digits_value_def
        pair_value_def)
  ultimately show ?thesis by (simp add: stoi16_def in_range_def)
qed

lemma substr_pair:
  "Suc k < length s \<Longrightarrow> substr s k 2 = [s ! k, s ! Suc k]"
  by (simp add: substr_def numeral_2_eq_2 take_Suc_conv_app_nth flip: Cons_nth_drop_Suc)

lemma FromHexString_loop_xdigits:
  assumes "length hex = 64" "\<forall>c \<in> set hex. isxdigit c"
  shows "FromHexString_loop hex i acc =
     Ok (acc @ map (\<lambda>k. of_nat (pair_value (hex ! (2 * k)) (hex ! Suc (2 * k)))) [i ..< 32])"
proof (induction "32 - i" arbitrary: i acc)
  case 0
  then show ?case by (simp add: FromHexString_loop.simps)
next
  case (Suc n)
  then have i: "i < 32" "n = 32 - Suc i" by auto
  have "stoi16 (substr hex (i * 2) 2)
      = Some (int (pair_value (hex ! (2 * i)) (hex ! Suc (2 * i))), 2)"
    using i assms by (simp add: substr_pair stoi16_pair mult.commute)
  with i Suc(1) [of "Suc i"] show ?case
    by (simp add: FromHexString_loop.simps [of hex i] upt_conv_Cons)
qed

lemma FromHexString_xdigits:
  assumes "length hex = 64" "\<forall>c \<in> set hex. isxdigit c"
  shows "FromHexString hex =
     Ok (map (\<lambda>k. of_nat (pair_value (hex ! (2 * k)) (hex ! Suc (2 * k)))) [0 ..< 32])"
  using assms by (simp add: FromHexString_def FromHexString_loop_xdigits)

lemma FromHexString_ToHexString:
  assumes "length d = 32"
  shows "FromHexString (ToHexString d) = Ok d"
proof -
  have "of_nat (pair_value (ToHexString d ! (2 * k)) (ToHexString d ! Suc (2 * k))) = d ! k"
    if "k < 32" for k
  proof -
    have "pair_value (ToHexString d ! (2 * k)) (ToHexString d ! Suc (2 * k)) = unat (d ! k)"
      using that assms by (simp add: ToHexString_nth pair_value_def hex_digit_props byte_nibbles)
    then show ?thesis by simp
  qed
  then have "map (\<lambda>k. of_nat (pair_value (ToHexString d ! (2 * k)) (ToHexString d ! Suc (2 * k))))
      [0 ..< 32] = d"
    using assms by (auto intro: nth_equalityI)
  with assms show ?thesis
    by (subst FromHexString_xdigits) (auto dest: ToHexString_chars)
qed

lemma ToHexString_FromHexString:
  assumes "length hex = 64" "\<forall>c \<in> set hex. isxdigit c \<and> \<not> isupper c" "FromHexString hex = Ok d"
  shows "length d = 32" and "ToHexString d = hex"
proof -
  have d: "d = map (\<lambda>k. of_nat (pair_value (hex ! (2 * k)) (hex ! Suc (2 * k)))) [0 ..< 32]"
    using assms FromHexString_xdigits [of hex] by simp
  then show len: "length d = 32" by simp
  have digits: "hex ! n \<in> set hex" if "n < 64" for n
    using that assms(1) by simp
  have pv: "pair_value (hex ! (2 * k)) (hex ! Suc (2 * k)) < 256" if "k < 32" for k
    using that digits [of "2 * k"] digits [of "Suc (2 * k)"] assms(2)
      digit_value_less [of "hex ! (2 * k)"] digit_value_less [of "hex ! Suc (2 * k)"]
    by (auto simp: pair_value_def)
  have un: "unat (d ! k) = pair_value (hex ! (2 * k)) (hex ! Suc (2 * k))" if "k < 32" for k
    using that pv [OF that] by (simp add: d unat_of_nat)
  have at: "ToHexString d ! (2 * k) = hex ! (2 * k) \<and> ToHexString d ! Suc (2 * k) = hex ! Suc (2 * k)"
    if "k < 32" for k
    using that len un [OF that] digits [of "2 * k"] digits [of "Suc (2 * k)"] assms(2)
      digit_value_less [of "hex ! Suc (2 * k)"]
    by (simp add: ToHexString_nth pair_value_def hex_digit_digit_value)
  show "ToHexString d = hex"
  proof (rule nth_equalityI)
    show "length (ToHexString d) = length hex" using len assms(1) by simp
  next
    fix n assume "n < length (ToHexString d)"
    then have "n div 2 < 32" using len by simp
    with at [of "n div 2"] show "ToHexString d ! n = hex ! n"
      by (cases "even n") (auto elim!: evenE oddE)
  qed
qed

section \<open>A concrete digest\<close>

text \<open>
  An instance of the interface with a trivial digest (the first 32 bytes, padded with zeros), on
  which the theorems are instantiated.
\<close>

definition demo_H :: "byte list \<Rightarrow> byte list" where
  "demo_H m = take 32 (m @ replicate 32 0)"

definition demo_evp :: "byte list EVP" where
  "demo_evp = \<lparr>EVP_MD_CTX_new = Some [], EVP_DigestInit_ex = (\<lambda>c. (True, [])),
     EVP_DigestUpdate = (\<lambda>c d. (True, c @ d)), EVP_DigestFinal_ex = (\<lambda>c. (True, demo_H c, c))\<rparr>"

lemma demo_evp_computes: "evp_computes demo_evp (\<lambda>c. c) demo_H"
  by (auto simp: evp_computes_def demo_evp_def demo_H_def min_def)

section \<open>What the class promises\<close>

text \<open>
  C38: Hashing is independent of how the message is cut up: a fresh object fed any sequence of pieces,
  empty ones included, finalizes to what \<open>HashBytes\<close> returns for their concatenation.
\<close>

theorem streaming_equals_one_shot:
  assumes "evp_computes evp absorbed H" "Sha256_new evp = Returns h"
  shows "\<exists>h' h''. Sha256_Updates evp ds h = (Returns (), h') \<and>
    Sha256_Finalize evp h' = (HashBytes evp (concat ds), h'')"
proof -
  have h: "absorbed (ctx h) = []" "\<not> finalized h"
    using Sha256_new_ok [OF assms(1)] assms(2) by auto
  obtain h' where h': "Sha256_Updates evp ds h = (Returns (), h')" "absorbed (ctx h') = concat ds"
      "\<not> finalized h'"
    using Sha256_Updates_ok [OF assms(1) h(2), of ds] h(1) by auto
  with Sha256_Finalize_ok [OF assms(1) h'(3)] HashBytes_eq [OF assms(1), of "concat ds"] show ?thesis
    by auto
qed

theorem streaming_equals_one_shot_witness:
  "\<exists>h h' h''. Sha256_new demo_evp = Returns h \<and> Sha256_Updates demo_evp [[1], [], [2, 3]] h = (Returns (), h') \<and>
     Sha256_Finalize demo_evp h' = (HashBytes demo_evp [1, 2, 3], h'')"
proof -
  obtain h where h: "Sha256_new demo_evp = Returns h" using Sha256_new_ok [OF demo_evp_computes] by blast
  with streaming_equals_one_shot [OF demo_evp_computes h, of "[[1], [], [2, 3]]"] show ?thesis by simp
qed

text \<open>
  Encoding a 32-byte digest as text and decoding it again gives the digest back, and the text
  is 64 lower-case hexadecimal digits.
\<close>

theorem hex_round_trip:
  assumes "length d = 32"
  shows "FromHexString (ToHexString d) = Ok d \<and> length (ToHexString d) = 64 \<and>
    list_all (\<lambda>c. isxdigit c \<and> \<not> isupper c) (ToHexString d)"
  using assms FromHexString_ToHexString [OF assms] ToHexString_chars by (auto simp: list_all_iff)

theorem hex_round_trip_witness: "FromHexString (ToHexString (replicate 32 171)) = Ok (replicate 32 171)"
  using hex_round_trip [of "replicate 32 171"] by simp

text \<open>
  \<open>FromHexString\<close> itself accepts text that is not hexadecimal: \<^verbatim>\<open>std::stoi\<close> admits a sign or
  white space in each pair, so ``-1'' decodes to the byte 255 and ``+f'' and `` f'' to 15.
\<close>

theorem FromHexString_accepts_signs:
  "FromHexString (''-1+f f'' @ replicate 58 (CHR ''0'')) = Ok ([255, 15, 15] @ replicate 29 0)"
proof -
  let ?z = "replicate 58 (CHR ''0'')" let ?s = "''-1+f f'' @ ?z"
  have "substr ?s (i * 2) 2 = ''00''" if "3 \<le> i" "i < 32" for i
    using that by (subst substr_pair) (auto simp: nth_append nth_Cons split: nat.split)
  moreover have "stoi16 ''00'' = Some (0, 2)" by code_simp
  ultimately have zeros: "FromHexString_loop ?s i acc = Ok (acc @ replicate (32 - i) 0)" if "3 \<le> i" "i \<le> 32" for i acc
    using that
  proof (induction "32 - i" arbitrary: i acc)
    case 0
    then show ?case by (simp add: FromHexString_loop.simps)
  next
    case (Suc n)
    then have "32 - i = Suc (32 - Suc i)" by simp
    with Suc show ?case
      by (simp add: FromHexString_loop.simps [of _ i] replicate_append_same flip: replicate_Suc)
  qed
  have "stoi16 ''-1'' = Some (-1, 2)" "stoi16 ''+f'' = Some (15, 2)" "stoi16 '' f'' = Some (15, 2)"
    by code_simp+
  then show ?thesis
    using zeros [of 3 "[- 1, 15, 15]"]
    by (simp add: FromHexString_def FromHexString_loop.simps [of _ 0] FromHexString_loop.simps [of _ "Suc 0"]
        FromHexString_loop.simps [of _ "Suc (Suc 0)"] substr_def numeral_3_eq_3)
qed

end
