(* ===== verification/Chunk_Id.thy ===== *)
theory Chunk_Id
  imports Sha256
begin

text \<open>
  \<^verbatim>\<open>services/storage_node/src/chunk_id.cpp\<close>: content addresses. A \<open>ChunkId\<close> carries the raw
  32-byte digest and its hexadecimal spelling; \<open>ChunkId_wf\<close> is the class invariant that the two
  agree, which the only two public ways to make an object, \<open>Parse\<close> and \<open>FromDigest\<close>, establish.
\<close>

datatype ParseError =
    ParseError_WrongLength
  | ParseError_InvalidHexCharacter
  | ParseError_NotLowercase

record ChunkId =
  id_digest :: "byte list"
  id_hex :: string

text \<open>The character loop of \<open>Parse\<close>: the first offending character decides the error.\<close>

fun Parse_scan :: "string \<Rightarrow> ParseError option" where
  "Parse_scan [] = None"
| "Parse_scan (c # cs) =
     (if \<not> isxdigit c then Some ParseError_InvalidHexCharacter
      else if isupper c then Some ParseError_NotLowercase
      else Parse_scan cs)"

definition Parse :: "string \<Rightarrow> (ChunkId, ParseError) Result" where
  "Parse hex_string =
     (if length hex_string \<noteq> 64 then Err ParseError_WrongLength
      else case Parse_scan hex_string of
        Some e \<Rightarrow> Err e
      | None \<Rightarrow> (case FromHexString hex_string of
            Err _ \<Rightarrow> Err ParseError_InvalidHexCharacter
          | Ok digest \<Rightarrow> Ok \<lparr>id_digest = digest, id_hex = hex_string\<rparr>))"

definition FromDigest :: "byte list \<Rightarrow> ChunkId" where
  "FromDigest digest = \<lparr>id_digest = digest, id_hex = ToHexString digest\<rparr>"

text \<open>The two accessors; the rest of the development reads the fields directly.\<close>

definition ChunkId_ToHexString :: "ChunkId \<Rightarrow> string" where
  [simp]: "ChunkId_ToHexString cid = id_hex cid"

definition RawDigest :: "ChunkId \<Rightarrow> byte list" where
  [simp]: "RawDigest cid = id_digest cid"

text \<open>\<^verbatim>\<open>ChunkId::Hash\<close>: the first \<^verbatim>\<open>sizeof(size_t)\<close> = 8 bytes, shifted in from the right.\<close>

function Hash_loop :: "byte list \<Rightarrow> nat \<Rightarrow> uint64 \<Rightarrow> uint64" where
  "Hash_loop digest i hash_val =
     (if i < 8 \<and> i < length digest
      then Hash_loop digest (Suc i) (push_bit 8 hash_val OR ucast (digest ! i))
      else hash_val)"
  by pat_completeness auto
termination
  by (relation "measure (\<lambda>(digest, i, h). 8 - i)") auto

declare Hash_loop.simps [simp del]

definition ChunkId_Hash :: "ChunkId \<Rightarrow> uint64" where
  "ChunkId_Hash cid = Hash_loop (id_digest cid) 0 0"

text \<open>The class invariant.\<close>

definition ChunkId_wf :: "ChunkId \<Rightarrow> bool" where
  "ChunkId_wf cid \<longleftrightarrow> length (id_digest cid) = 32 \<and> id_hex cid = ToHexString (id_digest cid)"

section \<open>Parsing\<close>

lemma Parse_scan_None:
  "Parse_scan s = None \<longleftrightarrow> (\<forall>c \<in> set s. isxdigit c \<and> \<not> isupper c)"
  by (induction s) auto

lemma Parse_Ok_iff:
  "(\<exists>cid. Parse s = Ok cid) \<longleftrightarrow> length s = 64 \<and> (\<forall>c \<in> set s. isxdigit c \<and> \<not> isupper c)"
proof
  assume "\<exists>cid. Parse s = Ok cid"
  then show "length s = 64 \<and> (\<forall>c \<in> set s. isxdigit c \<and> \<not> isupper c)"
    by (auto simp: Parse_def Parse_scan_None split: if_splits option.splits)
next
  assume s: "length s = 64 \<and> (\<forall>c \<in> set s. isxdigit c \<and> \<not> isupper c)"
  then have "Parse_scan s = None" by (simp add: Parse_scan_None)
  with s show "\<exists>cid. Parse s = Ok cid"
    by (simp add: Parse_def FromHexString_xdigits)
qed

lemma Parse_OkD:
  assumes "Parse s = Ok cid"
  shows "ChunkId_wf cid" and "id_hex cid = s" and "length s = 64"
    and "\<forall>c \<in> set s. isxdigit c \<and> \<not> isupper c"
proof -
  show s: "length s = 64" "\<forall>c \<in> set s. isxdigit c \<and> \<not> isupper c"
    using assms Parse_Ok_iff [of s] by blast+
  from assms have d: "FromHexString s = Ok (id_digest cid)" and h: "id_hex cid = s"
    by (auto simp: Parse_def split: if_splits option.splits Result.splits)
  from h show "id_hex cid = s" .
  from ToHexString_FromHexString [OF s d] h show "ChunkId_wf cid"
    by (simp add: ChunkId_wf_def)
qed

lemma FromDigest_wf [simp]: "length d = 32 \<Longrightarrow> ChunkId_wf (FromDigest d)"
  by (simp add: ChunkId_wf_def FromDigest_def)

lemma Parse_id_hex [simp]:
  assumes "ChunkId_wf cid"
  shows "Parse (id_hex cid) = Ok cid"
proof -
  have hex: "length (id_hex cid) = 64" "\<forall>c \<in> set (id_hex cid). isxdigit c \<and> \<not> isupper c"
    using assms by (auto simp: ChunkId_wf_def dest: ToHexString_chars)
  then have "Parse_scan (id_hex cid) = None" by (simp add: Parse_scan_None)
  with assms hex(1) show ?thesis
    by (simp add: Parse_def ChunkId_wf_def FromHexString_ToHexString)
qed

lemma ChunkId_wf_length [simp]: "ChunkId_wf cid \<Longrightarrow> length (id_hex cid) = 64"
  by (simp add: ChunkId_wf_def)

lemma ChunkId_eq_iff:
  assumes "ChunkId_wf a" "ChunkId_wf b"
  shows "a = b \<longleftrightarrow> id_digest a = id_digest b" and "a = b \<longleftrightarrow> id_hex a = id_hex b"
proof -
  have "Parse (id_hex a) = Ok a" "Parse (id_hex b) = Ok b" using assms by simp_all
  then show "a = b \<longleftrightarrow> id_hex a = id_hex b" by (metis Result.inject(1))
  then show "a = b \<longleftrightarrow> id_digest a = id_digest b" using assms by (metis ChunkId_wf_def)
qed

lemma FromDigest_id_digest: "ChunkId_wf cid \<Longrightarrow> FromDigest (id_digest cid) = cid"
  by (simp add: FromDigest_def ChunkId_wf_def)

section \<open>The hash functor\<close>

lemma Hash_loop_low_byte:
  assumes "8 \<le> length d" "i < 8"
  shows "take_bit 8 (Hash_loop d i h) = ucast (d ! 7)"
  using assms(2)
proof (induction "7 - i" arbitrary: i h)
  case 0
  then have i: "i = 7" by simp
  have "Hash_loop d i h = push_bit 8 h OR ucast (d ! 7)"
    using i assms(1) by (simp add: Hash_loop.simps [of d 7] Hash_loop.simps [of d 8])
  also have "take_bit 8 (push_bit 8 h OR ucast (d ! 7) :: uint64) = ucast (d ! 7)"
    by (rule bit_eqI) (auto simp: bit_simps dest: bit_imp_le_length)
  finally show ?case .
next
  case (Suc n)
  then have "Hash_loop d i h = Hash_loop d (Suc i) (push_bit 8 h OR ucast (d ! i))"
    using assms(1) by (simp add: Hash_loop.simps [of d i])
  with Suc show ?case by simp
qed

lemma ChunkId_Hash_mod_256:
  assumes "8 \<le> length (id_digest cid)"
  shows "unat (ChunkId_Hash cid mod 256) = unat (id_digest cid ! 7)"
proof -
  have "ChunkId_Hash cid mod 256 = take_bit 8 (ChunkId_Hash cid)"
    by (simp add: take_bit_eq_mod)
  also have "\<dots> = ucast (id_digest cid ! 7)"
    using assms by (simp add: ChunkId_Hash_def Hash_loop_low_byte)
  finally show ?thesis using unat_byte [of "id_digest cid ! 7"] by (simp add: unsigned_ucast_eq take_bit_eq_mod)
qed

section \<open>What the class promises\<close>

text \<open>
  \<open>Parse\<close> accepts exactly the strings of 64 lower-case hexadecimal digits; the object it makes
  spells itself as that string and carries the digest the string encodes, and no other object does.
\<close>

theorem Parse_is_exact:
  "(Parse s = Ok cid) = (ChunkId_wf cid \<and> id_hex cid = s) \<and>
   IsOk (Parse s) = (length s = 64 \<and> list_all (\<lambda>c. isxdigit c \<and> \<not> isupper c) s)"
  using Parse_Ok_iff [of s] Parse_OkD(1,2) [of s cid] Parse_id_hex [of cid]
  by (auto simp: IsOk_iff list_all_iff)

text \<open>
  C36: \<open>Parse\<close> in full: a string of the wrong length is rejected as such; otherwise the first
  character outside the lower-case hexadecimal digits decides between the two other errors; and
  without one the result is the id of the 32 bytes that the pairs of digits denote.
\<close>

theorem Parse_in_full:
  "Parse s =
     (if length s \<noteq> 64 then Err ParseError_WrongLength
      else case dropWhile (\<lambda>c. isxdigit c \<and> \<not> isupper c) s of
             [] \<Rightarrow> Ok (FromDigest (map (\<lambda>k. of_nat (pair_value (s ! (2 * k)) (s ! Suc (2 * k)))) [0 ..< 32]))
           | c # _ \<Rightarrow> Err (if isxdigit c then ParseError_NotLowercase else ParseError_InvalidHexCharacter))"
proof -
  have scan: "Parse_scan s = (case dropWhile (\<lambda>c. isxdigit c \<and> \<not> isupper c) s of
      [] \<Rightarrow> None
    | c # _ \<Rightarrow> Some (if isxdigit c then ParseError_NotLowercase else ParseError_InvalidHexCharacter))"
    by (induction s) auto
  show ?thesis
  proof (cases "length s = 64 \<and> Parse_scan s = None")
    case True
    then have s: "length s = 64" "\<forall>c \<in> set s. isxdigit c \<and> \<not> isupper c" by (simp_all add: Parse_scan_None)
    let ?d = "map (\<lambda>k. of_nat (pair_value (s ! (2 * k)) (s ! Suc (2 * k)))) [0 ..< 32] :: byte list"
    have d: "FromHexString s = Ok ?d" using s by (simp add: FromHexString_xdigits)
    have nil: "dropWhile (\<lambda>c. isxdigit c \<and> \<not> isupper c) s = []" using s(2) by simp
    from ToHexString_FromHexString(2) [OF s d] show ?thesis
      unfolding nil using True d by (simp add: Parse_def FromDigest_def)
  next
    case False
    show ?thesis
    proof (cases "dropWhile (\<lambda>c. isxdigit c \<and> \<not> isupper c) s")
      case Nil
      with False scan have "length s \<noteq> 64" by (simp only: list.case) blast
      then show ?thesis by (simp add: Parse_def)
    next
      case (Cons c cs)
      then show ?thesis using scan by (simp add: Parse_def)
    qed
  qed
qed

end
