(* ===== verification/Logger.thy ===== *)
theory Logger
  imports Result
begin

text \<open>
  \<^verbatim>\<open>libs/common/src/logger.cpp\<close>: message formatting, the operational and the audit channel, and the
  thread-local correlation id with its scope guard. The spdlog objects are represented by what the
  code hands to them: name, sinks, pattern, level and, in order, every message passed to them
  together with the severity of the call; filtering and writing are spdlog's.
  \<open>t_correlation_id\<close> is the thread-local of the thread that runs the operation.
\<close>

datatype LogLevel =
    LogLevel_Trace | LogLevel_Debug | LogLevel_Info
  | LogLevel_Warn | LogLevel_Error | LogLevel_Critical

record LogField =
  field_key :: string
  field_value :: string

record LoggerConfig =
  cfg_component_name :: string
  cfg_log_directory :: string
  cfg_level :: LogLevel
  cfg_rotation_max_bytes :: nat
  cfg_rotation_max_files :: nat

datatype spd_level = spd_trace | spd_debug | spd_info | spd_warn | spd_err | spd_critical

datatype spd_sink = stdout_color_sink | rotating_file_sink string nat nat

record spd_logger =
  spd_name :: string
  spd_sinks :: "spd_sink list"
  spd_pattern :: string
  spd_threshold :: spd_level
  spd_messages :: "(spd_level \<times> string) list"

record Logger =
  op_logger :: "spd_logger option"
  audit_logger :: "spd_logger option"
  component_name :: string
  t_correlation_id :: string

fun ToSpdlogLevel :: "LogLevel \<Rightarrow> spd_level" where
  "ToSpdlogLevel LogLevel_Trace = spd_trace"
| "ToSpdlogLevel LogLevel_Debug = spd_debug"
| "ToSpdlogLevel LogLevel_Info = spd_info"
| "ToSpdlogLevel LogLevel_Warn = spd_warn"
| "ToSpdlogLevel LogLevel_Error = spd_err"
| "ToSpdlogLevel LogLevel_Critical = spd_critical"

text \<open>\<^verbatim>\<open>std::filesystem::path::operator/\<close> on the strings the constructor joins.\<close>

definition path_join :: "string \<Rightarrow> string \<Rightarrow> string" where
  "path_join a b =
     (if b \<noteq> [] \<and> hd b = CHR ''/'' then b
      else if a = [] \<or> last a = CHR ''/'' then a @ b
      else a @ ''/'' @ b)"

text \<open>
  The constructor; \<open>mkdir_ok\<close> says whether the operating system lets \<^verbatim>\<open>create_directories\<close> succeed
  (it throws otherwise).
\<close>

definition Logger_new :: "bool \<Rightarrow> LoggerConfig \<Rightarrow> Logger run" where
  "Logger_new mkdir_ok config =
     (let name = cfg_component_name config; dir = cfg_log_directory config;
          bytes = cfg_rotation_max_bytes config; files = cfg_rotation_max_files config;
          op_sinks = stdout_color_sink #
            (if dir \<noteq> [] then [rotating_file_sink (path_join dir (name @ ''.log'')) bytes files] else []);
          op = \<lparr>spd_name = name, spd_sinks = op_sinks,
                spd_pattern = ''[%Y-%m-%d %H:%M:%S.%e] [%^%l%$] [%n] %v'',
                spd_threshold = ToSpdlogLevel (cfg_level config), spd_messages = []\<rparr>;
          audit = (if dir \<noteq> [] then
             Some \<lparr>spd_name = name @ ''_audit'',
                   spd_sinks = [rotating_file_sink (path_join dir (name @ ''_audit.log'')) bytes files],
                   spd_pattern = ''[%Y-%m-%d %H:%M:%S.%e] %v'',
                   spd_threshold = spd_info, spd_messages = []\<rparr>
             else None)
      in if dir \<noteq> [] \<and> \<not> mkdir_ok then Throws filesystem_error
         else Returns \<lparr>op_logger = Some op, audit_logger = audit, component_name = name,
                       t_correlation_id = []\<rparr>)"

section \<open>Formatting\<close>

fun FormatFields_loop :: "LogField list \<Rightarrow> bool \<Rightarrow> string \<Rightarrow> string" where
  "FormatFields_loop [] first result = result"
| "FormatFields_loop (f # fs) first result =
     FormatFields_loop fs False
       ((if \<not> first then result @ '', '' else result) @ field_key f @ ''='' @ field_value f)"

definition FormatFields :: "LogField list \<Rightarrow> string" where
  "FormatFields flds =
     (if length flds = 0 then [] else FormatFields_loop flds True '' {'' @ ''}'')"

definition FormatOpMessage :: "string \<Rightarrow> string \<Rightarrow> LogField list \<Rightarrow> string" where
  "FormatOpMessage corr message flds =
     (let corr_part = (if corr = [] then [] else ''['' @ corr @ ''] '')
      in corr_part @ message @ FormatFields flds)"

section \<open>The logging calls\<close>

definition spd_log :: "spd_level \<Rightarrow> string \<Rightarrow> spd_logger \<Rightarrow> spd_logger" where
  "spd_log l msg lg = lg\<lparr>spd_messages := spd_messages lg @ [(l, msg)]\<rparr>"

definition Logger_log :: "LogLevel \<Rightarrow> string \<Rightarrow> LogField list \<Rightarrow> Logger \<Rightarrow> Logger" where
  "Logger_log l message flds lg =
     lg\<lparr>op_logger := map_option
          (spd_log (ToSpdlogLevel l) (FormatOpMessage (t_correlation_id lg) message flds))
          (op_logger lg)\<rparr>"

abbreviation Logger_Debug :: "string \<Rightarrow> Logger \<Rightarrow> Logger" where
  "Logger_Debug msg \<equiv> Logger_log LogLevel_Debug msg []"

abbreviation Logger_Info :: "string \<Rightarrow> Logger \<Rightarrow> Logger" where
  "Logger_Info msg \<equiv> Logger_log LogLevel_Info msg []"

abbreviation Logger_Warn :: "string \<Rightarrow> Logger \<Rightarrow> Logger" where
  "Logger_Warn msg \<equiv> Logger_log LogLevel_Warn msg []"

abbreviation Logger_Error :: "string \<Rightarrow> Logger \<Rightarrow> Logger" where
  "Logger_Error msg \<equiv> Logger_log LogLevel_Error msg []"

definition Logger_Audit ::
  "string \<Rightarrow> string \<Rightarrow> string \<Rightarrow> string \<Rightarrow> LogField list \<Rightarrow> Logger \<Rightarrow> Logger" where
  "Logger_Audit actor action resource result extra_fields lg =
     (case audit_logger lg of
        None \<Rightarrow> lg
      | Some a \<Rightarrow>
          let extra = FormatFields extra_fields;
              msg = ''actor='' @ actor @ '' action='' @ action @ '' resource='' @ resource @
                    '' result='' @ result @ extra
          in lg\<lparr>audit_logger := Some (spd_log spd_info msg a)\<rparr>)"

section \<open>Correlation scopes\<close>

text \<open>
  \<open>WithCorrelationId\<close> returns the previous value, which the guard object keeps; its destructor
  writes it back. \<open>correlation_scope\<close> is the guard around a block of code over a state that holds
  the logger (reached through \<open>deref\<close> and \<open>modify\<close>): the destructor runs when the block returns
  or throws, not when its thread blocks for ever.
\<close>

definition WithCorrelationId :: "string \<Rightarrow> Logger \<Rightarrow> string \<times> Logger" where
  "WithCorrelationId correlation_id lg =
     (t_correlation_id lg, lg\<lparr>t_correlation_id := correlation_id\<rparr>)"

definition ScopedCorrelationId_dtor :: "string \<Rightarrow> Logger \<Rightarrow> Logger" where
  "ScopedCorrelationId_dtor previous_value lg = lg\<lparr>t_correlation_id := previous_value\<rparr>"

record 's logger_ref =
  deref :: "'s \<Rightarrow> Logger"
  modify :: "(Logger \<Rightarrow> Logger) \<Rightarrow> 's \<Rightarrow> 's"

definition correlation_scope ::
  "'s logger_ref \<Rightarrow> string \<Rightarrow> ('s \<Rightarrow> 'a run \<times> 's) \<Rightarrow> 's \<Rightarrow> 'a run \<times> 's" where
  "correlation_scope ref correlation_id block s =
     (let (previous, _) = WithCorrelationId correlation_id (deref ref s);
          s1 = modify ref (\<lambda>lg. snd (WithCorrelationId correlation_id lg)) s;
          (r, s2) = block s1
      in case r of
           Blocks \<Rightarrow> (Blocks, s2)
         | _ \<Rightarrow> (r, modify ref (ScopedCorrelationId_dtor previous) s2))"

section \<open>Lemmas\<close>

definition intercalate :: "string \<Rightarrow> string list \<Rightarrow> string" where
  "intercalate sep xs = (case xs of [] \<Rightarrow> [] | x # xs' \<Rightarrow> x @ concat (map (\<lambda>y. sep @ y) xs'))"

lemma FormatFields_loop_rest:
  "FormatFields_loop fs False acc =
     acc @ concat (map (\<lambda>f. '', '' @ field_key f @ ''='' @ field_value f) fs)"
  by (induction fs arbitrary: acc) auto

lemma FormatFields_eq:
  "FormatFields flds =
     (if flds = [] then []
      else '' {'' @ intercalate '', '' (map (\<lambda>f. field_key f @ ''='' @ field_value f) flds) @ ''}'')"
  by (cases flds) (auto simp: FormatFields_def FormatFields_loop_rest intercalate_def comp_def)

lemma Logger_log_frame [simp]:
  "t_correlation_id (Logger_log l m f lg) = t_correlation_id lg"
  "audit_logger (Logger_log l m f lg) = audit_logger lg"
  "component_name (Logger_log l m f lg) = component_name lg"
  by (simp_all add: Logger_log_def)

end
