(* ===== verification/Chunk_Store.thy ===== *)
theory Chunk_Store
  imports Chunk_Id Logger
begin

text \<open>
  \<^verbatim>\<open>services/storage_node/include/nimbus/storage_node/i_chunk_store.h\<close>: the storage interface. The
  abstract class is the record \<open>IChunkStore\<close> of its virtual functions over a state type; every
  function returns how the call ended and the state after it.

  The locales state what a client may rely on. \<open>chunk_integrity\<close> is the law the readers need: bytes
  that \<open>Get\<close> hands out hash to the requested address, whatever the disk holds. \<open>chunk_store\<close> adds the
  contents: \<open>content s id\<close> is what is stored under an address, and each operation changes it in the
  one way its result tells.
\<close>

datatype ChunkStoreError =
    ChunkStoreError_ChecksumMismatch
  | ChunkStoreError_CorruptionDetected
  | ChunkStoreError_NotFound
  | ChunkStoreError_IoError

record ChunkStoreErrorDetail =
  err_kind :: ChunkStoreError
  err_message :: string

record ChunkStoreStats =
  stats_chunk_count :: uint64
  stats_bytes_used :: uint64
  stats_bytes_free :: uint64

type_synonym 'a store_result = "('a, ChunkStoreErrorDetail) Result run"

record 's IChunkStore =
  Put :: "ChunkId \<Rightarrow> byte list \<Rightarrow> 's \<Rightarrow> unit store_result \<times> 's"
  Get :: "ChunkId \<Rightarrow> 's \<Rightarrow> byte list store_result \<times> 's"
  VerifyOnly :: "ChunkId \<Rightarrow> 's \<Rightarrow> unit store_result \<times> 's"
  Delete :: "ChunkId \<Rightarrow> 's \<Rightarrow> unit store_result \<times> 's"
  Exists :: "ChunkId \<Rightarrow> 's \<Rightarrow> bool run \<times> 's"
  GetStats :: "'s \<Rightarrow> ChunkStoreStats run \<times> 's"
  ListAllChunkIds :: "'s \<Rightarrow> ChunkId list run \<times> 's"

section \<open>Sequences of calls\<close>

text \<open>
  One call of an interface function, whatever its result, as a step between store states; a run is
  any finite sequence of calls.
\<close>

inductive store_step :: "'s IChunkStore \<Rightarrow> 's \<Rightarrow> 's \<Rightarrow> bool" for store where
  put_step: "ChunkId_wf cid \<Longrightarrow> Put store cid d s = (r, s') \<Longrightarrow> store_step store s s'"
| get_step: "ChunkId_wf cid \<Longrightarrow> Get store cid s = (r, s') \<Longrightarrow> store_step store s s'"
| verify_step: "ChunkId_wf cid \<Longrightarrow> VerifyOnly store cid s = (r, s') \<Longrightarrow> store_step store s s'"
| delete_step: "ChunkId_wf cid \<Longrightarrow> Delete store cid s = (r, s') \<Longrightarrow> store_step store s s'"
| exists_step: "ChunkId_wf cid \<Longrightarrow> Exists store cid s = (r, s') \<Longrightarrow> store_step store s s'"
| stats_step: "GetStats store s = (r, s') \<Longrightarrow> store_step store s s'"
| list_step: "ListAllChunkIds store s = (r, s') \<Longrightarrow> store_step store s s'"

inductive_cases store_stepE: "store_step store s s'"

section \<open>What the readers rely on\<close>

locale chunk_integrity =
  fixes store :: "'s IChunkStore"
    and hash :: "byte list \<Rightarrow> byte list run"
  assumes get_hash:
    "Get store cid s = (Returns (Ok d), s') \<Longrightarrow> hash d = Returns (id_digest cid)"
    and verify_hash:
    "VerifyOnly store cid s = (Returns (Ok ()), s') \<Longrightarrow>
       \<exists>d s1. Get store cid s = (Returns (Ok d), s1)"
begin

lemma verified_content_hash:
  assumes "VerifyOnly store cid s = (Returns (Ok ()), s')"
  shows "\<exists>d. hash d = Returns (id_digest cid)"
  using verify_hash [OF assms] get_hash by blast

end

section \<open>What the stored contents are\<close>

locale chunk_store = chunk_integrity store hash
  for store :: "'s IChunkStore" and hash :: "byte list \<Rightarrow> byte list run" +
  fixes content :: "'s \<Rightarrow> ChunkId \<Rightarrow> byte list option"
    and inv :: "'s \<Rightarrow> bool"
  assumes get_content:
    "inv s \<Longrightarrow> ChunkId_wf cid \<Longrightarrow> Get store cid s = (Returns (Ok d), s') \<Longrightarrow> content s cid = Some d"
    and get_frame: "inv s \<Longrightarrow> inv (snd (Get store cid s)) \<and> content (snd (Get store cid s)) = content s"
    and verify_frame:
    "inv s \<Longrightarrow> inv (snd (VerifyOnly store cid s)) \<and> content (snd (VerifyOnly store cid s)) = content s"
    and exists_frame:
    "inv s \<Longrightarrow> inv (snd (Exists store cid s)) \<and> content (snd (Exists store cid s)) = content s"
    and stats_frame: "inv s \<Longrightarrow> inv (snd (GetStats store s)) \<and> content (snd (GetStats store s)) = content s"
    and list_frame:
    "inv s \<Longrightarrow> inv (snd (ListAllChunkIds store s)) \<and> content (snd (ListAllChunkIds store s)) = content s"
    and put_inv: "inv s \<Longrightarrow> ChunkId_wf cid \<Longrightarrow> inv (snd (Put store cid d s))"
    and put_ok:
    "inv s \<Longrightarrow> ChunkId_wf cid \<Longrightarrow> ChunkId_wf x \<Longrightarrow> Put store cid d s = (Returns (Ok ()), s') \<Longrightarrow>
       hash d = Returns (id_digest cid) \<and>
       content s' x = (if x = cid \<and> content s cid = None then Some d else content s x)"
    and put_not_ok:
    "inv s \<Longrightarrow> ChunkId_wf cid \<Longrightarrow> ChunkId_wf x \<Longrightarrow> Put store cid d s = (r, s') \<Longrightarrow>
       r \<noteq> Returns (Ok ()) \<Longrightarrow> content s' x = content s x"
    and delete_inv: "inv s \<Longrightarrow> ChunkId_wf cid \<Longrightarrow> inv (snd (Delete store cid s))"
    and delete_content:
    "inv s \<Longrightarrow> ChunkId_wf cid \<Longrightarrow> ChunkId_wf x \<Longrightarrow> Delete store cid s = (r, s') \<Longrightarrow>
       content s' x = content s x \<or> (x = cid \<and> r = Returns (Ok ()) \<and> content s' x = None)"
begin

lemma store_step_inv: "store_step store s s' \<Longrightarrow> inv s \<Longrightarrow> inv s'"
  by (induction rule: store_step.induct)
     (metis snd_conv get_frame verify_frame exists_frame stats_frame list_frame put_inv delete_inv)+

text \<open>A stored chunk survives every operation other than a deletion of the same address.\<close>

lemma put_keeps:
  assumes "inv s" "ChunkId_wf cid" "ChunkId_wf x" "content s x = Some c"
  shows "content (snd (Put store cid d s)) x = Some c"
proof -
  obtain r s' where p: "Put store cid d s = (r, s')" by (cases "Put store cid d s")
  show ?thesis
  proof (cases "r = Returns (Ok ())")
    case True
    with put_ok [OF assms(1-3)] p assms(4) show ?thesis by auto
  next
    case False
    from put_not_ok [OF assms(1-3) p False] assms(4) p show ?thesis by simp
  qed
qed

lemma put_stored:
  assumes "inv s" "ChunkId_wf cid" "Put store cid d s = (Returns (Ok ()), s')"
  shows "\<exists>c. content s' cid = Some c \<and> (content s cid = None \<longrightarrow> c = d)"
  using put_ok [OF assms(1,2,2,3)] by auto

lemma delete_keeps:
  assumes "inv s" "ChunkId_wf cid" "ChunkId_wf x" "x \<noteq> cid"
  shows "content (snd (Delete store cid s)) x = content s x"
  using delete_content [OF assms(1-3), of "fst (Delete store cid s)" "snd (Delete store cid s)"]
    assms(4) by auto

end

end
