(* ===== verification/File_System.thy ===== *)
theory File_System
  imports Prelude "HOL-Library.AList" "HOL-Library.Sublist"
begin

text \<open>
  The part of \<^verbatim>\<open>std::filesystem\<close> and of the POSIX file interface that the chunk store calls. A file
  system is an association list from absolute paths (lists of components) to nodes, in the order a
  directory iteration visits them; the root directory always exists. What the operating system may
  answer beyond that (refusals, short reads and writes) is a value of \<open>os_answers\<close>, fixed for the
  duration of one store operation, which makes each of these calls at most once with one purpose.
\<close>

type_synonym path = "string list"

datatype node = File "byte list" | Dir

type_synonym fs = "(path \<times> node) list"

record os_answers =
  os_stat_ok :: bool \<comment> \<open>\<open>stat\<close> answers without an error of its own\<close>
  os_ec_message :: string \<comment> \<open>text of the last error code\<close>
  os_mkdir_limit :: "nat option" \<comment> \<open>\<open>Some k\<close>: directory creation is refused after \<open>k\<close> components\<close>
  os_uuid :: string \<comment> \<open>the next value of \<open>GenerateUuidV4\<close>\<close>
  os_open_write_ok :: bool
  os_write_limit :: "nat option" \<comment> \<open>\<open>None\<close>: \<open>write\<close> fails; \<open>Some k\<close>: at most \<open>k\<close> bytes are taken\<close>
  os_fsync_ok :: bool
  os_rename_ok :: bool
  os_remove_ok :: bool
  os_open_dir_ok :: bool
  os_fsync_dir_ok :: bool
  os_open_read_ok :: bool
  os_read_limit :: "nat option" \<comment> \<open>\<open>None\<close>: \<open>read\<close> fails; \<open>Some k\<close>: at most \<open>k\<close> bytes are delivered\<close>
  os_space :: "uint64 option" \<comment> \<open>\<open>None\<close>: \<open>space\<close> reports an error\<close>
  os_iterate_ok :: bool

definition fs_lookup :: "path \<Rightarrow> fs \<Rightarrow> node option" where
  "fs_lookup p d = (if p = [] then Some Dir else map_of d p)"

text \<open>\<^verbatim>\<open>exists(p, ec)\<close>: the answer and whether \<^verbatim>\<open>ec\<close> is set.\<close>

definition fs_exists :: "os_answers \<Rightarrow> path \<Rightarrow> fs \<Rightarrow> bool \<times> bool" where
  "fs_exists os p d = (os_stat_ok os \<and> fs_lookup p d \<noteq> None, \<not> os_stat_ok os)"

text \<open>\<^verbatim>\<open>file_size(p, ec)\<close>: \<open>None\<close> when \<^verbatim>\<open>ec\<close> is set (no such file, a directory, or a \<open>stat\<close> error).\<close>

definition fs_file_size :: "os_answers \<Rightarrow> path \<Rightarrow> fs \<Rightarrow> nat option" where
  "fs_file_size os p d =
     (if os_stat_ok os then
        (case fs_lookup p d of Some (File b) \<Rightarrow> Some (length b) | _ \<Rightarrow> None)
      else None)"

text \<open>\<^verbatim>\<open>create_directories\<close>: every missing prefix becomes a directory; a file on the way stops it.\<close>

fun mkdirs :: "path \<Rightarrow> string list \<Rightarrow> fs \<Rightarrow> bool \<times> fs" where
  "mkdirs pre [] d = (True, d)"
| "mkdirs pre (c # cs) d =
     (case fs_lookup (pre @ [c]) d of
        None \<Rightarrow> mkdirs (pre @ [c]) cs (d @ [(pre @ [c], Dir)])
      | Some Dir \<Rightarrow> mkdirs (pre @ [c]) cs d
      | Some (File _) \<Rightarrow> (False, d))"

definition fs_create_directories :: "os_answers \<Rightarrow> path \<Rightarrow> fs \<Rightarrow> bool \<times> fs" where
  "fs_create_directories os p d = (case os_mkdir_limit os of
      None \<Rightarrow> mkdirs [] p d
    | Some k \<Rightarrow> (False, snd (mkdirs [] (take k p) d)))"

text \<open>\<^verbatim>\<open>open(p, O_WRONLY | O_CREAT | O_TRUNC)\<close>\<close>

definition posix_open_write :: "os_answers \<Rightarrow> path \<Rightarrow> fs \<Rightarrow> bool \<times> fs" where
  "posix_open_write os p d =
     (if os_open_write_ok os \<and> p \<noteq> [] \<and> fs_lookup (butlast p) d = Some Dir \<and>
         fs_lookup p d \<noteq> Some Dir
      then (True, AList.update p (File []) d) else (False, d))"

text \<open>One \<^verbatim>\<open>write\<close> at offset 0 of the file just opened: the return value and the new contents.\<close>

definition posix_write :: "os_answers \<Rightarrow> path \<Rightarrow> byte list \<Rightarrow> fs \<Rightarrow> int \<times> fs" where
  "posix_write os p data d = (case os_write_limit os of
      None \<Rightarrow> (-1, d)
    | Some k \<Rightarrow> (int (min k (length data)), AList.update p (File (take k data)) d))"

text \<open>\<^verbatim>\<open>rename(p, q, ec)\<close> and \<^verbatim>\<open>remove(p, ec)\<close>: the first component is success.\<close>

definition fs_rename :: "os_answers \<Rightarrow> path \<Rightarrow> path \<Rightarrow> fs \<Rightarrow> bool \<times> fs" where
  "fs_rename os p q d =
     (if os_rename_ok os \<and> fs_lookup q d \<noteq> Some Dir then
        (case map_of d p of
           Some (File b) \<Rightarrow> (True, AList.update q (File b) (AList.delete p d))
         | _ \<Rightarrow> (False, d))
      else (False, d))"

definition fs_remove :: "os_answers \<Rightarrow> path \<Rightarrow> fs \<Rightarrow> bool \<times> fs" where
  "fs_remove os p d =
     (if os_remove_ok os then
        (case map_of d p of Some (File b) \<Rightarrow> (True, AList.delete p d) | _ \<Rightarrow> (False, d))
      else (False, d))"

text \<open>\<^verbatim>\<open>read(fd, buf, n)\<close> of a file opened at offset 0: \<open>None\<close> is a negative return value.\<close>

definition posix_read :: "os_answers \<Rightarrow> path \<Rightarrow> nat \<Rightarrow> fs \<Rightarrow> byte list option" where
  "posix_read os p n d = (case os_read_limit os of
      None \<Rightarrow> None
    | Some k \<Rightarrow> (case map_of d p of Some (File b) \<Rightarrow> Some (take (min k n) b) | _ \<Rightarrow> None))"

definition posix_open_read :: "os_answers \<Rightarrow> path \<Rightarrow> fs \<Rightarrow> bool" where
  "posix_open_read os p d \<longleftrightarrow> os_open_read_ok os \<and> fs_lookup p d \<noteq> None"

text \<open>
  \<^verbatim>\<open>recursive_directory_iterator\<close>: the entries strictly below the root it is given, or an exception
  (\<open>None\<close>) when that is no directory or the operating system refuses.
\<close>

definition fs_iterate :: "os_answers \<Rightarrow> path \<Rightarrow> fs \<Rightarrow> fs option" where
  "fs_iterate os root d =
     (if os_iterate_ok os \<and> fs_lookup root d = Some Dir
      then Some (filter (\<lambda>(p, _). strict_prefix root p) d) else None)"

text \<open>\<^verbatim>\<open>path::extension\<close> and \<^verbatim>\<open>path::stem\<close> of a file name.\<close>

definition last_dot :: "string \<Rightarrow> nat option" where
  "last_dot f =
     (let suffix = takeWhile (\<lambda>c. c \<noteq> CHR ''.'') (rev f)
      in if length suffix = length f then None else Some (length f - Suc (length suffix)))"

definition extension :: "string \<Rightarrow> string" where
  "extension f =
     (if f = ''.'' \<or> f = ''..'' then []
      else case last_dot f of None \<Rightarrow> [] | Some 0 \<Rightarrow> [] | Some k \<Rightarrow> drop k f)"

definition stem :: "string \<Rightarrow> string" where
  "stem f =
     (if f = ''.'' \<or> f = ''..'' then f
      else case last_dot f of None \<Rightarrow> f | Some 0 \<Rightarrow> f | Some k \<Rightarrow> take k f)"

section \<open>Lemmas\<close>

lemma fs_lookup_nonempty [simp]: "p \<noteq> [] \<Longrightarrow> fs_lookup p d = map_of d p"
  by (simp add: fs_lookup_def)

lemma last_dot_append:
  assumes "CHR ''.'' \<notin> set u"
  shows "last_dot (h @ CHR ''.'' # u) = Some (length h)"
proof -
  have "takeWhile (\<lambda>c. c \<noteq> CHR ''.'') (rev (h @ CHR ''.'' # u)) = rev u"
    using assms by (auto simp: takeWhile_append)
  then show ?thesis by (simp add: last_dot_def Let_def)
qed

lemma extension_append:
  assumes "h \<noteq> []" "CHR ''.'' \<notin> set u" "u \<noteq> []"
  shows "extension (h @ CHR ''.'' # u) = CHR ''.'' # u"
    and "stem (h @ CHR ''.'' # u) = h"
proof -
  have neq: "h @ CHR ''.'' # u \<noteq> ''.''" "h @ CHR ''.'' # u \<noteq> ''..''"
    using assms by (cases h; auto simp: append_eq_Cons_conv)+
  show "extension (h @ CHR ''.'' # u) = CHR ''.'' # u" "stem (h @ CHR ''.'' # u) = h"
    using neq assms(1) last_dot_append [OF assms(2), of h]
    by (auto simp: extension_def stem_def split: nat.split)
qed

lemma mkdirs_only_adds_dirs:
  "\<exists>ps. snd (mkdirs pre cs d) = d @ map (\<lambda>p. (p, Dir)) ps \<and> distinct ps \<and>
        (\<forall>p \<in> set ps. map_of d p = None \<and> length pre < length p \<and> length p \<le> length pre + length cs)"
proof (induction pre cs d rule: mkdirs.induct)
  case (1 pre d)
  show ?case by (rule exI [of _ "[]"]) simp
next
  case (2 pre c cs d)
  show ?case
  proof (cases "fs_lookup (pre @ [c]) d")
    case None
    then obtain ps where ps: "snd (mkdirs (pre @ [c]) cs (d @ [(pre @ [c], Dir)])) =
        (d @ [(pre @ [c], Dir)]) @ map (\<lambda>p. (p, Dir)) ps" "distinct ps"
        "\<forall>p \<in> set ps. map_of (d @ [(pre @ [c], Dir)]) p = None \<and>
           length (pre @ [c]) < length p \<and> length p \<le> length (pre @ [c]) + length cs"
      using 2(1) by blast
    show ?thesis
      using None ps by (intro exI [of _ "(pre @ [c]) # ps"]) (auto simp: map_add_def split: option.splits)
  next
    case (Some n)
    show ?thesis
    proof (cases n)
      case (File b)
      with Some show ?thesis by (intro exI [of _ "[]"]) simp
    next
      case Dir
      with Some 2(2) obtain ps where ps: "snd (mkdirs (pre @ [c]) cs d) = d @ map (\<lambda>p. (p, Dir)) ps"
          "distinct ps" "\<forall>p \<in> set ps. map_of d p = None \<and>
           length (pre @ [c]) < length p \<and> length p \<le> length (pre @ [c]) + length cs"
        by blast
      with Some Dir show ?thesis by (intro exI [of _ ps]) auto
    qed
  qed
qed

lemma mkdirs_result_is_dir:
  assumes "mkdirs pre cs d = (True, d')" "fs_lookup pre d = Some Dir"
  shows "fs_lookup (pre @ cs) d' = Some Dir"
  using assms
proof (induction pre cs d arbitrary: d' rule: mkdirs.induct)
  case (1 pre d)
  then show ?case by simp
next
  case (2 pre c cs d)
  then show ?case
    by (auto split: option.splits node.splits simp: map_add_def)
qed

lemma mkdirs_succeeds:
  assumes "\<forall>k b. map_of d (pre @ take k cs) \<noteq> Some (File b)"
  shows "fst (mkdirs pre cs d)"
  using assms
proof (induction pre cs d rule: mkdirs.induct)
  case (1 pre d)
  then show ?case by simp
next
  case (2 pre c cs d)
  have rest: "\<forall>k b. map_of d ((pre @ [c]) @ take k cs) \<noteq> Some (File b)"
    using 2(3) by (metis append.assoc append_Cons append_Nil take_Suc_Cons)
  then have here: "map_of d (pre @ [c]) \<noteq> Some (File b)" for b
    by (metis append_Nil2 take_0)
  show ?case
  proof (cases "map_of d (pre @ [c])")
    case None
    moreover have "\<forall>k b. map_of (d @ [(pre @ [c], Dir)]) ((pre @ [c]) @ take k cs) \<noteq> Some (File b)"
      using rest here by (auto simp: map_add_def split: option.splits)
    ultimately show ?thesis using 2(1) by simp
  next
    case (Some n)
    with here have "n = Dir" by (cases n) auto
    moreover have "fst (mkdirs (pre @ [c]) cs d)"
      using 2(2) Some \<open>n = Dir\<close> rest by simp
    ultimately show ?thesis using Some by simp
  qed
qed

end
