(* ===== verification/Local_Disk.thy ===== *)
theory Local_Disk
  imports Chunk_Store File_System
begin

text \<open>
  \<^verbatim>\<open>services/storage_node/src/local_disk_chunk_store.cpp\<close>: the production chunk store. The record
  \<open>LocalDisk\<close> holds the members of the class (root directory, shared logger, the 256 stripe locks,
  the two atomic counters) and the world they act on (\<open>disk\<close> and the operating system's answers).

  The stripe locks are \<^verbatim>\<open>std::mutex\<close> objects. \<open>stripe_locks\<close> is the set of stripes that are locked;
  an operation knows which stripes its own thread holds (\<open>held\<close>). Locking a stripe another thread
  holds waits for that thread. Locking a stripe of one's own is undefined behaviour in C++, so what
  happens is a parameter of the model, \<open>relock\<close>: the call waits for itself, or throws
  \<^verbatim>\<open>std::system_error\<close>, or the mutex counts the acquisition as a recursive one would.
\<close>

datatype relock_behaviour = Relock_blocks | Relock_throws | Relock_counts

record LocalDisk =
  data_root :: path
  logger :: Logger
  stripe_locks :: "nat set"
  chunk_count :: uint64
  bytes_used :: uint64
  disk :: fs
  os :: os_answers
  relock :: relock_behaviour

definition kLockStripeCount :: uint64 where
  "kLockStripeCount = 256"

definition LockFor :: "ChunkId \<Rightarrow> nat" where
  "LockFor cid = unat (ChunkId_Hash cid mod kLockStripeCount)"

definition ShardDirFor :: "LocalDisk \<Rightarrow> ChunkId \<Rightarrow> path" where
  "ShardDirFor s cid = data_root s @ [substr (id_hex cid) 0 2, substr (id_hex cid) 2 2]"

definition FinalPathFor :: "LocalDisk \<Rightarrow> ChunkId \<Rightarrow> path" where
  "FinalPathFor s cid = ShardDirFor s cid @ [id_hex cid @ ''.chunk'']"

abbreviation log_with :: "(Logger \<Rightarrow> Logger) \<Rightarrow> LocalDisk \<Rightarrow> LocalDisk" where
  "log_with \<equiv> logger_update"

text \<open>
  \<^verbatim>\<open>std::lock_guard<std::mutex> lock(stripe)\<close> around a block. The guard's destructor releases the
  stripe when the block returns or throws.
\<close>

definition with_stripe ::
  "nat list \<Rightarrow> nat \<Rightarrow> (nat list \<Rightarrow> LocalDisk \<Rightarrow> 'a run \<times> LocalDisk) \<Rightarrow> LocalDisk \<Rightarrow> 'a run \<times> LocalDisk"
where
  "with_stripe held i block s =
     (if i \<in> set held then
        (case relock s of
           Relock_blocks \<Rightarrow> (Blocks, s)
         | Relock_throws \<Rightarrow> (Throws system_error, s)
         | Relock_counts \<Rightarrow> block held s)
      else if i \<in> stripe_locks s then (Blocks, s)
      else
        (case block (i # held) (s\<lparr>stripe_locks := insert i (stripe_locks s)\<rparr>) of
           (Blocks, s') \<Rightarrow> (Blocks, s')
         | (Returns a, s') \<Rightarrow> (Returns a, s'\<lparr>stripe_locks := stripe_locks s' - {i}\<rparr>)
         | (Throws e, s') \<Rightarrow> (Throws e, s'\<lparr>stripe_locks := stripe_locks s' - {i}\<rparr>)))"

section \<open>Construction and iteration\<close>

text \<open>The counting loop of the constructor.\<close>

fun count_loop :: "fs \<Rightarrow> uint64 \<Rightarrow> uint64 \<Rightarrow> uint64 \<times> uint64" where
  "count_loop [] count bytes = (count, bytes)"
| "count_loop ((p, n) # es) count bytes =
     (case n of
        File b \<Rightarrow>
          if extension (last p) = ''.chunk''
          then count_loop es (count + 1) (bytes + of_nat (length b))
          else count_loop es count bytes
      | Dir \<Rightarrow> count_loop es count bytes)"

definition LocalDisk_new ::
  "relock_behaviour \<Rightarrow> os_answers \<Rightarrow> fs \<Rightarrow> path \<Rightarrow> Logger \<Rightarrow> LocalDisk run" where
  "LocalDisk_new rl osa d root lg =
     (let s0 = \<lparr>data_root = root, logger = lg, stripe_locks = {}, chunk_count = 0, bytes_used = 0,
                disk = d, os = osa, relock = rl\<rparr>
      in if snd (fs_exists osa root d) then Throws filesystem_error
         else if fst (fs_exists osa root d) then
           (case fs_iterate osa root d of
              None \<Rightarrow> Throws filesystem_error
            | Some es \<Rightarrow>
                let (count, bytes) = count_loop es 0 0
                in Returns (s0\<lparr>chunk_count := count, bytes_used := bytes\<rparr>))
         else
           let (ok, d') = fs_create_directories osa root d
           in if ok then Returns (s0\<lparr>disk := d'\<rparr>) else Throws filesystem_error)"

fun list_loop :: "fs \<Rightarrow> ChunkId list \<Rightarrow> ChunkId list" where
  "list_loop [] result = result"
| "list_loop ((p, n) # es) result =
     (if n \<noteq> Dir \<and> extension (last p) = ''.chunk''
      then (case Parse (stem (last p)) of
              Ok cid \<Rightarrow> list_loop es (result @ [cid])
            | Err _ \<Rightarrow> list_loop es result)
      else list_loop es result)"

definition LocalDisk_ListAllChunkIds :: "LocalDisk \<Rightarrow> ChunkId list run \<times> LocalDisk" where
  "LocalDisk_ListAllChunkIds s =
     (if snd (fs_exists (os s) (data_root s) (disk s)) then (Throws filesystem_error, s)
      else if \<not> fst (fs_exists (os s) (data_root s) (disk s)) then (Returns [], s)
      else (case fs_iterate (os s) (data_root s) (disk s) of
              None \<Rightarrow> (Throws filesystem_error, s)
            | Some es \<Rightarrow> (Returns (list_loop es []), s)))"

definition LocalDisk_GetStats :: "LocalDisk \<Rightarrow> ChunkStoreStats run \<times> LocalDisk" where
  "LocalDisk_GetStats s =
     (let free = (case os_space (os s) of None \<Rightarrow> 0 | Some a \<Rightarrow> a)
      in (Returns \<lparr>stats_chunk_count = chunk_count s, stats_bytes_used = bytes_used s,
                   stats_bytes_free = free\<rparr>, s))"

section \<open>The operations\<close>

abbreviation store_err :: "ChunkStoreError \<Rightarrow> string \<Rightarrow> ('a, ChunkStoreErrorDetail) Result run" where
  "store_err k m \<equiv> Returns (Err \<lparr>err_kind = k, err_message = m\<rparr>)"

definition LocalDisk_Exists :: "nat list \<Rightarrow> ChunkId \<Rightarrow> LocalDisk \<Rightarrow> bool run \<times> LocalDisk" where
  "LocalDisk_Exists held cid =
     with_stripe held (LockFor cid) (\<lambda>_ s.
       let (ex, ec) = fs_exists (os s) (FinalPathFor s cid) (disk s)
       in (Returns (ex \<and> \<not> ec), s))"

text \<open>
  The second half of \<open>Put\<close>, once the chunk is known to be absent: temporary file, write, \<^verbatim>\<open>fsync\<close>,
  rename, directory \<^verbatim>\<open>fsync\<close>, counters. \<open>drop_tmp\<close> is the clean-up of the error paths.
\<close>

definition drop_tmp :: "path \<Rightarrow> LocalDisk \<Rightarrow> LocalDisk" where
  "drop_tmp tmp_path s = s\<lparr>disk := snd (fs_remove (os s) tmp_path (disk s))\<rparr>"

definition Put_write :: "ChunkId \<Rightarrow> byte list \<Rightarrow> LocalDisk \<Rightarrow> unit store_result \<times> LocalDisk" where
  "Put_write cid data s =
     (let shard_dir = ShardDirFor s cid;
          (made, d1) = fs_create_directories (os s) shard_dir (disk s);
          s1 = s\<lparr>disk := d1\<rparr>
      in if \<not> made then
           (store_err ChunkStoreError_IoError
              (''Failed to create shard directory: '' @ os_ec_message (os s)), s1)
      else
      let tmp_path = shard_dir @ [id_hex cid @ ''.tmp.'' @ os_uuid (os s)];
          final_path = FinalPathFor s cid;
          (opened, d2) = posix_open_write (os s) tmp_path d1;
          s2 = s1\<lparr>disk := d2\<rparr>
      in if \<not> opened then
           (store_err ChunkStoreError_IoError ''Failed to open temporary file for write'', s2)
      else
      let (written, d3) = (if data \<noteq> [] then posix_write (os s) tmp_path data d2 else (0, d2));
          s3 = s2\<lparr>disk := d3\<rparr>
      in if data \<noteq> [] \<and> (written < 0 \<or> nat written \<noteq> length data) then
           (store_err ChunkStoreError_IoError ''Failed to write chunk data'', drop_tmp tmp_path s3)
      else if \<not> os_fsync_ok (os s) then
           (store_err ChunkStoreError_IoError ''Failed to fsync temporary file'', drop_tmp tmp_path s3)
      else
      let (renamed, d4) = fs_rename (os s) tmp_path final_path d3;
          s4 = s3\<lparr>disk := d4\<rparr>
      in if \<not> renamed then
           (store_err ChunkStoreError_IoError ''Failed to atomically rename chunk file'',
            drop_tmp tmp_path s4)
      else
      let s5 = (if os_open_dir_ok (os s) then
                  (if \<not> os_fsync_dir_ok (os s)
                   then log_with (Logger_Warn (''Failed to fsync directory '' @ concat (map (\<lambda>c. ''/'' @ c) shard_dir))) s4
                   else s4)
                else log_with (Logger_Warn (''Failed to open directory for fsync '' @ concat (map (\<lambda>c. ''/'' @ c) shard_dir))) s4);
          s6 = s5\<lparr>chunk_count := chunk_count s5 + 1,
                   bytes_used := bytes_used s5 + of_nat (length data)\<rparr>
      in (Returns (Ok ()), log_with (Logger_Debug (''Successfully wrote chunk '' @ id_hex cid)) s6))"

definition Put_locked ::
  "ChunkId \<Rightarrow> byte list \<Rightarrow> nat list \<Rightarrow> LocalDisk \<Rightarrow> unit store_result \<times> LocalDisk" where
  "Put_locked cid data held s =
     run_bind (LocalDisk_Exists held cid s) (\<lambda>ex s.
       if ex then
         (Returns (Ok ()),
          log_with (Logger_Debug (''Chunk already exists, deduplicating: '' @ id_hex cid)) s)
       else Put_write cid data s)"

definition LocalDisk_Put ::
  "'c EVP \<Rightarrow> ChunkId \<Rightarrow> byte list \<Rightarrow> LocalDisk \<Rightarrow> unit store_result \<times> LocalDisk" where
  "LocalDisk_Put evp cid data s =
     run_bind (HashBytes evp data, s) (\<lambda>actual_hash s.
       if actual_hash \<noteq> id_digest cid then
         (store_err ChunkStoreError_ChecksumMismatch ''Provided chunk data does not match the ChunkId'',
          log_with (Logger_Error (''ChecksumMismatch on Put for chunk '' @ id_hex cid)) s)
       else with_stripe [] (LockFor cid) (Put_locked cid data) s)"

definition Get_locked ::
  "'c EVP \<Rightarrow> ChunkId \<Rightarrow> nat list \<Rightarrow> LocalDisk \<Rightarrow> byte list store_result \<times> LocalDisk" where
  "Get_locked evp cid held s =
     (let final_path = FinalPathFor s cid
      in case fs_file_size (os s) final_path (disk s) of
           None \<Rightarrow> (store_err ChunkStoreError_NotFound ''Chunk file not found or inaccessible'', s)
         | Some file_size \<Rightarrow>
             if \<not> posix_open_read (os s) final_path (disk s) then
               (store_err ChunkStoreError_IoError ''Failed to open chunk file for read'', s)
             else
               let got = (if file_size > 0 then posix_read (os s) final_path file_size (disk s)
                          else Some [])
               in case got of
                    None \<Rightarrow> (store_err ChunkStoreError_IoError ''Failed to read full chunk file'', s)
                  | Some data \<Rightarrow>
                      if length data \<noteq> file_size then
                        (store_err ChunkStoreError_IoError ''Failed to read full chunk file'', s)
                      else run_bind (HashBytes evp data, s) (\<lambda>actual_hash s.
                        if actual_hash \<noteq> id_digest cid then
                          (store_err ChunkStoreError_CorruptionDetected
                             ''Chunk data on disk does not match its ID'',
                           log_with (Logger_Error (''CorruptionDetected for chunk '' @ id_hex cid)) s)
                        else
                          (Returns (Ok data),
                           log_with (Logger_Debug (''Successfully read chunk '' @ id_hex cid)) s)))"

definition LocalDisk_Get ::
  "'c EVP \<Rightarrow> ChunkId \<Rightarrow> LocalDisk \<Rightarrow> byte list store_result \<times> LocalDisk" where
  "LocalDisk_Get evp cid = with_stripe [] (LockFor cid) (Get_locked evp cid)"

definition LocalDisk_VerifyOnly ::
  "'c EVP \<Rightarrow> ChunkId \<Rightarrow> LocalDisk \<Rightarrow> unit store_result \<times> LocalDisk" where
  "LocalDisk_VerifyOnly evp cid s =
     run_bind (LocalDisk_Get evp cid s) (\<lambda>res s.
       case res of Err e \<Rightarrow> (Returns (Err e), s) | Ok _ \<Rightarrow> (Returns (Ok ()), s))"

definition Delete_locked :: "ChunkId \<Rightarrow> nat list \<Rightarrow> LocalDisk \<Rightarrow> unit store_result \<times> LocalDisk" where
  "Delete_locked cid held s =
     (let final_path = FinalPathFor s cid
      in case fs_file_size (os s) final_path (disk s) of
           None \<Rightarrow> (Returns (Ok ()), s)
         | Some size_before \<Rightarrow>
             let (removed, d') = fs_remove (os s) final_path (disk s); s1 = s\<lparr>disk := d'\<rparr>
             in if \<not> removed then
                  (store_err ChunkStoreError_IoError
                     (''Failed to delete chunk file: '' @ os_ec_message (os s)), s1)
                else
                  (Returns (Ok ()),
                   log_with (Logger_Debug (''Successfully deleted chunk '' @ id_hex cid))
                     (s1\<lparr>chunk_count := chunk_count s1 - 1,
                         bytes_used := bytes_used s1 - of_nat size_before\<rparr>)))"

definition LocalDisk_Delete :: "ChunkId \<Rightarrow> LocalDisk \<Rightarrow> unit store_result \<times> LocalDisk" where
  "LocalDisk_Delete cid = with_stripe [] (LockFor cid) (Delete_locked cid)"

definition LocalDisk_vtable :: "'c EVP \<Rightarrow> LocalDisk IChunkStore" where
  "LocalDisk_vtable evp =
     \<lparr>Put = LocalDisk_Put evp, Get = LocalDisk_Get evp, VerifyOnly = LocalDisk_VerifyOnly evp,
      Delete = LocalDisk_Delete, Exists = LocalDisk_Exists [], GetStats = LocalDisk_GetStats,
      ListAllChunkIds = LocalDisk_ListAllChunkIds\<rparr>"

section \<open>Invariant and abstraction\<close>

text \<open>
  What \<^verbatim>\<open>GenerateUuidV4\<close> documents of its result and the store relies on: 36 characters of
  hexadecimal digits and hyphens, so in particular no dot.
\<close>

definition uuid_wf :: "string \<Rightarrow> bool" where
  "uuid_wf u \<longleftrightarrow> length u = 36 \<and> (\<forall>c \<in> set u. isxdigit c \<or> c = CHR ''-'')"

definition is_chunk_path :: "path \<Rightarrow> path \<Rightarrow> bool" where
  "is_chunk_path root p \<longleftrightarrow> strict_prefix root p \<and> extension (last p) = ''.chunk''"

fun chunk_files :: "path \<Rightarrow> fs \<Rightarrow> (path \<times> byte list) list" where
  "chunk_files root [] = []"
| "chunk_files root ((p, n) # d) =
     (case n of
        File b \<Rightarrow> if is_chunk_path root p then (p, b) # chunk_files root d else chunk_files root d
      | Dir \<Rightarrow> chunk_files root d)"

definition total_bytes :: "(path \<times> byte list) list \<Rightarrow> nat" where
  "total_bytes fs = sum_list (map (\<lambda>(p, b). length b) fs)"

definition stored :: "LocalDisk \<Rightarrow> ChunkId \<Rightarrow> byte list option" where
  "stored s cid = (case map_of (disk s) (FinalPathFor s cid) of Some (File b) \<Rightarrow> Some b | _ \<Rightarrow> None)"

definition LocalDisk_inv :: "LocalDisk \<Rightarrow> bool" where
  "LocalDisk_inv s \<longleftrightarrow>
     distinct (map fst (disk s)) \<and> fs_lookup (data_root s) (disk s) = Some Dir \<and>
     (\<forall>cid. ChunkId_wf cid \<longrightarrow> map_of (disk s) (FinalPathFor s cid) \<noteq> Some Dir) \<and>
     uuid_wf (os_uuid (os s)) \<and> os_stat_ok (os s) \<and>
     chunk_count s = of_nat (length (chunk_files (data_root s) (disk s))) \<and>
     bytes_used s = of_nat (total_bytes (chunk_files (data_root s) (disk s)))"

section \<open>Paths\<close>

lemma FinalPathFor_nonempty [simp]: "FinalPathFor s cid \<noteq> []"
  by (simp add: FinalPathFor_def)

lemma hex_no_dot:
  "ChunkId_wf cid \<Longrightarrow> CHR ''.'' \<notin> set (id_hex cid)"
  by (auto simp: ChunkId_wf_def cctype_defs dest!: ToHexString_chars)

lemma id_hex_nonempty: "ChunkId_wf cid \<Longrightarrow> id_hex cid \<noteq> []"
  using ChunkId_wf_length by fastforce

lemma chunk_name:
  assumes "ChunkId_wf cid"
  shows "extension (id_hex cid @ ''.chunk'') = ''.chunk''" and "stem (id_hex cid @ ''.chunk'') = id_hex cid"
  using extension_append [OF id_hex_nonempty [OF assms], of "''chunk''"] by simp_all

lemma tmp_name_not_chunk:
  assumes "uuid_wf u"
  shows "extension (h @ ''.tmp.'' @ u) \<noteq> ''.chunk''"
proof -
  have "CHR ''.'' \<notin> set u" "u \<noteq> []"
    using assms by (auto simp: uuid_wf_def cctype_defs)
  then have "extension ((h @ ''.tmp'') @ CHR ''.'' # u) = CHR ''.'' # u"
    by (intro extension_append) auto
  moreover have "length (CHR ''.'' # u) \<noteq> length ''.chunk''"
    using assms by (simp add: uuid_wf_def)
  ultimately show ?thesis by (auto dest: arg_cong [of _ _ length])
qed

lemma is_chunk_path_final: "ChunkId_wf cid \<Longrightarrow> is_chunk_path (data_root s) (FinalPathFor s cid)"
  by (auto simp: is_chunk_path_def FinalPathFor_def ShardDirFor_def chunk_name strict_prefix_def prefix_def)

lemma FinalPathFor_inj:
  assumes "ChunkId_wf a" "ChunkId_wf b"
  shows "FinalPathFor s a = FinalPathFor s b \<longleftrightarrow> a = b"
  using ChunkId_eq_iff(2) [OF assms] by (auto simp: FinalPathFor_def ShardDirFor_def)

lemma FinalPathFor_frame [simp]:
  "FinalPathFor (s\<lparr>stripe_locks := L\<rparr>) cid = FinalPathFor s cid"
  "FinalPathFor (s\<lparr>disk := d\<rparr>) cid = FinalPathFor s cid"
  "FinalPathFor (s\<lparr>chunk_count := c\<rparr>) cid = FinalPathFor s cid"
  "FinalPathFor (s\<lparr>bytes_used := b\<rparr>) cid = FinalPathFor s cid"
  "FinalPathFor (s\<lparr>os := osa\<rparr>) cid = FinalPathFor s cid"
  "FinalPathFor (log_with f s) cid = FinalPathFor s cid"
  by (simp_all add: FinalPathFor_def ShardDirFor_def)

section \<open>The list of chunk files\<close>

lemma chunk_files_append: "chunk_files root (d @ e) = chunk_files root d @ chunk_files root e"
  by (induction root d rule: chunk_files.induct) (auto split: node.splits)

lemma chunk_files_dirs: "chunk_files root (map (\<lambda>p. (p, Dir)) ps) = []"
  by (induction ps) auto

lemma chunk_files_update_other:
  "\<not> is_chunk_path root p \<Longrightarrow> chunk_files root (AList.update p n d) = chunk_files root d"
  by (induction root d rule: chunk_files.induct) (auto split: node.splits)

lemma chunk_files_update_new:
  assumes "is_chunk_path root p" "map_of d p = None"
  shows "chunk_files root (AList.update p (File b) d) = chunk_files root d @ [(p, b)]"
  using assms by (induction root d rule: chunk_files.induct) (auto split: node.splits if_splits)

lemma chunk_files_delete:
  "chunk_files root (AList.delete p d) = filter (\<lambda>e. fst e \<noteq> p) (chunk_files root d)"
  by (induction root d rule: chunk_files.induct) (auto split: node.splits)

lemma in_chunk_files:
  "(p, b) \<in> set (chunk_files root d) \<longleftrightarrow> (p, File b) \<in> set d \<and> is_chunk_path root p"
  by (induction root d rule: chunk_files.induct) (auto split: node.splits)

lemma distinct_chunk_files:
  "distinct (map fst d) \<Longrightarrow> distinct (map fst (chunk_files root d))"
  by (induction root d rule: chunk_files.induct) (force split: node.splits simp: in_chunk_files)+

lemma total_bytes_simps [simp]:
  "total_bytes [] = 0" "total_bytes ((p, b) # fs) = length b + total_bytes fs"
  "total_bytes (fs @ gs) = total_bytes fs + total_bytes gs"
  by (simp_all add: total_bytes_def)

lemma filter_fresh_key: "p \<notin> fst ` set fs \<Longrightarrow> filter (\<lambda>e. fst e \<noteq> p) fs = fs"
  by (auto simp: filter_id_conv)

lemma filter_other_keys:
  assumes "distinct (map fst fs)" "(p, b) \<in> set fs"
  shows "Suc (length (filter (\<lambda>e. fst e \<noteq> p) fs)) = length fs"
    and "length b + total_bytes (filter (\<lambda>e. fst e \<noteq> p) fs) = total_bytes fs"
  using assms
proof (induction fs)
  case (Cons e fs)
  obtain q c where e: "e = (q, c)" by (cases e)
  {
    case 1
    then show ?case using Cons.IH(1) e by (cases "q = p") (auto simp: filter_fresh_key)
  next
    case 2
    then show ?case using Cons.IH(2) e
      by (cases "q = p") (auto simp: filter_fresh_key image_iff)
  }
qed simp_all

lemma count_loop_eq:
  "count_loop (filter (\<lambda>(p, _). strict_prefix root p) d) c b =
     (c + of_nat (length (chunk_files root d)), b + of_nat (total_bytes (chunk_files root d)))"
  by (induction root d arbitrary: c b rule: chunk_files.induct)
     (auto simp: is_chunk_path_def split: node.splits)

section \<open>Disk changes that leave the chunk files alone\<close>

definition same_chunks :: "path \<Rightarrow> fs \<Rightarrow> fs \<Rightarrow> bool" where
  "same_chunks root d d' \<longleftrightarrow>
     chunk_files root d' = chunk_files root d \<and>
     (distinct (map fst d) \<longrightarrow> distinct (map fst d')) \<and>
     (fs_lookup root d = Some Dir \<longrightarrow> fs_lookup root d' = Some Dir) \<and>
     (\<forall>p. is_chunk_path root p \<and> length root + 2 < length p \<longrightarrow> map_of d' p = map_of d p)"

lemma same_chunks_refl [simp, intro]: "same_chunks root d d"
  by (simp add: same_chunks_def)

lemma same_chunks_trans [trans]:
  "same_chunks root d e \<Longrightarrow> same_chunks root e f \<Longrightarrow> same_chunks root d f"
  by (simp add: same_chunks_def)

lemma same_chunks_update:
  "\<not> is_chunk_path root p \<Longrightarrow> p \<noteq> root \<Longrightarrow> same_chunks root d (AList.update p n d)"
  by (auto simp: same_chunks_def chunk_files_update_other update_conv' distinct_update fs_lookup_def)

lemma same_chunks_delete:
  "\<not> is_chunk_path root p \<Longrightarrow> p \<noteq> root \<Longrightarrow> same_chunks root d (AList.delete p d)"
  by (auto simp: same_chunks_def chunk_files_delete delete_conv' distinct_delete filter_id_conv
      in_chunk_files fs_lookup_def)

lemma same_chunks_mkdirs:
  assumes "length cs \<le> length root + 2"
  shows "same_chunks root d (snd (mkdirs [] cs d))"
proof -
  obtain ps where ps: "snd (mkdirs [] cs d) = d @ map (\<lambda>p. (p, Dir)) ps" "distinct ps"
      "\<forall>p \<in> set ps. map_of d p = None \<and> length p \<le> length cs"
    using mkdirs_only_adds_dirs [of "[]" cs d] by auto
  have "map_of (map (\<lambda>p. (p, Dir)) ps) p = None" if "length root + 2 < length p" for p
    using that ps(3) assms by (auto simp: map_of_eq_None_iff)
  moreover have "p \<notin> fst ` set d" if "p \<in> set ps" for p
    using that ps(3) by (auto simp: map_of_eq_None_iff)
  ultimately show ?thesis
    using ps by (auto simp: same_chunks_def chunk_files_append chunk_files_dirs map_add_def comp_def
        fs_lookup_def split: option.splits)
qed

lemma same_chunks_create_directories:
  assumes "length p \<le> length root + 2"
  shows "same_chunks root d (snd (fs_create_directories osa p d))"
  using assms
  by (auto simp: fs_create_directories_def intro: same_chunks_mkdirs split: option.splits)

lemma same_chunks_open_write:
  "\<not> is_chunk_path root p \<Longrightarrow> p \<noteq> root \<Longrightarrow> same_chunks root d (snd (posix_open_write osa p d))"
  by (auto simp: posix_open_write_def same_chunks_update)

lemma same_chunks_write:
  "\<not> is_chunk_path root p \<Longrightarrow> p \<noteq> root \<Longrightarrow> same_chunks root d (snd (posix_write osa p data d))"
  by (auto simp: posix_write_def same_chunks_update split: option.splits)

lemma same_chunks_remove:
  "\<not> is_chunk_path root p \<Longrightarrow> p \<noteq> root \<Longrightarrow> same_chunks root d (snd (fs_remove osa p d))"
  by (auto simp: fs_remove_def same_chunks_delete split: option.splits node.splits)

lemma tmp_not_chunk_path:
  "uuid_wf u \<Longrightarrow> \<not> is_chunk_path root (q @ [h @ ''.tmp.'' @ u])"
  using tmp_name_not_chunk [of u h] by (simp add: is_chunk_path_def)

lemma length_FinalPathFor: "length (data_root s) + 2 < length (FinalPathFor s cid)"
  by (simp add: FinalPathFor_def ShardDirFor_def)

lemma same_chunks_stored:
  assumes "same_chunks (data_root s) (disk s) d'" "ChunkId_wf cid"
  shows "map_of d' (FinalPathFor s cid) = map_of (disk s) (FinalPathFor s cid)"
  using assms(1) is_chunk_path_final [OF assms(2), of s] length_FinalPathFor [of s cid]
  unfolding same_chunks_def by blast

lemma LocalDisk_inv_same_chunks:
  assumes "LocalDisk_inv s" "same_chunks (data_root s) (disk s) d'"
  shows "LocalDisk_inv (s\<lparr>disk := d'\<rparr>)"
  using assms(1) same_chunks_stored [OF assms(2)] assms(2)
  unfolding LocalDisk_inv_def same_chunks_def by (simp del: map_of_eq_Some_iff)

lemma LocalDisk_inv_frame [simp]:
  "LocalDisk_inv (s\<lparr>stripe_locks := L\<rparr>) = LocalDisk_inv s"
  "LocalDisk_inv (log_with f s) = LocalDisk_inv s"
  by (simp_all add: LocalDisk_inv_def)

lemma stored_frame [simp]:
  "stored (s\<lparr>stripe_locks := L\<rparr>) = stored s"
  "stored (log_with f s) = stored s"
  "stored (s\<lparr>chunk_count := c\<rparr>) = stored s"
  "stored (s\<lparr>bytes_used := b\<rparr>) = stored s"
  "stored (s\<lparr>os := osa\<rparr>) = stored s"
  by (simp_all add: stored_def fun_eq_iff)

lemma stored_same_chunks:
  "same_chunks (data_root s) (disk s) d' \<Longrightarrow> ChunkId_wf x \<Longrightarrow> stored (s\<lparr>disk := d'\<rparr>) x = stored s x"
  using same_chunks_stored [of s d' x] by (simp add: stored_def)

section \<open>Lock scopes\<close>

text \<open>Two states that differ at most in the locks and in the log.\<close>

definition quiet :: "LocalDisk \<Rightarrow> LocalDisk \<Rightarrow> bool" where
  "quiet s s' \<longleftrightarrow>
     data_root s' = data_root s \<and> disk s' = disk s \<and> os s' = os s \<and> relock s' = relock s \<and>
     chunk_count s' = chunk_count s \<and> bytes_used s' = bytes_used s"

lemma quiet_intros [simp, intro]:
  "quiet s s"
  "quiet s (s\<lparr>stripe_locks := L\<rparr>)"
  "quiet (s\<lparr>stripe_locks := L\<rparr>) s"
  "quiet s (log_with f s)"
  "quiet s s' \<Longrightarrow> quiet s (s'\<lparr>stripe_locks := L\<rparr>)"
  "quiet s s' \<Longrightarrow> quiet s (log_with f s')"
  by (simp_all add: quiet_def)

lemma quiet_trans [trans]: "quiet s t \<Longrightarrow> quiet t u \<Longrightarrow> quiet s u"
  by (simp add: quiet_def)

lemma quiet_FinalPathFor: "quiet s s' \<Longrightarrow> FinalPathFor s' cid = FinalPathFor s cid"
  by (simp add: quiet_def FinalPathFor_def ShardDirFor_def)

lemma quiet_inv: "quiet s s' \<Longrightarrow> LocalDisk_inv s' = LocalDisk_inv s"
  using quiet_FinalPathFor [of s s'] by (simp add: LocalDisk_inv_def quiet_def)

lemma quiet_stored: "quiet s s' \<Longrightarrow> stored s' = stored s"
  using quiet_FinalPathFor [of s s'] by (simp add: stored_def quiet_def fun_eq_iff)

lemma with_stripe_cases:
  assumes "with_stripe held i block s = (r, s')"
  obtains (stuck) "s' = s" "r = Blocks \<or> r = Throws system_error"
  | (ran) h s1 s2 where "quiet s s1" "block h s1 = (r, s2)" "quiet s2 s'"
proof -
  consider "i \<in> set held" | "i \<notin> set held" "i \<in> stripe_locks s" | "i \<notin> set held" "i \<notin> stripe_locks s"
    by blast
  then show thesis
  proof cases
    case 1
    then show thesis
      using assms stuck ran [of s held s'] by (auto simp: with_stripe_def split: relock_behaviour.splits)
  next
    case 2
    then show thesis using assms stuck by (auto simp: with_stripe_def)
  next
    case 3
    obtain r2 s2 where b: "block (i # held) (s\<lparr>stripe_locks := insert i (stripe_locks s)\<rparr>) = (r2, s2)"
      by fastforce
    with 3 assms have "r2 = r" "quiet s2 s'"
      by (auto simp: with_stripe_def split: run.splits)
    with b ran show thesis by blast
  qed
qed

lemma with_stripe_free:
  assumes "i \<notin> stripe_locks s" "block [i] (s\<lparr>stripe_locks := insert i (stripe_locks s)\<rparr>) = (Returns a, s')"
  shows "with_stripe [] i block s = (Returns a, s'\<lparr>stripe_locks := stripe_locks s' - {i}\<rparr>)"
  using assms by (simp add: with_stripe_def)

section \<open>Effect of the writing half of Put\<close>

definition tmp_path_for :: "LocalDisk \<Rightarrow> ChunkId \<Rightarrow> path" where
  "tmp_path_for s cid = ShardDirFor s cid @ [id_hex cid @ ''.tmp.'' @ os_uuid (os s)]"

definition put_written :: "ChunkId \<Rightarrow> byte list \<Rightarrow> fs \<Rightarrow> LocalDisk \<Rightarrow> LocalDisk" where
  "put_written cid data d s =
     s\<lparr>disk := AList.update (FinalPathFor s cid) (File data) d,
       chunk_count := chunk_count s + 1, bytes_used := bytes_used s + of_nat (length data)\<rparr>"

lemma open_write_content:
  "posix_open_write osa p d = (True, d') \<Longrightarrow> map_of d' p = Some (File [])"
  by (auto simp: posix_open_write_def update_conv' split: if_splits)

lemma write_content:
  assumes "posix_write osa p data d = (w, d')" "\<not> w < 0" "nat w = length data"
  shows "map_of d' p = Some (File data)"
  using assms by (auto simp: posix_write_def update_conv' min_def split: option.splits if_splits)

lemma rename_content:
  assumes "fs_rename osa p q d = (True, d')" "map_of d p = Some (File b)"
  shows "d' = AList.update q (File b) (AList.delete p d)"
  using assms by (auto simp: fs_rename_def split: if_splits)

lemma rename_fail: "fs_rename osa p q d = (False, d') \<Longrightarrow> d' = d"
  by (auto simp: fs_rename_def split: if_splits option.splits node.splits)

lemma Put_write_effect:
  assumes u: "uuid_wf (os_uuid (os s))" and eq: "Put_write cid data s = (r, s')"
  shows "(\<exists>d'. r = Returns (Ok ()) \<and> same_chunks (data_root s) (disk s) d' \<and>
            quiet (put_written cid data d' s) s') \<or>
         (\<exists>m d'. r = store_err ChunkStoreError_IoError m \<and> same_chunks (data_root s) (disk s) d' \<and>
            quiet (s\<lparr>disk := d'\<rparr>) s')" (is "?done \<or> ?failed")
proof -
  let ?root = "data_root s" and ?shard = "ShardDirFor s cid" and ?tmp = "tmp_path_for s cid"
    and ?final = "FinalPathFor s cid"
  have tmp: "\<not> is_chunk_path ?root ?tmp"
    unfolding tmp_path_for_def by (rule tmp_not_chunk_path [OF u])
  have nroot: "?tmp \<noteq> ?root" by (simp add: tmp_path_for_def ShardDirFor_def)
  obtain made d1 where c1: "fs_create_directories (os s) ?shard (disk s) = (made, d1)" by fastforce
  have sc1: "same_chunks ?root (disk s) d1"
    using same_chunks_create_directories [of ?shard ?root "disk s" "os s"] c1
    by (simp add: ShardDirFor_def)
  obtain opened d2 where c2: "posix_open_write (os s) ?tmp d1 = (opened, d2)" by fastforce
  have sc2: "same_chunks ?root (disk s) d2"
    using same_chunks_trans [OF sc1 same_chunks_open_write [OF tmp nroot, of d1 "os s"]] c2 by simp
  obtain w d3 where c3: "(if data \<noteq> [] then posix_write (os s) ?tmp data d2 else (0, d2)) = (w, d3)"
    by fastforce
  have sc3: "same_chunks ?root (disk s) d3"
    using c3 same_chunks_trans [OF sc2 same_chunks_write [OF tmp nroot, of d2 "os s" data]] sc2
    by (auto split: if_splits)
  have sc_drop: "same_chunks ?root (disk s) (snd (fs_remove (os s) ?tmp d3))"
    by (rule same_chunks_trans [OF sc3 same_chunks_remove [OF tmp nroot]])
  obtain renamed d4 where c4: "fs_rename (os s) ?tmp ?final d3 = (renamed, d4)" by fastforce
  note unfolded = eq [unfolded Put_write_def tmp_path_for_def [symmetric] Let_def c1 prod.case c2 c3 c4]
  consider (err) "\<not> made \<or> \<not> opened \<or> (data \<noteq> [] \<and> (w < 0 \<or> nat w \<noteq> length data)) \<or>
      \<not> os_fsync_ok (os s) \<or> \<not> renamed"
    | (ok) "made" "opened" "data = [] \<or> \<not> w < 0 \<and> nat w = length data" "os_fsync_ok (os s)" "renamed"
    by blast
  then show ?thesis
  proof cases
    case err
    have "?failed"
      using err unfolded sc1 sc2 sc3 sc_drop rename_fail [of "os s" ?tmp ?final d3 d4] c4
      by (simp add: drop_tmp_def split: if_splits) (blast intro: quiet_intros)+
    then show ?thesis ..
  next
    case ok
    have "map_of d3 ?tmp = Some (File data)"
      using c3 ok(3) write_content [of "os s" ?tmp data d2 w d3] open_write_content [of "os s" ?tmp d1 d2]
        c2 ok(2) by (auto split: if_splits)
    with rename_content [of "os s" ?tmp ?final d3 d4 data] c4 ok(5)
    have d4: "d4 = AList.update ?final (File data) (AList.delete ?tmp d3)" by simp
    have "same_chunks ?root (disk s) (AList.delete ?tmp d3)"
      by (rule same_chunks_trans [OF sc3 same_chunks_delete [OF tmp nroot]])
    moreover have "r = Returns (Ok ()) \<and> quiet (s\<lparr>disk := d4, chunk_count := chunk_count s + 1,
        bytes_used := bytes_used s + of_nat (length data)\<rparr>) s'"
      using ok unfolded by (auto simp: quiet_def split: if_splits)
    ultimately show ?thesis using d4 unfolding put_written_def by blast
  qed
qed

section \<open>Effect of the operations\<close>

lemma LocalDisk_Exists_effect:
  assumes "LocalDisk_Exists held cid s = (r, s')"
  shows "quiet s s'"
    and "r = Returns b \<Longrightarrow> b \<longleftrightarrow> os_stat_ok (os s) \<and> map_of (disk s) (FinalPathFor s cid) \<noteq> None"
proof -
  show "quiet s s'"
    using assms unfolding LocalDisk_Exists_def
    by (cases rule: with_stripe_cases) (auto simp: fs_exists_def quiet_def)
  show "b \<longleftrightarrow> os_stat_ok (os s) \<and> map_of (disk s) (FinalPathFor s cid) \<noteq> None" if "r = Returns b"
    using assms that unfolding LocalDisk_Exists_def
    by (cases rule: with_stripe_cases)
       (auto simp: fs_exists_def quiet_def quiet_FinalPathFor FinalPathFor_def ShardDirFor_def)
qed

text \<open>The four ways a \<open>Put\<close> can end.\<close>

lemma LocalDisk_Put_cases:
  assumes inv: "LocalDisk_inv s" and wf: "ChunkId_wf cid" and eq: "LocalDisk_Put evp cid data s = (r, s')"
  obtains (unchanged) "r \<noteq> Returns (Ok ())" "quiet s s'"
  | (dedup) "r = Returns (Ok ())" "HashBytes evp data = Returns (id_digest cid)"
      "stored s cid \<noteq> None" "quiet s s'"
  | (failed) m d' where "r = store_err ChunkStoreError_IoError m"
      "same_chunks (data_root s) (disk s) d'" "quiet (s\<lparr>disk := d'\<rparr>) s'"
  | (written) d' where "r = Returns (Ok ())" "HashBytes evp data = Returns (id_digest cid)"
      "map_of (disk s) (FinalPathFor s cid) = None"
      "same_chunks (data_root s) (disk s) d'" "quiet (put_written cid data d' s) s'"
proof (cases "HashBytes evp data = Returns (id_digest cid)")
  case False
  then have "r \<noteq> Returns (Ok ()) \<and> quiet s s'"
    using eq by (cases "HashBytes evp data") (auto simp: LocalDisk_Put_def)
  with unchanged show thesis by blast
next
  case hash: True
  from eq hash have "with_stripe [] (LockFor cid) (Put_locked cid data) s = (r, s')"
    by (simp add: LocalDisk_Put_def)
  then show thesis
  proof (cases rule: with_stripe_cases)
    case stuck
    with unchanged show thesis by auto
  next
    case (ran h s1 s2)
    note ran = ran(1) ran(2) [unfolded Put_locked_def] ran(3)
    obtain re se where ex: "LocalDisk_Exists h cid s1 = (re, se)" by fastforce
    have q: "quiet s se"
      using quiet_trans [OF ran(1) LocalDisk_Exists_effect(1) [OF ex]] .
    show thesis
    proof (cases re)
      case (Returns b)
      have b: "b \<longleftrightarrow> map_of (disk s) (FinalPathFor s cid) \<noteq> None"
        using LocalDisk_Exists_effect(2) [OF ex Returns] inv ran(1) quiet_FinalPathFor [OF ran(1)]
        by (simp add: LocalDisk_inv_def quiet_def)
      show thesis
      proof (cases b)
        case True
        then have "stored s cid \<noteq> None"
          using b inv wf by (auto simp: stored_def LocalDisk_inv_def split: node.splits
              simp del: map_of_eq_Some_iff)
        moreover have "r = Returns (Ok ())" "quiet s s'"
          using True Returns ex ran quiet_trans [OF q] quiet_trans [OF _ ran(3)] by auto
        ultimately show thesis using dedup hash by blast
      next
        case False
        have u: "uuid_wf (os_uuid (os se))" using inv q by (simp add: LocalDisk_inv_def quiet_def)
        have pw: "Put_write cid data se = (r, s2)" using False Returns ex ran by simp
        have w: "quiet (put_written cid data d' s) (put_written cid data d' se)"
          and f: "quiet (s\<lparr>disk := d'\<rparr>) (se\<lparr>disk := d'\<rparr>)" for d'
          using q quiet_FinalPathFor [OF q] by (auto simp: quiet_def put_written_def)
        from Put_write_effect [OF u pw] show thesis
        proof (elim disjE exE conjE)
          fix d'
          assume "r = Returns (Ok ())" "same_chunks (data_root se) (disk se) d'"
            "quiet (put_written cid data d' se) s2"
          with q written hash False b show thesis
            using quiet_trans [OF w quiet_trans [OF _ ran(3)]] by (auto simp: quiet_def)
        next
          fix m d'
          assume "r = store_err ChunkStoreError_IoError m" "same_chunks (data_root se) (disk se) d'"
            "quiet (se\<lparr>disk := d'\<rparr>) s2"
          with q failed show thesis
            using quiet_trans [OF f quiet_trans [OF _ ran(3)]] by (auto simp: quiet_def)
        qed
      qed
    next
      case (Throws e)
      with ex ran(2) have "r = Throws e" "s2 = se" by auto
      with unchanged quiet_trans [OF q, of s'] ran(3) show thesis by simp
    next
      case Blocks
      with ex ran(2) have "r = Blocks" "s2 = se" by auto
      with unchanged quiet_trans [OF q, of s'] ran(3) show thesis by simp
    qed
  qed
qed

lemma put_written_laws:
  assumes "LocalDisk_inv s" "ChunkId_wf cid" "map_of (disk s) (FinalPathFor s cid) = None"
    "same_chunks (data_root s) (disk s) d'"
  shows "LocalDisk_inv (put_written cid data d' s)"
    and "ChunkId_wf x \<Longrightarrow> stored (put_written cid data d' s) x = (if x = cid then Some data else stored s x)"
proof -
  let ?final = "FinalPathFor s cid"
  let ?d = "AList.update ?final (File data) d'"
  have cf: "chunk_files (data_root s) ?d = chunk_files (data_root s) (disk s) @ [(?final, data)]"
    using chunk_files_update_new [OF is_chunk_path_final [OF assms(2)], of d' s data]
      same_chunks_stored [OF assms(4,2)] assms(3,4) by (simp add: same_chunks_def)
  have at: "map_of ?d (FinalPathFor s x) =
      (if x = cid then Some (File data) else map_of (disk s) (FinalPathFor s x))" if "ChunkId_wf x" for x
    using that FinalPathFor_inj [OF that assms(2), of s] same_chunks_stored [OF assms(4) that]
    by (auto simp: update_conv')
  have "distinct (map fst ?d)"
    using assms(1,4) by (simp add: LocalDisk_inv_def same_chunks_def distinct_update)
  moreover have "fs_lookup (data_root s) ?d = Some Dir"
    using assms(1,4) length_FinalPathFor [of s cid]
    by (auto simp: LocalDisk_inv_def same_chunks_def fs_lookup_def update_conv')
  ultimately show "LocalDisk_inv (put_written cid data d' s)"
    using assms(1) cf at by (simp add: LocalDisk_inv_def put_written_def del: map_of_eq_Some_iff)
  show "stored (put_written cid data d' s) x = (if x = cid then Some data else stored s x)" if "ChunkId_wf x"
    using at [OF that] by (simp add: stored_def put_written_def del: map_of_eq_Some_iff)
qed

lemma Get_locked_effect:
  assumes "Get_locked evp cid held s = (r, s')"
  shows "quiet s s'"
    and "r = Returns (Ok d) \<Longrightarrow> HashBytes evp d = Returns (id_digest cid) \<and> stored s cid = Some d"
proof -
  show "quiet s s'"
    using assms by (auto simp: Get_locked_def Let_def run_bind_def split: option.splits if_splits run.splits)
  assume r: "r = Returns (Ok d)"
  with assms obtain n where n: "fs_file_size (os s) (FinalPathFor s cid) (disk s) = Some n"
      and got: "(if n > 0 then posix_read (os s) (FinalPathFor s cid) n (disk s) else Some []) = Some d"
      and len: "length d = n" and hash: "HashBytes evp d = Returns (id_digest cid)"
    by (auto simp: Get_locked_def Let_def run_bind_def split: option.splits if_splits run.splits)
  from n obtain b where b: "map_of (disk s) (FinalPathFor s cid) = Some (File b)" "n = length b"
    by (auto simp: fs_file_size_def split: if_splits option.splits node.splits)
  have "d = b"
    using got len b by (auto simp: posix_read_def split: if_splits option.splits)
  with hash b show "HashBytes evp d = Returns (id_digest cid) \<and> stored s cid = Some d"
    by (simp add: stored_def)
qed

lemma LocalDisk_Get_effect:
  assumes "LocalDisk_Get evp cid s = (r, s')"
  shows "quiet s s'"
    and "r = Returns (Ok d) \<Longrightarrow> HashBytes evp d = Returns (id_digest cid) \<and> stored s cid = Some d"
proof -
  show "quiet s s'"
    using assms unfolding LocalDisk_Get_def
  proof (cases rule: with_stripe_cases)
    case (ran h s1 s2)
    then show ?thesis using Get_locked_effect(1) quiet_trans by meson
  qed simp
  show "HashBytes evp d = Returns (id_digest cid) \<and> stored s cid = Some d" if "r = Returns (Ok d)"
    using assms unfolding LocalDisk_Get_def
  proof (cases rule: with_stripe_cases)
    case (ran h s1 s2)
    then show ?thesis using that Get_locked_effect(2) [OF ran(2)] quiet_stored [OF ran(1)] by simp
  qed (use that in auto)
qed

lemma LocalDisk_VerifyOnly_effect:
  assumes "LocalDisk_VerifyOnly evp cid s = (r, s')"
  shows "quiet s s'"
    and "r = Returns (Ok ()) \<Longrightarrow> \<exists>d s1. LocalDisk_Get evp cid s = (Returns (Ok d), s1)"
proof -
  obtain rg sg where g: "LocalDisk_Get evp cid s = (rg, sg)" by fastforce
  then show "quiet s s'"
    using assms LocalDisk_Get_effect(1) [OF g]
    by (auto simp: LocalDisk_VerifyOnly_def run_bind_def split: run.splits Result.splits)
  show "\<exists>d s1. LocalDisk_Get evp cid s = (Returns (Ok d), s1)" if "r = Returns (Ok ())"
    using assms g that by (auto simp: LocalDisk_VerifyOnly_def run_bind_def split: run.splits Result.splits)
qed

definition deleted :: "ChunkId \<Rightarrow> nat \<Rightarrow> LocalDisk \<Rightarrow> LocalDisk" where
  "deleted cid n s =
     s\<lparr>disk := AList.delete (FinalPathFor s cid) (disk s),
       chunk_count := chunk_count s - 1, bytes_used := bytes_used s - of_nat n\<rparr>"

lemma LocalDisk_Delete_cases:
  assumes "LocalDisk_Delete cid s = (r, s')"
  obtains (unchanged) "quiet s s'" "r = Returns (Ok ()) \<Longrightarrow> os_stat_ok (os s) \<Longrightarrow> stored s cid = None"
  | (removed) b where "r = Returns (Ok ())" "map_of (disk s) (FinalPathFor s cid) = Some (File b)"
      "quiet (deleted cid (length b) s) s'"
proof -
  have body: "(quiet s1 s2 \<and> (r = Returns (Ok ()) \<longrightarrow> os_stat_ok (os s1) \<longrightarrow> stored s1 cid = None)) \<or>
      (\<exists>b. r = Returns (Ok ()) \<and> map_of (disk s1) (FinalPathFor s1 cid) = Some (File b) \<and>
         quiet (deleted cid (length b) s1) s2)"
    if "Delete_locked cid h s1 = (r, s2)" for h s1 s2
    using that
    by (auto simp: Delete_locked_def Let_def fs_file_size_def fs_remove_def stored_def deleted_def quiet_def
        split: option.splits if_splits node.splits)
  show thesis
    using assms unfolding LocalDisk_Delete_def
  proof (cases rule: with_stripe_cases)
    case stuck
    then show thesis using unchanged by auto
  next
    case (ran h s1 s2)
    note q = quiet_FinalPathFor [OF ran(1)] quiet_stored [OF ran(1)]
    have d: "quiet (deleted cid n s) (deleted cid n s1)" for n
      using ran(1) q(1) by (simp add: deleted_def quiet_def)
    from body [OF ran(2)] show thesis
    proof (elim disjE exE conjE)
      assume "quiet s1 s2" "r = Returns (Ok ()) \<longrightarrow> os_stat_ok (os s1) \<longrightarrow> stored s1 cid = None"
      then show thesis
        using unchanged q(2) ran(1) quiet_trans [OF ran(1) quiet_trans [OF _ ran(3)]]
        by (simp add: quiet_def)
    next
      fix b
      assume "r = Returns (Ok ())" "map_of (disk s1) (FinalPathFor s1 cid) = Some (File b)"
        "quiet (deleted cid (length b) s1) s2"
      then show thesis
        using removed q(1) ran(1) quiet_trans [OF d quiet_trans [OF _ ran(3)]]
        by (auto simp: quiet_def)
    qed
  qed
qed

lemma deleted_laws:
  assumes "LocalDisk_inv s" "ChunkId_wf cid" "map_of (disk s) (FinalPathFor s cid) = Some (File b)"
  shows "LocalDisk_inv (deleted cid (length b) s)"
    and "ChunkId_wf x \<Longrightarrow> stored (deleted cid (length b) s) x = (if x = cid then None else stored s x)"
proof -
  let ?final = "FinalPathFor s cid" and ?cf = "chunk_files (data_root s) (disk s)"
  have dist: "distinct (map fst (disk s))" using assms(1) by (simp add: LocalDisk_inv_def)
  have "(?final, b) \<in> set ?cf"
    using assms(2,3) is_chunk_path_final [OF assms(2), of s] by (simp add: in_chunk_files map_of_SomeD)
  note counts = filter_other_keys [OF distinct_chunk_files [OF dist] this]
  have cnt: "of_nat (length (filter (\<lambda>e. fst e \<noteq> ?final) ?cf)) = (of_nat (length ?cf) - 1 :: uint64)"
    using arg_cong [OF counts(1), of "of_nat :: nat \<Rightarrow> uint64"] by (simp add: eq_diff_eq add.commute)
  have byt: "of_nat (total_bytes (filter (\<lambda>e. fst e \<noteq> ?final) ?cf)) =
      (of_nat (total_bytes ?cf) - of_nat (length b) :: uint64)"
    using arg_cong [OF counts(2), of "of_nat :: nat \<Rightarrow> uint64"] by (simp add: eq_diff_eq add.commute)
  have at: "map_of (AList.delete ?final (disk s)) (FinalPathFor s x) =
      (if x = cid then None else map_of (disk s) (FinalPathFor s x))" if "ChunkId_wf x" for x
    using FinalPathFor_inj [OF that assms(2), of s] by (auto simp: delete_conv')
  have "fs_lookup (data_root s) (AList.delete ?final (disk s)) = Some Dir"
    using assms(1) length_FinalPathFor [of s cid]
    by (auto simp: LocalDisk_inv_def fs_lookup_def delete_conv')
  then show "LocalDisk_inv (deleted cid (length b) s)"
    using assms(1) cnt byt at dist
    by (simp add: LocalDisk_inv_def deleted_def chunk_files_delete distinct_delete
        del: map_of_eq_Some_iff)
  show "stored (deleted cid (length b) s) x = (if x = cid then None else stored s x)" if "ChunkId_wf x"
    using at [OF that] by (simp add: stored_def deleted_def del: map_of_eq_Some_iff)
qed

section \<open>The store keeps its contract\<close>

lemmas LocalDisk_vtable_simps [simp] = LocalDisk_vtable_def

lemma LocalDisk_ListAllChunkIds_state [simp]: "snd (LocalDisk_ListAllChunkIds s) = s"
  by (simp add: LocalDisk_ListAllChunkIds_def split: option.splits)

lemma LocalDisk_GetStats_state [simp]: "snd (LocalDisk_GetStats s) = s"
  by (simp add: LocalDisk_GetStats_def)

lemma quiet_snd:
  "quiet s (snd (LocalDisk_Get evp cid s))"
  "quiet s (snd (LocalDisk_VerifyOnly evp cid s))"
  "quiet s (snd (LocalDisk_Exists held cid s))"
  by (metis LocalDisk_Get_effect(1) prod.collapse, metis LocalDisk_VerifyOnly_effect(1) prod.collapse,
      metis LocalDisk_Exists_effect(1) prod.collapse)

lemma LocalDisk_Put_laws:
  assumes "LocalDisk_inv s" "ChunkId_wf cid" "LocalDisk_Put evp cid d s = (r, s')"
  shows "LocalDisk_inv s'"
    and "r = Returns (Ok ()) \<Longrightarrow> ChunkId_wf x \<Longrightarrow> HashBytes evp d = Returns (id_digest cid) \<and>
           stored s' x = (if x = cid \<and> stored s cid = None then Some d else stored s x)"
    and "r \<noteq> Returns (Ok ()) \<Longrightarrow> ChunkId_wf x \<Longrightarrow> stored s' x = stored s x"
proof -
  have "LocalDisk_inv s' \<and>
    (r = Returns (Ok ()) \<and> ChunkId_wf x \<longrightarrow> HashBytes evp d = Returns (id_digest cid) \<and>
       stored s' x = (if x = cid \<and> stored s cid = None then Some d else stored s x)) \<and>
    (r \<noteq> Returns (Ok ()) \<and> ChunkId_wf x \<longrightarrow> stored s' x = stored s x)" for x
    using assms
  proof (cases rule: LocalDisk_Put_cases)
    case (failed m d')
    then show ?thesis
      using quiet_inv [OF failed(3)] quiet_stored [OF failed(3)] stored_same_chunks [OF failed(2)]
        LocalDisk_inv_same_chunks [OF assms(1) failed(2)] by simp
  next
    case (written d')
    then have "stored s cid = None" by (simp add: stored_def)
    then show ?thesis
      using written quiet_inv [OF written(5)] quiet_stored [OF written(5)]
        put_written_laws [OF assms(1,2) written(3,4)] by simp
  qed (use assms quiet_inv [of s s'] quiet_stored [of s s'] in auto)
  then show "LocalDisk_inv s'"
    "r = Returns (Ok ()) \<Longrightarrow> ChunkId_wf x \<Longrightarrow> HashBytes evp d = Returns (id_digest cid) \<and>
       stored s' x = (if x = cid \<and> stored s cid = None then Some d else stored s x)"
    "r \<noteq> Returns (Ok ()) \<Longrightarrow> ChunkId_wf x \<Longrightarrow> stored s' x = stored s x"
    by blast+
qed

lemma LocalDisk_Delete_laws:
  assumes "LocalDisk_inv s" "ChunkId_wf cid" "LocalDisk_Delete cid s = (r, s')"
  shows "LocalDisk_inv s'"
    and "r = Returns (Ok ()) \<Longrightarrow> stored s' cid = None"
    and "ChunkId_wf x \<Longrightarrow> stored s' x = stored s x \<or> (x = cid \<and> r = Returns (Ok ()) \<and> stored s' x = None)"
proof -
  have stat: "os_stat_ok (os s)" using assms(1) by (simp add: LocalDisk_inv_def)
  have "LocalDisk_inv s' \<and> (r = Returns (Ok ()) \<longrightarrow> stored s' cid = None) \<and>
    (ChunkId_wf x \<longrightarrow> stored s' x = stored s x \<or> (x = cid \<and> r = Returns (Ok ()) \<and> stored s' x = None))" for x
    using assms(3)
  proof (cases rule: LocalDisk_Delete_cases)
    case unchanged
    then show ?thesis using assms(1) stat quiet_inv [of s s'] quiet_stored [of s s'] by auto
  next
    case (removed b)
    then show ?thesis
      using assms(2) quiet_inv [OF removed(3)] quiet_stored [OF removed(3)]
        deleted_laws [OF assms(1,2) removed(2)] by auto
  qed
  then show "LocalDisk_inv s'" "r = Returns (Ok ()) \<Longrightarrow> stored s' cid = None"
    "ChunkId_wf x \<Longrightarrow> stored s' x = stored s x \<or> (x = cid \<and> r = Returns (Ok ()) \<and> stored s' x = None)"
    by blast+
qed

interpretation local_disk: chunk_store "LocalDisk_vtable evp" "HashBytes evp" stored LocalDisk_inv
  for evp :: "'c EVP"
proof (unfold_locales, goal_cases)
  case (1 cid s d s')
  then show ?case by (auto dest: LocalDisk_Get_effect(2))
next
  case (2 cid s s')
  then show ?case by (auto dest: LocalDisk_VerifyOnly_effect(2))
next
  case (3 s cid d s')
  then show ?case by (auto dest: LocalDisk_Get_effect(2))
next
  case (4 s cid)
  then show ?case using quiet_snd(1) [of s evp cid] by (simp add: quiet_inv quiet_stored)
next
  case (5 s cid)
  then show ?case using quiet_snd(2) [of s evp cid] by (simp add: quiet_inv quiet_stored)
next
  case (6 s cid)
  then show ?case using quiet_snd(3) [of s "[]" cid] by (simp add: quiet_inv quiet_stored)
next
  case (7 s)
  then show ?case by simp
next
  case (8 s)
  then show ?case by simp
next
  case (9 s cid d)
  then show ?case using LocalDisk_Put_laws(1) by (metis IChunkStore.select_convs(1) LocalDisk_vtable_def prod.collapse)
next
  case (10 s cid x d s')
  then show ?case using LocalDisk_Put_laws(2) [of s cid evp d _ s' x] by simp
next
  case (11 s cid x d r s')
  then show ?case using LocalDisk_Put_laws(3) [of s cid evp d r s' x] by simp
next
  case (12 s cid)
  then show ?case using LocalDisk_Delete_laws(1) by (metis IChunkStore.select_convs(4) LocalDisk_vtable_def prod.collapse)
next
  case (13 s cid x r s')
  then show ?case using LocalDisk_Delete_laws(3) [of s cid r s' x] by simp
qed

end
