(* ===== verification/Local_Disk_Properties.thy ===== *)
theory Local_Disk_Properties
  imports Local_Disk
begin

text \<open>
  What the local disk store does: the self-deadlock of \<open>Put\<close>, the behaviour of every operation when
  the mutex lets its owner in again and the operating system cooperates, the error paths, and the
  statistics. The last section holds the concrete states on which the theorems are instantiated.
\<close>

section \<open>When input and output succeed\<close>

definition io_healthy :: "os_answers \<Rightarrow> nat \<Rightarrow> bool" where
  "io_healthy osa n \<longleftrightarrow>
     os_stat_ok osa \<and> os_mkdir_limit osa = None \<and> os_open_write_ok osa \<and>
     (case os_write_limit osa of None \<Rightarrow> False | Some k \<Rightarrow> n \<le> k) \<and>
     os_fsync_ok osa \<and> os_rename_ok osa \<and> os_remove_ok osa \<and> os_open_read_ok osa \<and>
     (case os_read_limit osa of None \<Rightarrow> False | Some k \<Rightarrow> n \<le> k)"

text \<open>Nothing but directories on the way to the shard, and a temporary name not in use.\<close>

definition shard_ready :: "LocalDisk \<Rightarrow> ChunkId \<Rightarrow> bool" where
  "shard_ready s cid \<longleftrightarrow>
     (\<forall>k b. map_of (disk s) (take k (ShardDirFor s cid)) \<noteq> Some (File b)) \<and>
     map_of (disk s) (tmp_path_for s cid) = None"

lemma Put_write_success:
  assumes inv: "LocalDisk_inv s" and wf: "ChunkId_wf cid" and io: "io_healthy (os s) (length data)"
    and sh: "shard_ready s cid" and absent: "map_of (disk s) (FinalPathFor s cid) = None"
  shows "fst (Put_write cid data s) = Returns (Ok ())"
proof -
  let ?shard = "ShardDirFor s cid" and ?tmp = "tmp_path_for s cid" and ?final = "FinalPathFor s cid"
  have ne: "?shard \<noteq> []" by (simp add: ShardDirFor_def)
  obtain d1 where c1: "fs_create_directories (os s) ?shard (disk s) = (True, d1)"
    using io sh mkdirs_succeeds [of "disk s" "[]" ?shard]
    by (auto simp: fs_create_directories_def io_healthy_def shard_ready_def prod_eq_iff)
  then have m: "mkdirs [] ?shard (disk s) = (True, d1)"
    using io by (simp add: fs_create_directories_def io_healthy_def)
  have dir: "fs_lookup ?shard d1 = Some Dir"
    using mkdirs_result_is_dir [OF m] by (simp add: fs_lookup_def)
  have long: "map_of d1 p = map_of (disk s) p" if "length ?shard < length p" for p
  proof -
    obtain ps where ps: "d1 = disk s @ map (\<lambda>p. (p, Dir)) ps" "\<forall>p \<in> set ps. length p \<le> length ?shard"
      using mkdirs_only_adds_dirs [of "[]" ?shard "disk s"] m by auto
    then have "map_of (map (\<lambda>p. (p, Dir)) ps) p = None"
      using that by (auto simp: map_of_eq_None_iff)
    with ps show ?thesis by (simp add: map_add_def split: option.splits)
  qed
  have ltmp: "length ?shard < length ?tmp" and lfin: "length ?shard < length ?final"
    by (simp_all add: tmp_path_for_def FinalPathFor_def)
  have free: "map_of d1 ?tmp = None" "map_of d1 ?final = None"
    using long [OF ltmp] long [OF lfin] sh absent by (simp_all add: shard_ready_def)
  have tne: "?tmp \<noteq> []" "butlast ?tmp = ?shard" "?tmp \<noteq> ?final"
    using tmp_name_not_chunk [of "os_uuid (os s)" "id_hex cid"] chunk_name(1) [OF wf] inv
    by (auto simp: tmp_path_for_def FinalPathFor_def LocalDisk_inv_def)
  define d2 where "d2 = AList.update ?tmp (File []) d1"
  have c2: "posix_open_write (os s) ?tmp d1 = (True, d2)"
    using io dir free tne ne by (simp add: posix_open_write_def io_healthy_def d2_def)
  obtain w d3 where c3: "(if data \<noteq> [] then posix_write (os s) ?tmp data d2 else (0, d2)) = (w, d3)"
    by fastforce
  have w: "data = [] \<or> \<not> w < 0 \<and> nat w = length data"
    using c3 io by (auto simp: posix_write_def io_healthy_def split: option.splits if_splits)
  have at3: "map_of d3 ?tmp = Some (File data)" "map_of d3 ?final = None"
    using c3 io free tne
    by (auto simp: posix_write_def io_healthy_def d2_def update_conv' split: option.splits if_splits)
  obtain d4 where c4: "fs_rename (os s) ?tmp ?final d3 = (True, d4)"
    using at3 io by (simp add: fs_rename_def io_healthy_def)
  show ?thesis
    unfolding Put_write_def tmp_path_for_def [symmetric] Let_def c1 prod.case c2 c3 c4
    using w io by (auto simp: io_healthy_def)
qed

lemma Get_locked_success:
  assumes "map_of (disk s) (FinalPathFor s cid) = Some (File d)" "io_healthy (os s) (length d)"
    "HashBytes evp d = Returns (id_digest cid)"
  shows "fst (Get_locked evp cid h s) = Returns (Ok d)"
  using assms
  by (auto simp: Get_locked_def Let_def fs_file_size_def posix_open_read_def posix_read_def
      io_healthy_def split: option.splits)

lemma LocalDisk_Get_success:
  assumes "LockFor cid \<notin> stripe_locks s" "map_of (disk s) (FinalPathFor s cid) = Some (File d)"
    "io_healthy (os s) (length d)" "HashBytes evp d = Returns (id_digest cid)"
  shows "\<exists>s'. LocalDisk_Get evp cid s = (Returns (Ok d), s')"
proof -
  let ?s1 = "s\<lparr>stripe_locks := insert (LockFor cid) (stripe_locks s)\<rparr>"
  have "fst (Get_locked evp cid [LockFor cid] ?s1) = Returns (Ok d)"
    using assms by (intro Get_locked_success) simp_all
  then obtain s2 where "Get_locked evp cid [LockFor cid] ?s1 = (Returns (Ok d), s2)"
    by (metis prod.collapse)
  from with_stripe_free [where block = "Get_locked evp cid", OF assms(1) this] show ?thesis
    by (auto simp: LocalDisk_Get_def)
qed

text \<open>With a mutex that counts, the inner lock of \<open>Exists\<close> is transparent.\<close>

lemma Put_locked_counts:
  assumes "relock s = Relock_counts" "LockFor cid \<in> set held" "os_stat_ok (os s)"
  shows "Put_locked cid data held s =
     (if map_of (disk s) (FinalPathFor s cid) \<noteq> None
      then (Returns (Ok ()),
            log_with (Logger_Debug (''Chunk already exists, deduplicating: '' @ id_hex cid)) s)
      else Put_write cid data s)"
  using assms by (simp add: Put_locked_def LocalDisk_Exists_def with_stripe_def fs_exists_def)

lemma Put_write_keeps_locks: "stripe_locks (snd (Put_write cid data s)) = stripe_locks s"
  by (simp add: Put_write_def drop_tmp_def Let_def split: prod.splits)

section \<open>The lock that Put takes twice\<close>

lemma LockFor_range: "LockFor cid < 256"
  by (simp add: LockFor_def kLockStripeCount_def unat_mod)

text \<open>
  \<open>Put\<close> holds the stripe of the chunk when it calls \<open>Exists\<close>, which locks that same stripe. Whatever
  an implementation of \<^verbatim>\<open>std::mutex\<close> does on a relock other than counting it decides the call.
\<close>

lemma Put_relocks:
  assumes "HashBytes evp data = Returns (id_digest cid)" "LockFor cid \<notin> stripe_locks s"
  shows "relock s = Relock_blocks \<Longrightarrow> LocalDisk_Put evp cid data s =
           (Blocks, s\<lparr>stripe_locks := insert (LockFor cid) (stripe_locks s)\<rparr>)"
    and "relock s = Relock_throws \<Longrightarrow> LocalDisk_Put evp cid data s = (Throws system_error, s)"
  using assms
  by (simp_all add: LocalDisk_Put_def with_stripe_def Put_locked_def LocalDisk_Exists_def)

lemma locked_stripe_blocks:
  assumes "LockFor cid \<in> stripe_locks s"
  shows "LocalDisk_Get evp cid s = (Blocks, s)" "LocalDisk_VerifyOnly evp cid s = (Blocks, s)"
    "LocalDisk_Delete cid s = (Blocks, s)" "LocalDisk_Exists [] cid s = (Blocks, s)"
    "HashBytes evp data = Returns (id_digest cid) \<Longrightarrow> LocalDisk_Put evp cid data s = (Blocks, s)"
  using assms
  by (simp_all add: LocalDisk_Get_def LocalDisk_VerifyOnly_def LocalDisk_Delete_def
      LocalDisk_Exists_def LocalDisk_Put_def with_stripe_def)

section \<open>Put with a counting mutex\<close>

lemma Put_fresh:
  assumes inv: "LocalDisk_inv s" and wf: "ChunkId_wf cid" and io: "io_healthy (os s) (length data)"
    and sh: "shard_ready s cid" and absent: "map_of (disk s) (FinalPathFor s cid) = None"
    and hash: "HashBytes evp data = Returns (id_digest cid)"
    and rl: "relock s = Relock_counts" and free: "LockFor cid \<notin> stripe_locks s"
  obtains s' where "LocalDisk_Put evp cid data s = (Returns (Ok ()), s')"
    "stripe_locks s' = stripe_locks s" "os s' = os s"
    "map_of (disk s') (FinalPathFor s' cid) = Some (File data)"
    "chunk_count s' = chunk_count s + 1" "bytes_used s' = bytes_used s + of_nat (length data)"
proof -
  let ?s1 = "s\<lparr>stripe_locks := insert (LockFor cid) (stripe_locks s)\<rparr>"
  have "fst (Put_write cid data ?s1) = Returns (Ok ())"
    using assms by (intro Put_write_success)
      (simp_all add: shard_ready_def tmp_path_for_def ShardDirFor_def)
  then obtain s2 where pw: "Put_write cid data ?s1 = (Returns (Ok ()), s2)" by (metis prod.collapse)
  have "Put_locked cid data [LockFor cid] ?s1 = (Returns (Ok ()), s2)"
    using rl io absent pw by (subst Put_locked_counts) (simp_all add: io_healthy_def)
  from with_stripe_free [where block = "Put_locked cid data", OF free this] hash
  have put: "LocalDisk_Put evp cid data s =
      (Returns (Ok ()), s2\<lparr>stripe_locks := stripe_locks s2 - {LockFor cid}\<rparr>)"
    by (simp add: LocalDisk_Put_def)
  have locks: "stripe_locks s2 - {LockFor cid} = stripe_locks s"
    using Put_write_keeps_locks [of cid data ?s1] pw free by simp
  from Put_write_effect [OF _ pw] inv
  obtain d' where "quiet (put_written cid data d' ?s1) s2"
    by (auto simp: LocalDisk_inv_def)
  then show thesis
    using that [OF put] locks by (simp add: quiet_def put_written_def FinalPathFor_def ShardDirFor_def update_conv')
qed

lemma Put_dedup:
  assumes "HashBytes evp data = Returns (id_digest cid)" "map_of (disk s) (FinalPathFor s cid) \<noteq> None"
    "os_stat_ok (os s)" "relock s = Relock_counts" "LockFor cid \<notin> stripe_locks s"
  obtains s' where "LocalDisk_Put evp cid data s = (Returns (Ok ()), s')" "quiet s s'"
    "stripe_locks s' = stripe_locks s"
  using assms
  by (auto simp: LocalDisk_Put_def with_stripe_def Put_locked_counts quiet_def)

section \<open>Reading\<close>

lemma Get_corrupt:
  assumes "map_of (disk s) (FinalPathFor s cid) = Some (File b)" "io_healthy (os s) (length b)"
    "HashBytes evp b = Returns h" "h \<noteq> id_digest cid" "LockFor cid \<notin> stripe_locks s"
  obtains s' where "LocalDisk_Get evp cid s =
      (store_err ChunkStoreError_CorruptionDetected ''Chunk data on disk does not match its ID'', s')"
    "quiet s s'" "stripe_locks s' = stripe_locks s"
proof -
  have "\<exists>s'. LocalDisk_Get evp cid s =
      (store_err ChunkStoreError_CorruptionDetected ''Chunk data on disk does not match its ID'', s') \<and>
      stripe_locks s' = stripe_locks s"
    using assms
    by (auto simp: LocalDisk_Get_def with_stripe_def Get_locked_def Let_def fs_file_size_def
        posix_open_read_def posix_read_def io_healthy_def split: option.splits)
  then show thesis using that LocalDisk_Get_effect(1) by blast
qed

lemma Get_absent:
  assumes "map_of (disk s) (FinalPathFor s cid) = None" "LockFor cid \<notin> stripe_locks s"
  shows "LocalDisk_Get evp cid s =
      (store_err ChunkStoreError_NotFound ''Chunk file not found or inaccessible'', s)"
  using assms by (simp add: LocalDisk_Get_def with_stripe_def Get_locked_def Let_def fs_file_size_def)

section \<open>Deleting\<close>

lemma Delete_absent:
  assumes "map_of (disk s) (FinalPathFor s cid) = None" "LockFor cid \<notin> stripe_locks s"
  shows "LocalDisk_Delete cid s = (Returns (Ok ()), s)"
  using assms by (simp add: LocalDisk_Delete_def with_stripe_def Delete_locked_def Let_def fs_file_size_def)

lemma Delete_present:
  assumes "map_of (disk s) (FinalPathFor s cid) = Some (File b)" "os_stat_ok (os s)" "os_remove_ok (os s)"
    "LockFor cid \<notin> stripe_locks s"
  obtains s' where "LocalDisk_Delete cid s = (Returns (Ok ()), s')" "quiet (deleted cid (length b) s) s'"
    "stripe_locks s' = stripe_locks s"
  using assms
  by (auto simp: LocalDisk_Delete_def with_stripe_def Delete_locked_def fs_file_size_def fs_remove_def
      deleted_def quiet_def)

lemma Exists_free:
  assumes "LockFor cid \<notin> stripe_locks s"
  shows "LocalDisk_Exists [] cid s =
     (Returns (os_stat_ok (os s) \<and> map_of (disk s) (FinalPathFor s cid) \<noteq> None), s)"
  using assms by (auto simp: LocalDisk_Exists_def with_stripe_def fs_exists_def)

section \<open>Listing\<close>

lemma list_loop_eq:
  "list_loop es acc = acc @ concat (map (\<lambda>(p, n).
     if n \<noteq> Dir \<and> extension (last p) = ''.chunk''
     then (case Parse (stem (last p)) of Ok cid \<Rightarrow> [cid] | Err _ \<Rightarrow> []) else []) es)"
  by (induction es acc rule: list_loop.induct) (auto split: Result.splits)

lemma list_loop_chunk_files:
  "list_loop (filter (\<lambda>(p, _). strict_prefix root p) d) [] =
     concat (map (\<lambda>(p, b). case Parse (stem (last p)) of Ok cid \<Rightarrow> [cid] | Err _ \<Rightarrow> [])
       (chunk_files root d))"
  unfolding list_loop_eq
  by (induction root d rule: chunk_files.induct) (auto simp: is_chunk_path_def split: node.splits)

text \<open>
  A store whose chunk files are all its own work: each stands at the path of its address and its
  bytes hash to that address.
\<close>

definition canonical :: "'c EVP \<Rightarrow> LocalDisk \<Rightarrow> bool" where
  "canonical evp s \<longleftrightarrow>
     (\<forall>(p, b) \<in> set (chunk_files (data_root s) (disk s)).
        \<exists>cid. ChunkId_wf cid \<and> p = FinalPathFor s cid \<and> HashBytes evp b = Returns (id_digest cid))"

lemma canonical_frame:
  assumes "quiet s s'" shows "canonical evp s' = canonical evp s"
  using assms quiet_FinalPathFor [OF assms] by (simp add: canonical_def quiet_def)

lemma canonical_os [simp]: "canonical evp (s\<lparr>os := osa\<rparr>) = canonical evp s"
  by (simp add: canonical_def)

lemma canonical_put:
  assumes "LocalDisk_inv s" "ChunkId_wf cid" "LocalDisk_Put evp cid d s = (r, s')" "canonical evp s"
  shows "canonical evp s'"
  using assms(1-3)
proof (cases rule: LocalDisk_Put_cases)
  case (failed m d')
  then show ?thesis
    using canonical_frame [where evp = evp, OF failed(3)] assms(4) by (simp add: canonical_def same_chunks_def)
next
  case (written d')
  have "chunk_files (data_root s) (AList.update (FinalPathFor s cid) (File d) d') =
      chunk_files (data_root s) (disk s) @ [(FinalPathFor s cid, d)]"
    using chunk_files_update_new [OF is_chunk_path_final [OF assms(2)], of d' s d]
      same_chunks_stored [OF written(4) assms(2)] written(3,4) by (simp add: same_chunks_def)
  then have "canonical evp (put_written cid d d' s)"
    using assms(2,4) written(2) by (auto simp: canonical_def put_written_def)
  then show ?thesis using canonical_frame [where evp = evp, OF written(5)] by simp
qed (use assms(4) canonical_frame [of s s' evp] in auto)

lemma canonical_delete:
  assumes "LocalDisk_Delete cid s = (r, s')" "canonical evp s"
  shows "canonical evp s'"
  using assms(1)
proof (cases rule: LocalDisk_Delete_cases)
  case unchanged
  then show ?thesis using assms(2) canonical_frame by blast
next
  case (removed b)
  have "canonical evp (deleted cid (length b) s)"
    using assms(2) by (auto simp: canonical_def deleted_def chunk_files_delete)
  then show ?thesis using canonical_frame [where evp = evp, OF removed(3)] by simp
qed

section \<open>Runs\<close>

text \<open>
  A run of the store: calls of the interface, between which the operating system may change its
  answers (the next random identifier, which calls it will refuse).
\<close>

inductive disk_step :: "'c EVP \<Rightarrow> LocalDisk \<Rightarrow> LocalDisk \<Rightarrow> bool" for evp where
  call: "store_step (LocalDisk_vtable evp) s s' \<Longrightarrow> disk_step evp s s'"
| environment: "uuid_wf (os_uuid osa) \<Longrightarrow> os_stat_ok osa \<Longrightarrow> disk_step evp s (s\<lparr>os := osa\<rparr>)"

inductive_cases disk_stepE: "disk_step evp s s'"

lemma disk_step_inv:
  assumes "disk_step evp s s'" "LocalDisk_inv s"
  shows "LocalDisk_inv s'"
  using assms local_disk.store_step_inv
  by (auto elim!: disk_stepE simp: LocalDisk_inv_def)

lemma disk_step_canonical:
  assumes "disk_step evp s s'" "LocalDisk_inv s" "canonical evp s"
  shows "canonical evp s'"
  using assms
proof (cases rule: disk_step.cases)
  case call
  then show ?thesis
  proof (cases rule: store_step.cases)
    case (put_step cid d r)
    with canonical_put assms show ?thesis by simp
  next
    case (get_step cid r)
    with quiet_snd(1) [of s evp cid] canonical_frame assms(3) show ?thesis by force
  next
    case (verify_step cid r)
    with quiet_snd(2) [of s evp cid] canonical_frame assms(3) show ?thesis by force
  next
    case (delete_step cid r)
    with canonical_delete assms show ?thesis by simp
  next
    case (exists_step cid r)
    with quiet_snd(3) [of s "[]" cid] canonical_frame assms(3) show ?thesis by force
  next
    case (stats_step r)
    then show ?thesis using assms(3) LocalDisk_GetStats_state [of s] by simp
  next
    case (list_step r)
    then show ?thesis using assms(3) LocalDisk_ListAllChunkIds_state [of s] by simp
  qed
qed simp

lemma disk_run_invariants:
  assumes "(disk_step evp)\<^sup>*\<^sup>* s s'" "LocalDisk_inv s"
  shows "LocalDisk_inv s'" and "canonical evp s \<Longrightarrow> canonical evp s'"
  using assms
  by (induction rule: rtranclp_induct) (auto intro: disk_step_inv disk_step_canonical)

section \<open>Listing and construction, exactly\<close>

abbreviation listed_ids :: "(path \<times> byte list) list \<Rightarrow> ChunkId list" where
  "listed_ids cf \<equiv>
     concat (map (\<lambda>(p, b). case Parse (stem (last p)) of Ok cid \<Rightarrow> [cid] | Err _ \<Rightarrow> []) cf)"

lemma listed_ids_paths:
  assumes "\<forall>(p, b) \<in> set cf. \<exists>cid. ChunkId_wf cid \<and> p = FinalPathFor s cid"
  shows "map (FinalPathFor s) (listed_ids cf) = map fst cf \<and> (\<forall>x \<in> set (listed_ids cf). ChunkId_wf x)"
  using assms
proof (induction cf)
  case (Cons e cf)
  obtain p b cid where "e = (p, b)" "ChunkId_wf cid" "p = FinalPathFor s cid"
    using Cons.prems by (cases e) auto
  moreover from this have "Parse (stem (last p)) = Ok cid"
    using chunk_name(2) [of cid] by (simp add: FinalPathFor_def)
  ultimately show ?case using Cons by simp
qed simp

lemma stored_iff_chunk_file:
  assumes "LocalDisk_inv s" "ChunkId_wf cid"
  shows "stored s cid = Some b \<longleftrightarrow> (FinalPathFor s cid, b) \<in> set (chunk_files (data_root s) (disk s))"
proof -
  have dist: "distinct (map fst (disk s))" using assms(1) by (simp add: LocalDisk_inv_def)
  have "stored s cid = Some b \<longleftrightarrow> map_of (disk s) (FinalPathFor s cid) = Some (File b)"
    by (auto simp: stored_def simp del: map_of_eq_Some_iff split: option.splits node.splits)
  also have "\<dots> \<longleftrightarrow> (FinalPathFor s cid, File b) \<in> set (disk s)"
    using dist by (rule map_of_eq_Some_iff)
  finally show ?thesis using is_chunk_path_final [OF assms(2), of s] by (simp add: in_chunk_files)
qed

lemma ListAllChunkIds_canonical:
  assumes inv: "LocalDisk_inv s" and can: "canonical evp s"
    and run: "LocalDisk_ListAllChunkIds s = (Returns ids, s')"
  shows "set ids = {cid. ChunkId_wf cid \<and> stored s cid \<noteq> None}" and "distinct ids"
    and "chunk_count s = of_nat (length ids)"
proof -
  let ?cf = "chunk_files (data_root s) (disk s)"
  have ids: "ids = listed_ids ?cf"
    using run inv
    by (auto simp: LocalDisk_ListAllChunkIds_def fs_exists_def fs_iterate_def list_loop_chunk_files
        LocalDisk_inv_def split: if_splits)
  have paths: "map (FinalPathFor s) ids = map fst ?cf" and wf: "\<forall>x \<in> set ids. ChunkId_wf x"
    using listed_ids_paths [of ?cf s] can unfolding ids canonical_def by fastforce+
  have "distinct (map fst ?cf)" using inv by (simp add: LocalDisk_inv_def distinct_chunk_files)
  then show "distinct ids" unfolding paths [symmetric] by (simp add: distinct_map)
  show "chunk_count s = of_nat (length ids)"
    using inv arg_cong [OF paths, of length] by (simp add: LocalDisk_inv_def)
  have "cid \<in> set ids \<longleftrightarrow> FinalPathFor s cid \<in> fst ` set ?cf" if "ChunkId_wf cid" for cid
  proof -
    have "fst ` set ?cf = FinalPathFor s ` set ids" using arg_cong [OF paths, of set] by simp
    then show ?thesis using wf FinalPathFor_inj [OF that, of _ s] by (auto simp: image_iff)
  qed
  moreover have "FinalPathFor s cid \<in> fst ` set ?cf \<longleftrightarrow> stored s cid \<noteq> None" if "ChunkId_wf cid" for cid
    using stored_iff_chunk_file [OF inv that] by (force simp: image_iff)
  ultimately show "set ids = {cid. ChunkId_wf cid \<and> stored s cid \<noteq> None}"
    using wf by blast
qed

text \<open>A file system in which every entry stands in a directory.\<close>

definition fs_wf :: "fs \<Rightarrow> bool" where
  "fs_wf d \<longleftrightarrow> distinct (map fst d) \<and>
     (\<forall>(p, n) \<in> set d. p \<noteq> [] \<and> fs_lookup (butlast p) d = Some Dir)"

lemma fs_wf_prefix:
  assumes "fs_wf d" "p \<in> fst ` set d" "strict_prefix q p"
  shows "fs_lookup q d = Some Dir"
  using assms(2,3)
proof (induction p rule: rev_induct)
  case (snoc c p)
  have dir: "fs_lookup p d = Some Dir"
    using assms(1) snoc.prems(1) by (force simp: fs_wf_def)
  show ?case
  proof (cases "q = p")
    case False
    then have q: "strict_prefix q p" using snoc.prems(2) by (auto simp: strict_prefix_def)
    then have "p \<noteq> []" by auto
    with dir have "p \<in> fst ` set d" by (force dest: map_of_SomeD)
    with snoc.IH q show ?thesis by blast
  qed (use dir in simp)
qed simp

lemma LocalDisk_new_establishes:
  assumes new: "LocalDisk_new rl osa d root lg = Returns s" and wf: "fs_wf d"
    and dirs: "\<forall>p. is_chunk_path root p \<longrightarrow> map_of d p \<noteq> Some Dir"
    and os: "uuid_wf (os_uuid osa)" "os_stat_ok osa"
  shows "LocalDisk_inv s" and "same_chunks root d (disk s)" and "data_root s = root"
    and "stripe_locks s = {}" and "relock s = rl"
proof -
  note defs = LocalDisk_new_def Let_def fs_exists_def
  show root: "data_root s = root" and "stripe_locks s = {}" and "relock s = rl"
    using new by (auto simp: defs split: if_splits option.splits prod.splits)
  have osd: "os s = osa" using new by (auto simp: defs split: if_splits option.splits prod.splits)
  show same: "same_chunks root d (disk s)"
    using new os(2) same_chunks_create_directories [of root root d osa]
    by (auto simp: defs split: if_splits option.splits prod.splits)
  have none: "chunk_files root d = []" if "fs_lookup root d = None"
  proof (rule ccontr)
    assume "chunk_files root d \<noteq> []"
    then obtain p b where "(p, b) \<in> set (chunk_files root d)" by (cases "chunk_files root d") auto
    then have "fs_lookup root d = Some Dir"
      using fs_wf_prefix [OF wf, of p root] by (force simp: in_chunk_files is_chunk_path_def)
    with that show False by simp
  qed
  have counts: "chunk_count s = of_nat (length (chunk_files root d))"
      "bytes_used s = of_nat (total_bytes (chunk_files root d))"
    using new os(2) none
    by (auto simp: defs fs_iterate_def count_loop_eq split: if_splits option.splits prod.splits)
  have "fs_lookup root (disk s) = Some Dir"
    using new os(2) mkdirs_result_is_dir [of "[]" root d "disk s"]
    by (auto simp: defs fs_create_directories_def fs_iterate_def fs_lookup_def [of "[]"]
        split: if_splits option.splits prod.splits)
  moreover have "map_of (disk s) (FinalPathFor s cid) \<noteq> Some Dir" if "ChunkId_wf cid" for cid
    using same dirs is_chunk_path_final [OF that, of s] length_FinalPathFor [of s cid] root
    by (auto simp: same_chunks_def simp del: map_of_eq_Some_iff)
  ultimately show "LocalDisk_inv s"
    using same counts os osd root wf
    by (simp add: LocalDisk_inv_def same_chunks_def fs_wf_def del: map_of_eq_Some_iff)
qed

lemma chunk_files_none:
  assumes "\<forall>p. is_chunk_path root p \<longrightarrow> map_of d p = None"
  shows "chunk_files root d = []"
proof (rule ccontr)
  assume "chunk_files root d \<noteq> []"
  then obtain p b where "(p, b) \<in> set (chunk_files root d)" by (cases "chunk_files root d") auto
  then have "(p, File b) \<in> set d" "is_chunk_path root p" by (simp_all add: in_chunk_files)
  with assms show False by (metis fst_conv image_eqI map_of_eq_None_iff)
qed

lemma fresh_run_invariants:
  assumes "LocalDisk_new rl osa d root lg = Returns s0" "fs_wf d"
    "\<forall>p. is_chunk_path root p \<longrightarrow> map_of d p = None" "uuid_wf (os_uuid osa)" "os_stat_ok osa"
    "(disk_step evp)\<^sup>*\<^sup>* s0 s"
  shows "LocalDisk_inv s" and "canonical evp s"
proof -
  have nodir: "\<forall>p. is_chunk_path root p \<longrightarrow> map_of d p \<noteq> Some Dir" using assms(3) by simp
  note new = LocalDisk_new_establishes [OF assms(1,2) nodir assms(4,5)]
  have "canonical evp s0"
    using chunk_files_none [OF assms(3)] new(2,3) by (simp add: canonical_def same_chunks_def)
  with disk_run_invariants [OF assms(6) new(1)] show "LocalDisk_inv s" "canonical evp s" by blast+
qed

text \<open>No operation moves the store.\<close>

lemma Put_root: "LocalDisk_inv s \<Longrightarrow> ChunkId_wf cid \<Longrightarrow> data_root (snd (LocalDisk_Put evp cid d s)) = data_root s"
proof -
  assume "LocalDisk_inv s" "ChunkId_wf cid"
  moreover obtain r s' where eq: "LocalDisk_Put evp cid d s = (r, s')" by fastforce
  ultimately have "data_root s' = data_root s"
    by (cases rule: LocalDisk_Put_cases) (auto simp: quiet_def put_written_def)
  with eq show ?thesis by simp
qed

lemma Delete_root: "data_root (snd (LocalDisk_Delete cid s)) = data_root s"
proof -
  obtain r s' where eq: "LocalDisk_Delete cid s = (r, s')" by fastforce
  then have "data_root s' = data_root s" by (cases rule: LocalDisk_Delete_cases) (auto simp: quiet_def deleted_def)
  with eq show ?thesis by simp
qed

lemma quiet_root: "quiet s s' \<Longrightarrow> data_root s' = data_root s"
  by (simp add: quiet_def)

end
