(* ===== verification/Local_Disk_Theorems.thy ===== *)
theory Local_Disk_Theorems
  imports Local_Disk_Properties
begin

text \<open>
  The main theorems on the local disk store, and the concrete states they are instantiated on: the
  digest of \<open>Sha256\<close> that pads its input, an operating system that grants everything, and a store
  whose root directory is empty or holds one chunk file.
\<close>

section \<open>Concrete states\<close>

definition demo_os :: os_answers where
  "demo_os = \<lparr>os_stat_ok = True, os_ec_message = [], os_mkdir_limit = None,
     os_uuid = ''0f8fad5b-d9cb-469f-a165-70867728950e'', os_open_write_ok = True,
     os_write_limit = Some 1000, os_fsync_ok = True, os_rename_ok = True, os_remove_ok = True,
     os_open_dir_ok = True, os_fsync_dir_ok = True, os_open_read_ok = True,
     os_read_limit = Some 1000, os_space = Some 4096, os_iterate_ok = True\<rparr>"

definition demo_logger :: Logger where
  "demo_logger = \<lparr>op_logger = None, audit_logger = None, component_name = ''storage_node'',
     t_correlation_id = []\<rparr>"

definition demo_empty :: "relock_behaviour \<Rightarrow> LocalDisk" where
  "demo_empty rl = \<lparr>data_root = [''data''], logger = demo_logger, stripe_locks = {},
     chunk_count = 0, bytes_used = 0, disk = [([''data''], Dir)], os = demo_os, relock = rl\<rparr>"

definition demo_data :: "byte list" where
  "demo_data = [1, 2, 3]"

definition demo_id :: ChunkId where
  "demo_id = FromDigest (demo_H demo_data)"

definition demo_full :: "relock_behaviour \<Rightarrow> byte list \<Rightarrow> LocalDisk" where
  "demo_full rl b = (demo_empty rl)\<lparr>chunk_count := 1, bytes_used := of_nat (length b),
     disk := [([''data''], Dir), (FinalPathFor (demo_empty rl) demo_id, File b)]\<rparr>"

lemma demo_hash [simp]: "HashBytes demo_evp d = Returns (demo_H d)"
  using HashBytes_eq [OF demo_evp_computes] .

lemma demo_id_wf [simp]: "ChunkId_wf demo_id"
  by (simp add: demo_id_def demo_H_def)

lemma demo_id_digest [simp]: "id_digest demo_id = demo_H demo_data"
  by (simp add: demo_id_def FromDigest_def)

lemma demo_other_hash [simp]: "demo_H [9] \<noteq> demo_H demo_data"
  by (simp add: demo_H_def demo_data_def)

lemma demo_os_uuid [simp]: "uuid_wf (os_uuid demo_os)"
  by (simp add: demo_os_def uuid_wf_def cctype_defs)

lemma demo_io [simp]: "n \<le> 1000 \<Longrightarrow> io_healthy demo_os n"
  by (simp add: io_healthy_def demo_os_def)

lemma demo_stat [simp]: "os_stat_ok demo_os" "os_remove_ok demo_os"
  by (simp_all add: demo_os_def)

lemma demo_empty_simps [simp]:
  "stripe_locks (demo_empty rl) = {}" "os (demo_empty rl) = demo_os" "relock (demo_empty rl) = rl"
  "chunk_count (demo_empty rl) = 0" "bytes_used (demo_empty rl) = 0"
  "data_root (demo_empty rl) = [''data'']" "disk (demo_empty rl) = [([''data''], Dir)]"
  by (simp_all add: demo_empty_def)

lemma demo_full_simps [simp]:
  "stripe_locks (demo_full rl b) = {}" "os (demo_full rl b) = demo_os" "relock (demo_full rl b) = rl"
  "FinalPathFor (demo_full rl b) cid = FinalPathFor (demo_empty rl) cid"
  "data_root (demo_full rl b) = [''data'']"
  by (simp_all add: demo_full_def)

lemma demo_path [simp]: "FinalPathFor (demo_empty rl) cid \<noteq> [''data'']"
  "[''data''] \<noteq> FinalPathFor (demo_empty rl) cid"
  by (auto simp: FinalPathFor_def ShardDirFor_def)

lemma demo_full_at [simp]:
  "map_of (disk (demo_full rl b)) (FinalPathFor (demo_empty rl) demo_id) = Some (File b)"
  "stored (demo_full rl b) demo_id = Some b"
  by (simp_all add: demo_full_def stored_def)

lemma demo_empty_inv [simp]: "LocalDisk_inv (demo_empty rl)"
  by (simp add: LocalDisk_inv_def is_chunk_path_def)

lemma demo_full_inv [simp]: "LocalDisk_inv (demo_full rl b)"
proof -
  have "is_chunk_path [''data''] (FinalPathFor (demo_empty rl) demo_id)"
    using is_chunk_path_final [OF demo_id_wf, of "demo_empty rl"] by simp
  then show ?thesis by (auto simp: LocalDisk_inv_def demo_full_def)
qed

lemma demo_shard_ready [simp]: "shard_ready (demo_empty rl) cid"
  by (auto simp: shard_ready_def tmp_path_for_def ShardDirFor_def)

lemma demo_new: "LocalDisk_new rl demo_os [] [''data''] demo_logger = Returns (demo_empty rl)"
  by (simp add: LocalDisk_new_def fs_exists_def fs_create_directories_def demo_os_def demo_empty_def)

lemma demo_put:
  obtains s' where "LocalDisk_Put demo_evp demo_id demo_data (demo_empty Relock_counts) = (Returns (Ok ()), s')"
    "stripe_locks s' = {}" "os s' = demo_os" "map_of (disk s') (FinalPathFor s' demo_id) = Some (File demo_data)"
  by (rule Put_fresh [of "demo_empty Relock_counts" demo_id demo_data demo_evp])
     (simp_all add: demo_data_def)

lemma demo_run:
  obtains s where "(disk_step demo_evp)\<^sup>*\<^sup>* (demo_empty Relock_counts) s"
    "stripe_locks s = {}" "os s = demo_os" "stored s demo_id = Some demo_data"
proof -
  obtain s where s: "LocalDisk_Put demo_evp demo_id demo_data (demo_empty Relock_counts) = (Returns (Ok ()), s)"
      "stripe_locks s = {}" "os s = demo_os" "map_of (disk s) (FinalPathFor s demo_id) = Some (File demo_data)"
    by (rule demo_put)
  then have "store_step (LocalDisk_vtable demo_evp) (demo_empty Relock_counts) s"
    by (intro put_step [of demo_id _ demo_data _ "Returns (Ok ())"]) simp_all
  then have "(disk_step demo_evp)\<^sup>*\<^sup>* (demo_empty Relock_counts) s"
    by (intro r_into_rtranclp call)
  then show thesis using that s by (simp add: stored_def)
qed

section \<open>Integrity of what is read\<close>

text \<open>
  Whatever the disk holds and whatever the operating system answers, bytes that \<open>Get\<close> returns are
  the bytes of the chunk file and hash to the requested address.
\<close>

theorem Get_returns_addressed_bytes:
  assumes "evp_computes evp absorbed H" "LocalDisk_Get evp cid s = (Returns (Ok d), s')"
  shows "H d = id_digest cid \<and> stored s cid = Some d \<and> disk s' = disk s"
  using LocalDisk_Get_effect [OF assms(2)] HashBytes_eq [OF assms(1), of d] by (simp add: quiet_def)

theorem Get_returns_addressed_bytes_witness:
  "\<exists>s'. LocalDisk_Get demo_evp demo_id (demo_full Relock_blocks demo_data) = (Returns (Ok demo_data), s') \<and>
     demo_H demo_data = id_digest demo_id"
proof -
  obtain s' where g: "LocalDisk_Get demo_evp demo_id (demo_full Relock_blocks demo_data) = (Returns (Ok demo_data), s')"
    using LocalDisk_Get_success [of demo_id "demo_full Relock_blocks demo_data" demo_data demo_evp]
    by (auto simp: demo_data_def)
  then show ?thesis using Get_returns_addressed_bytes [OF demo_evp_computes g] by blast
qed

text \<open>
  C28: When the file of a chunk holds bytes that do not hash to its address and reading works, both
  \<open>Get\<close> and \<open>VerifyOnly\<close> report \<^verbatim>\<open>CorruptionDetected\<close>, never the bytes.
\<close>

theorem corruption_is_detected:
  assumes "stored s cid = Some b" "io_healthy (os s) (length b)" "LockFor cid \<notin> stripe_locks s"
    "evp_computes evp absorbed H" "H b \<noteq> id_digest cid"
  shows "\<exists>s'. LocalDisk_Get evp cid s =
           (store_err ChunkStoreError_CorruptionDetected ''Chunk data on disk does not match its ID'', s') \<and>
         LocalDisk_VerifyOnly evp cid s =
           (store_err ChunkStoreError_CorruptionDetected ''Chunk data on disk does not match its ID'', s') \<and>
         quiet s s'"
proof -
  have at: "map_of (disk s) (FinalPathFor s cid) = Some (File b)"
    using assms(1) by (auto simp: stored_def split: option.splits node.splits)
  obtain s' where g: "LocalDisk_Get evp cid s =
      (store_err ChunkStoreError_CorruptionDetected ''Chunk data on disk does not match its ID'', s')"
      and "quiet s s'"
    using Get_corrupt [OF at assms(2) HashBytes_eq [OF assms(4)] assms(5,3)] by blast
  then show ?thesis by (auto simp: LocalDisk_VerifyOnly_def)
qed

theorem corruption_is_detected_witness:
  "\<exists>s'. LocalDisk_VerifyOnly demo_evp demo_id (demo_full Relock_blocks [9]) =
     (store_err ChunkStoreError_CorruptionDetected ''Chunk data on disk does not match its ID'', s')"
  using corruption_is_detected [OF _ _ _ demo_evp_computes,
      of "demo_full Relock_blocks [9]" demo_id "[9]"] by auto

section \<open>The stripe lock\<close>

text \<open>
  With a mutex that makes its owner wait, a \<open>Put\<close> of matching data waits for itself: it holds
  the stripe of the chunk and calls \<open>Exists\<close>, which locks the stripe again. Nothing has been written, the
  stripe is never released, and every later call on a chunk of the same stripe waits as well.
\<close>

theorem Put_deadlocks:
  assumes "relock s = Relock_blocks" "HashBytes evp d = Returns (id_digest cid)"
    "LockFor cid \<notin> stripe_locks s"
  shows "\<exists>s'. LocalDisk_Put evp cid d s = (Blocks, s') \<and> quiet s s' \<and>
    (\<forall>x. LockFor x = LockFor cid \<longrightarrow>
       LocalDisk_Get evp x s' = (Blocks, s') \<and> LocalDisk_Delete x s' = (Blocks, s') \<and>
       LocalDisk_Exists [] x s' = (Blocks, s') \<and> LocalDisk_VerifyOnly evp x s' = (Blocks, s'))"
  using Put_relocks(1) [OF assms(2,3,1)] by (auto simp: locked_stripe_blocks)

theorem Put_deadlocks_witness:
  "\<exists>s'. LocalDisk_Put demo_evp demo_id demo_data (demo_empty Relock_blocks) = (Blocks, s') \<and>
     LocalDisk_Get demo_evp demo_id s' = (Blocks, s')"
  using Put_deadlocks [of "demo_empty Relock_blocks" demo_evp demo_data demo_id] by auto

text \<open>
  \<open>Put\<close> can only report success when the mutex admits its own holder again, which
  \<^verbatim>\<open>std::mutex\<close> does not promise.
\<close>

theorem Put_success_needs_counting_mutex:
  assumes "LocalDisk_Put evp cid d s = (Returns (Ok ()), s')"
  shows "relock s = Relock_counts"
proof (rule ccontr)
  assume other: "relock s \<noteq> Relock_counts"
  have hash: "HashBytes evp d = Returns (id_digest cid)"
    using assms by (cases "HashBytes evp d") (auto simp: LocalDisk_Put_def split: if_splits)
  show False
  proof (cases "LockFor cid \<in> stripe_locks s")
    case True
    with locked_stripe_blocks(5) hash assms show False by force
  next
    case False
    with Put_relocks [OF hash] other assms show False by (cases "relock s") auto
  qed
qed

theorem Put_success_needs_counting_mutex_witness:
  "\<exists>s'. LocalDisk_Put demo_evp demo_id demo_data (demo_empty Relock_counts) = (Returns (Ok ()), s') \<and>
     relock (demo_empty Relock_counts) = Relock_counts"
proof -
  obtain s' where p: "LocalDisk_Put demo_evp demo_id demo_data (demo_empty Relock_counts) = (Returns (Ok ()), s')"
    by (rule demo_put)
  from p Put_success_needs_counting_mutex [OF p] show ?thesis by blast
qed

text \<open>
  The stripe of a chunk is selected by one byte of its digest (the eighth), so it is one of the
  256 stripes, and equal addresses share a stripe.
\<close>

theorem LockFor_is_digest_byte:
  assumes "ChunkId_wf cid"
  shows "LockFor cid = unat (id_digest cid ! 7) \<and> LockFor cid < 256"
  using assms ChunkId_Hash_mod_256 [of cid] unat_byte [of "id_digest cid ! 7"]
  by (simp add: LockFor_def kLockStripeCount_def ChunkId_wf_def)

theorem LockFor_is_digest_byte_witness: "LockFor demo_id = 0"
  using LockFor_is_digest_byte [OF demo_id_wf] by (simp add: demo_H_def demo_data_def)

section \<open>Writing and reading back\<close>

text \<open>
  With a mutex that counts, on a store where the chunk is absent and input and output work, \<open>Put\<close>
  of data matching its address succeeds, adds one chunk of that many bytes to the statistics, and
  \<open>Get\<close> then returns exactly the bytes that were put.
\<close>

theorem Put_then_Get:
  assumes "LocalDisk_inv s" "ChunkId_wf cid" "evp_computes evp absorbed H" "H d = id_digest cid"
    "stored s cid = None" "relock s = Relock_counts" "LockFor cid \<notin> stripe_locks s"
    "io_healthy (os s) (length d)" "shard_ready s cid"
  shows "\<exists>s1 s2. LocalDisk_Put evp cid d s = (Returns (Ok ()), s1) \<and>
           LocalDisk_Get evp cid s1 = (Returns (Ok d), s2) \<and>
           chunk_count s1 = chunk_count s + 1 \<and> bytes_used s1 = bytes_used s + of_nat (length d)"
proof -
  have hash: "HashBytes evp d = Returns (id_digest cid)"
    using HashBytes_eq [OF assms(3)] assms(4) by simp
  have absent: "map_of (disk s) (FinalPathFor s cid) = None"
    using assms(1,2,5) by (auto simp: stored_def LocalDisk_inv_def simp del: map_of_eq_Some_iff
        split: option.splits node.splits)
  obtain s1 where s1: "LocalDisk_Put evp cid d s = (Returns (Ok ()), s1)"
      "stripe_locks s1 = stripe_locks s" "os s1 = os s"
      "map_of (disk s1) (FinalPathFor s1 cid) = Some (File d)"
      "chunk_count s1 = chunk_count s + 1" "bytes_used s1 = bytes_used s + of_nat (length d)"
    by (rule Put_fresh [OF assms(1,2,8,9) absent hash assms(6,7)])
  then show ?thesis
    using LocalDisk_Get_success [of cid s1 d evp] assms(7,8) hash by auto
qed

theorem Put_then_Get_witness:
  "\<exists>s1 s2. LocalDisk_Put demo_evp demo_id demo_data (demo_empty Relock_counts) = (Returns (Ok ()), s1) \<and>
     LocalDisk_Get demo_evp demo_id s1 = (Returns (Ok demo_data), s2) \<and> chunk_count s1 = 1"
  using Put_then_Get [OF _ _ demo_evp_computes,
      of "demo_empty Relock_counts" demo_id demo_data]
  by (auto simp: stored_def demo_data_def)



text \<open>
  C27: A \<open>Put\<close> that reports anything but success leaves every stored chunk as it was and the
  statistics unchanged, whichever system call failed; the invariant still holds.
\<close>

theorem failed_Put_changes_nothing:
  assumes "LocalDisk_inv s" "ChunkId_wf cid" "LocalDisk_Put evp cid d s = (r, s')" "r \<noteq> Returns (Ok ())"
    "ChunkId_wf x"
  shows "stored s' x = stored s x \<and> chunk_count s' = chunk_count s \<and> bytes_used s' = bytes_used s \<and>
    LocalDisk_inv s'"
proof -
  have "chunk_count s' = chunk_count s \<and> bytes_used s' = bytes_used s"
    using assms(1-3)
    by (cases rule: LocalDisk_Put_cases) (use assms(4) in \<open>auto simp: quiet_def\<close>)
  then show ?thesis
    using LocalDisk_Put_laws(1,3) [OF assms(1-3)] assms(4,5) by blast
qed

theorem failed_Put_changes_nothing_witness:
  "fst (LocalDisk_Put demo_evp demo_id [9] (demo_full Relock_counts demo_data)) \<noteq> Returns (Ok ()) \<and>
   stored (snd (LocalDisk_Put demo_evp demo_id [9] (demo_full Relock_counts demo_data))) demo_id = Some demo_data"
proof -
  let ?p = "LocalDisk_Put demo_evp demo_id [9] (demo_full Relock_counts demo_data)"
  have ne: "fst ?p \<noteq> Returns (Ok ())" by (simp add: LocalDisk_Put_def)
  with failed_Put_changes_nothing [OF _ _ prod.collapse [symmetric] ne, of demo_id] show ?thesis by auto
qed

section \<open>Deletion and absence\<close>

text \<open>
  C29: A deletion that the operating system permits removes the chunk and exactly its share of the
  statistics; \<open>Exists\<close> then answers false, \<open>Get\<close> answers not found, and deleting again succeeds
  without any effect.
\<close>

theorem Delete_removes_and_is_idempotent:
  assumes "stored s cid = Some b" "os_stat_ok (os s)" "os_remove_ok (os s)" "LockFor cid \<notin> stripe_locks s"
  shows "\<exists>s'. LocalDisk_Delete cid s = (Returns (Ok ()), s') \<and>
     chunk_count s' = chunk_count s - 1 \<and> bytes_used s' = bytes_used s - of_nat (length b) \<and>
     LocalDisk_Exists [] cid s' = (Returns False, s') \<and>
     LocalDisk_Get evp cid s' =
       (store_err ChunkStoreError_NotFound ''Chunk file not found or inaccessible'', s') \<and>
     LocalDisk_Delete cid s' = (Returns (Ok ()), s')"
proof -
  have at: "map_of (disk s) (FinalPathFor s cid) = Some (File b)"
    using assms(1) by (auto simp: stored_def split: option.splits node.splits)
  obtain s' where s': "LocalDisk_Delete cid s = (Returns (Ok ()), s')" "quiet (deleted cid (length b) s) s'"
      "stripe_locks s' = stripe_locks s"
    by (rule Delete_present [OF at assms(2-4)])
  have "map_of (disk s') (FinalPathFor s' cid) = None"
    using s'(2) quiet_FinalPathFor [OF s'(2)] by (simp add: quiet_def deleted_def delete_conv')
  then show ?thesis
    using s' assms(4) Exists_free [of cid s'] Get_absent [of s' cid evp] Delete_absent [of s' cid]
    by (auto simp: quiet_def deleted_def)
qed

theorem Delete_removes_and_is_idempotent_witness:
  "\<exists>s'. LocalDisk_Delete demo_id (demo_full Relock_blocks demo_data) = (Returns (Ok ()), s') \<and>
     LocalDisk_Exists [] demo_id s' = (Returns False, s') \<and> LocalDisk_Delete demo_id s' = (Returns (Ok ()), s')"
  using Delete_removes_and_is_idempotent [of "demo_full Relock_blocks demo_data" demo_id demo_data demo_evp]
  by auto

text \<open>
  When \<^verbatim>\<open>stat\<close> itself fails, a stored chunk is reported as absent: \<open>Exists\<close> answers false, \<open>Get\<close>
  answers not found, and \<open>Delete\<close> reports success although the chunk is still on disk.
\<close>

theorem stat_error_looks_like_absence:
  assumes "\<not> os_stat_ok (os s)" "LockFor cid \<notin> stripe_locks s"
  shows "LocalDisk_Exists [] cid s = (Returns False, s) \<and>
     LocalDisk_Get evp cid s =
       (store_err ChunkStoreError_NotFound ''Chunk file not found or inaccessible'', s) \<and>
     LocalDisk_Delete cid s = (Returns (Ok ()), s)"
  using assms
  by (simp add: Exists_free LocalDisk_Get_def LocalDisk_Delete_def with_stripe_def Get_locked_def
      Delete_locked_def Let_def fs_file_size_def)

theorem stat_error_looks_like_absence_witness:
  "let s = (demo_full Relock_blocks demo_data)\<lparr>os := demo_os\<lparr>os_stat_ok := False\<rparr>\<rparr> in
     stored s demo_id = Some demo_data \<and> LocalDisk_Delete demo_id s = (Returns (Ok ()), s)"
  using stat_error_looks_like_absence
    [of "(demo_full Relock_blocks demo_data)\<lparr>os := demo_os\<lparr>os_stat_ok := False\<rparr>\<rparr>" demo_id demo_evp]
  by (simp add: Let_def)

section \<open>Runs of the store\<close>

text \<open>
  A store opened on any file system reports exact statistics after every sequence of calls,
  failed ones included: as many chunks as there are chunk files below its root, and the sum of
  their lengths (both modulo \<open>2 ^ 64\<close>).
\<close>

theorem GetStats_is_exact:
  assumes "LocalDisk_new rl osa d root lg = Returns s0" "fs_wf d"
    "\<forall>p. is_chunk_path root p \<longrightarrow> map_of d p \<noteq> Some Dir" "uuid_wf (os_uuid osa)" "os_stat_ok osa"
    "(disk_step evp)\<^sup>*\<^sup>* s0 s"
  shows "fst (LocalDisk_GetStats s) = Returns
     \<lparr>stats_chunk_count = of_nat (length (chunk_files (data_root s) (disk s))),
      stats_bytes_used = of_nat (total_bytes (chunk_files (data_root s) (disk s))),
      stats_bytes_free = (case os_space (os s) of None \<Rightarrow> 0 | Some a \<Rightarrow> a)\<rparr>"
  using disk_run_invariants(1) [OF assms(6) LocalDisk_new_establishes(1) [OF assms(1-5)]]
  by (simp add: LocalDisk_GetStats_def LocalDisk_inv_def)

theorem GetStats_is_exact_witness:
  "\<exists>s. (disk_step demo_evp)\<^sup>*\<^sup>* (demo_empty Relock_counts) s \<and> stored s demo_id = Some demo_data \<and>
     fst (LocalDisk_GetStats s) = Returns
       \<lparr>stats_chunk_count = of_nat (length (chunk_files (data_root s) (disk s))),
        stats_bytes_used = of_nat (total_bytes (chunk_files (data_root s) (disk s))),
        stats_bytes_free = 4096\<rparr>"
proof -
  obtain s where s: "(disk_step demo_evp)\<^sup>*\<^sup>* (demo_empty Relock_counts) s" "os s = demo_os"
      "stored s demo_id = Some demo_data"
    by (rule demo_run)
  have "os_space (os s) = Some 4096" using s(2) by (simp add: demo_os_def)
  with s GetStats_is_exact [OF demo_new [of Relock_counts] _ _ demo_os_uuid demo_stat(1) s(1)] show ?thesis
    by (auto simp: fs_wf_def)
qed

text \<open>
  In a store opened on a root without chunk files, every chunk that is stored after any
  sequence of calls verifies: reading it, when reading works, returns its bytes and never reports a
  corruption.
\<close>

theorem own_chunks_always_verify:
  assumes "LocalDisk_new rl osa d root lg = Returns s0" "fs_wf d"
    "\<forall>p. is_chunk_path root p \<longrightarrow> map_of d p = None" "uuid_wf (os_uuid osa)" "os_stat_ok osa"
    "(disk_step evp)\<^sup>*\<^sup>* s0 s" "ChunkId_wf cid" "stored s cid = Some b" "io_healthy (os s) (length b)"
    "LockFor cid \<notin> stripe_locks s"
  shows "\<exists>s'. LocalDisk_Get evp cid s = (Returns (Ok b), s')"
proof -
  note inv = fresh_run_invariants(1) [OF assms(1-6)] and can = fresh_run_invariants(2) [OF assms(1-6)]
  have "(FinalPathFor s cid, b) \<in> set (chunk_files (data_root s) (disk s))"
    using stored_iff_chunk_file [OF inv assms(7)] assms(8) by blast
  with can obtain c where "ChunkId_wf c" "FinalPathFor s cid = FinalPathFor s c"
      "HashBytes evp b = Returns (id_digest c)"
    by (auto simp: canonical_def)
  then have hash: "HashBytes evp b = Returns (id_digest cid)"
    using FinalPathFor_inj [OF assms(7)] by simp
  have "map_of (disk s) (FinalPathFor s cid) = Some (File b)"
    using assms(8) by (auto simp: stored_def split: option.splits node.splits)
  from LocalDisk_Get_success [OF assms(10) this assms(9) hash] show ?thesis .
qed

theorem own_chunks_always_verify_witness:
  "\<exists>s s'. (disk_step demo_evp)\<^sup>*\<^sup>* (demo_empty Relock_counts) s \<and>
     LocalDisk_Get demo_evp demo_id s = (Returns (Ok demo_data), s')"
proof -
  obtain s where s: "(disk_step demo_evp)\<^sup>*\<^sup>* (demo_empty Relock_counts) s" "os s = demo_os"
      "stored s demo_id = Some demo_data" "stripe_locks s = {}"
    by (rule demo_run)
  have "\<exists>s'. LocalDisk_Get demo_evp demo_id s = (Returns (Ok demo_data), s')"
    by (rule own_chunks_always_verify [OF demo_new [of Relock_counts] _ _ demo_os_uuid demo_stat(1) s(1)])
       (use s in \<open>simp_all add: fs_wf_def demo_data_def\<close>)
  with s show ?thesis by blast
qed

text \<open>
  In a store opened on a root without chunk files, \<open>ListAllChunkIds\<close> after any sequence of calls
  lists exactly the stored addresses, each once, and as many as the statistics count.
\<close>

theorem ListAllChunkIds_is_exact:
  assumes "LocalDisk_new rl osa d root lg = Returns s0" "fs_wf d"
    "\<forall>p. is_chunk_path root p \<longrightarrow> map_of d p = None" "uuid_wf (os_uuid osa)" "os_stat_ok osa"
    "(disk_step evp)\<^sup>*\<^sup>* s0 s"
    "LocalDisk_ListAllChunkIds s = (Returns ids, s')"
  shows "set ids = {cid. ChunkId_wf cid \<and> stored s cid \<noteq> None} \<and> distinct ids \<and>
    chunk_count s = of_nat (length ids)"
  using ListAllChunkIds_canonical [OF fresh_run_invariants [OF assms(1-6)] assms(7)] by blast

theorem ListAllChunkIds_is_exact_witness:
  "\<exists>s ids. (disk_step demo_evp)\<^sup>*\<^sup>* (demo_empty Relock_counts) s \<and>
     LocalDisk_ListAllChunkIds s = (Returns ids, s) \<and> demo_id \<in> set ids"
proof -
  obtain s where s: "(disk_step demo_evp)\<^sup>*\<^sup>* (demo_empty Relock_counts) s" "os s = demo_os"
      "stored s demo_id = Some demo_data"
    by (rule demo_run)
  have "LocalDisk_inv s" using disk_run_invariants(1) [OF s(1)] by simp
  then obtain ids where ids: "LocalDisk_ListAllChunkIds s = (Returns ids, s)"
    using s(2) by (auto simp: LocalDisk_ListAllChunkIds_def LocalDisk_inv_def fs_exists_def
        fs_iterate_def demo_os_def)
  have "demo_id \<in> set ids"
    using ListAllChunkIds_is_exact [OF demo_new [of Relock_counts] _ _ demo_os_uuid demo_stat(1)
        s(1) ids] s(3) by (simp add: fs_wf_def)
  with s ids show ?thesis by blast
qed

text \<open>
  C37: Every \<open>ChunkId\<close> the program can make is well formed, that is, it carries 32 bytes and spells
  exactly them: those that \<open>Parse\<close> accepts, those made from a digest, and those that listing a store
  finds, whatever the files of its directory are called. A well-formed id is rebuilt from its
  spelling and from its digest, so two of them are equal as soon as either agrees.
\<close>

theorem chunk_ids_are_well_formed:
  "(Parse h = Ok cid \<longrightarrow> ChunkId_wf cid) \<and>
   (length digest = 32 \<longrightarrow> ChunkId_wf (FromDigest digest)) \<and>
   (LocalDisk_ListAllChunkIds s = (Returns ids, s') \<longrightarrow> list_all ChunkId_wf ids) \<and>
   (ChunkId_wf a \<longrightarrow> Parse (ChunkId_ToHexString a) = Ok a \<and> FromDigest (RawDigest a) = a)"
proof -
  have "list_all ChunkId_wf (list_loop es acc) = list_all ChunkId_wf acc" for es acc
    by (induction es acc rule: list_loop.induct) (auto dest: Parse_OkD(1) split: Result.splits)
  then have "list_all ChunkId_wf ids" if "LocalDisk_ListAllChunkIds s = (Returns ids, s')"
    using that by (auto simp: LocalDisk_ListAllChunkIds_def split: if_splits option.splits)
  then show ?thesis unfolding ChunkId_ToHexString_def RawDigest_def
    using Parse_OkD(1) Parse_id_hex FromDigest_wf FromDigest_id_digest by blast
qed

theorem chunk_ids_are_well_formed_witness:
  "ChunkId_wf (FromDigest (demo_H [9])) \<and> Parse (id_hex demo_id) = Ok demo_id"
  using chunk_ids_are_well_formed [of _ _ "demo_H [9]" _ _ _ demo_id] by (simp add: demo_H_def)

end
