(* ===== verification/Fault_Injecting.thy ===== *)
theory Fault_Injecting
  imports Local_Disk_Theorems
begin

text \<open>
  \<^verbatim>\<open>services/storage_node/src/fault_injecting_chunk_store.cpp\<close>: the decorator that makes a chunk
  store fail on demand. It owns its delegate; \<open>store\<close> is the delegate's virtual function table and
  the field \<open>delegate\<close> its state; \<open>slept\<close> records the arguments of \<^verbatim>\<open>sleep_for\<close>. An operation is one
  step here; the theory \<open>Fault_Threads\<close> takes it apart at the critical sections of
  \<^verbatim>\<open>fault_state_mutex_\<close> and lets several threads call at once.

  The decorator keeps the contract of the store it wraps (\<open>faulty_contract\<close>), so every client
  lemma of the \<open>chunk_store\<close> locale holds of the wrapped local disk store too.
\<close>

record 's FaultInjecting =
  delegate :: 's
  pending_one_shot_fault :: "ChunkStoreError option"
  pending_nth_call_fault :: "(uint64 \<times> ChunkStoreError) option"
  call_counter :: uint64
  pending_latency :: int
  slept :: "int list"

definition FaultInjecting_new :: "'s \<Rightarrow> 's FaultInjecting" where
  "FaultInjecting_new d = \<lparr>delegate = d, pending_one_shot_fault = None, pending_nth_call_fault = None,
     call_counter = 0, pending_latency = 0, slept = []\<rparr>"

definition InjectFailureOnNextCall :: "ChunkStoreError \<Rightarrow> 's FaultInjecting \<Rightarrow> 's FaultInjecting" where
  "InjectFailureOnNextCall e f = f\<lparr>pending_one_shot_fault := Some e\<rparr>"

definition InjectFailureAfterNCalls ::
  "uint64 \<Rightarrow> ChunkStoreError \<Rightarrow> 's FaultInjecting \<Rightarrow> 's FaultInjecting" where
  "InjectFailureAfterNCalls n e f = f\<lparr>pending_nth_call_fault := Some (n, e), call_counter := 0\<rparr>"

definition InjectLatency :: "int \<Rightarrow> 's FaultInjecting \<Rightarrow> 's FaultInjecting" where
  "InjectLatency ms f = f\<lparr>pending_latency := ms\<rparr>"

definition ClearInjectedFaults :: "'s FaultInjecting \<Rightarrow> 's FaultInjecting" where
  "ClearInjectedFaults f = f\<lparr>pending_one_shot_fault := None, pending_nth_call_fault := None,
     call_counter := 0, pending_latency := 0\<rparr>"

definition ShouldInjectFault :: "'s FaultInjecting \<Rightarrow> ChunkStoreError option \<times> 's FaultInjecting" where
  "ShouldInjectFault f =
     (let f1 = f\<lparr>call_counter := call_counter f + 1\<rparr>
      in case pending_one_shot_fault f1 of
           Some e \<Rightarrow> (Some e, f1\<lparr>pending_one_shot_fault := None\<rparr>)
         | None \<Rightarrow>
             (case pending_nth_call_fault f1 of
                Some (n, e) \<Rightarrow> if call_counter f1 > n then (Some e, f1) else (None, f1)
              | None \<Rightarrow> (None, f1)))"

definition ApplyLatency :: "'s FaultInjecting \<Rightarrow> 's FaultInjecting" where
  "ApplyLatency f =
     (let latency = pending_latency f
      in if latency > 0 then f\<lparr>slept := slept f @ [latency]\<rparr> else f)"

text \<open>
  The shape all seven operations share: latency, the decision, then either the injected answer or
  the delegate's.
\<close>

definition intercept ::
  "(ChunkStoreError \<Rightarrow> 'a run) \<Rightarrow> ('s \<Rightarrow> 'a run \<times> 's) \<Rightarrow> 's FaultInjecting \<Rightarrow> 'a run \<times> 's FaultInjecting"
where
  "intercept injected call f =
     (case ShouldInjectFault (ApplyLatency f) of
        (Some e, f1) \<Rightarrow> (injected e, f1)
      | (None, f1) \<Rightarrow> let (r, d) = call (delegate f1) in (r, f1\<lparr>delegate := d\<rparr>))"

abbreviation injected_fault :: "ChunkStoreError \<Rightarrow> 'a store_result" where
  "injected_fault e \<equiv> store_err e ''Injected Fault''"

definition FaultInjecting_Put ::
  "'s IChunkStore \<Rightarrow> ChunkId \<Rightarrow> byte list \<Rightarrow> 's FaultInjecting \<Rightarrow> unit store_result \<times> 's FaultInjecting" where
  "FaultInjecting_Put store cid data = intercept injected_fault (Put store cid data)"

definition FaultInjecting_Get ::
  "'s IChunkStore \<Rightarrow> ChunkId \<Rightarrow> 's FaultInjecting \<Rightarrow> byte list store_result \<times> 's FaultInjecting" where
  "FaultInjecting_Get store cid = intercept injected_fault (Get store cid)"

definition FaultInjecting_VerifyOnly ::
  "'s IChunkStore \<Rightarrow> ChunkId \<Rightarrow> 's FaultInjecting \<Rightarrow> unit store_result \<times> 's FaultInjecting" where
  "FaultInjecting_VerifyOnly store cid = intercept injected_fault (VerifyOnly store cid)"

definition FaultInjecting_Delete ::
  "'s IChunkStore \<Rightarrow> ChunkId \<Rightarrow> 's FaultInjecting \<Rightarrow> unit store_result \<times> 's FaultInjecting" where
  "FaultInjecting_Delete store cid = intercept injected_fault (Delete store cid)"

definition FaultInjecting_Exists ::
  "'s IChunkStore \<Rightarrow> ChunkId \<Rightarrow> 's FaultInjecting \<Rightarrow> bool run \<times> 's FaultInjecting" where
  "FaultInjecting_Exists store cid = intercept (\<lambda>_. Returns False) (Exists store cid)"

definition FaultInjecting_GetStats ::
  "'s IChunkStore \<Rightarrow> 's FaultInjecting \<Rightarrow> ChunkStoreStats run \<times> 's FaultInjecting" where
  "FaultInjecting_GetStats store =
     intercept (\<lambda>_. Returns \<lparr>stats_chunk_count = 0, stats_bytes_used = 0, stats_bytes_free = 0\<rparr>)
       (GetStats store)"

definition FaultInjecting_ListAllChunkIds ::
  "'s IChunkStore \<Rightarrow> 's FaultInjecting \<Rightarrow> ChunkId list run \<times> 's FaultInjecting" where
  "FaultInjecting_ListAllChunkIds store = intercept (\<lambda>_. Returns []) (ListAllChunkIds store)"

definition FaultInjecting_vtable :: "'s IChunkStore \<Rightarrow> 's FaultInjecting IChunkStore" where
  "FaultInjecting_vtable store =
     \<lparr>Put = FaultInjecting_Put store, Get = FaultInjecting_Get store,
      VerifyOnly = FaultInjecting_VerifyOnly store, Delete = FaultInjecting_Delete store,
      Exists = FaultInjecting_Exists store, GetStats = FaultInjecting_GetStats store,
      ListAllChunkIds = FaultInjecting_ListAllChunkIds store\<rparr>"

lemmas FaultInjecting_ops =
  FaultInjecting_Put_def FaultInjecting_Get_def FaultInjecting_VerifyOnly_def FaultInjecting_Delete_def
  FaultInjecting_Exists_def FaultInjecting_GetStats_def FaultInjecting_ListAllChunkIds_def

section \<open>The decision\<close>

lemma delegate_frame [simp]:
  "delegate (ApplyLatency f) = delegate f"
  "delegate (snd (ShouldInjectFault f)) = delegate f"
  by (auto simp: ApplyLatency_def ShouldInjectFault_def Let_def split: option.splits)

lemma ApplyLatency_frame [simp]:
  "pending_one_shot_fault (ApplyLatency f) = pending_one_shot_fault f"
  "pending_nth_call_fault (ApplyLatency f) = pending_nth_call_fault f"
  "call_counter (ApplyLatency f) = call_counter f"
  "pending_latency (ApplyLatency f) = pending_latency f"
  by (simp_all add: ApplyLatency_def Let_def)

lemma intercept_cases:
  assumes "intercept injected call f = (r, f')"
  obtains (injected) e where "r = injected e" "delegate f' = delegate f"
    "fst (ShouldInjectFault (ApplyLatency f)) = Some e"
  | (passed) "call (delegate f) = (r, delegate f')" "fst (ShouldInjectFault (ApplyLatency f)) = None"
proof -
  obtain x f1 where d: "ShouldInjectFault (ApplyLatency f) = (x, f1)" by fastforce
  have "delegate f1 = delegate f"
    using arg_cong [OF d, of snd] delegate_frame [of "ApplyLatency f"] by simp
  then show thesis
    using assms that d by (cases x) (auto simp: intercept_def split: prod.splits)
qed

lemma intercept_delegate:
  "\<exists>r. delegate (snd (intercept injected call f)) = delegate f \<or>
       call (delegate f) = (r, delegate (snd (intercept injected call f)))"
  by (rule intercept_cases [of injected call f "fst (intercept injected call f)"
        "snd (intercept injected call f)"]) auto

lemma intercept_frame:
  assumes "P (delegate f)" "P (snd (call (delegate f)))"
  shows "P (delegate (snd (intercept injected call f)))"
  using intercept_delegate [of injected call f] assms by auto

text \<open>The decision of the next call, and what it leaves pending.\<close>

lemma intercept_one_shot:
  assumes "pending_one_shot_fault f = Some e"
  obtains f' where "\<And>(injected :: ChunkStoreError \<Rightarrow> 'a run) call. intercept injected call f = (injected e, f')"
    "delegate f' = delegate f" "pending_one_shot_fault f' = None"
    "pending_nth_call_fault f' = pending_nth_call_fault f"
  using assms by (simp add: intercept_def ShouldInjectFault_def Let_def)

lemma intercept_none:
  assumes "pending_one_shot_fault f = None"
    "\<And>n e. pending_nth_call_fault f = Some (n, e) \<Longrightarrow> call_counter f + 1 \<le> n"
    "call (delegate f) = (r, d)"
  obtains f' where "intercept injected call f = (r, f')" "delegate f' = d"
    "pending_one_shot_fault f' = None" "pending_nth_call_fault f' = pending_nth_call_fault f"
    "call_counter f' = call_counter f + 1" "pending_latency f' = pending_latency f"
  using assms(1,3) assms(2) [THEN leD]
  by (cases "pending_nth_call_fault f") (auto simp: intercept_def ShouldInjectFault_def Let_def)

lemma intercept_nth:
  assumes "pending_one_shot_fault f = None" "pending_nth_call_fault f = Some (n, e)" "n < call_counter f + 1"
  obtains f' where "intercept injected call f = (injected e, f')" "delegate f' = delegate f"
    "pending_one_shot_fault f' = None" "pending_nth_call_fault f' = Some (n, e)"
    "call_counter f' = call_counter f + 1"
  using assms by (simp add: intercept_def ShouldInjectFault_def Let_def)

section \<open>The wrapped store keeps the contract\<close>

lemma FaultInjecting_vtable_select [simp]:
  "Put (FaultInjecting_vtable store) cid d = intercept injected_fault (Put store cid d)"
  "Get (FaultInjecting_vtable store) cid = intercept injected_fault (Get store cid)"
  "VerifyOnly (FaultInjecting_vtable store) cid = intercept injected_fault (VerifyOnly store cid)"
  "Delete (FaultInjecting_vtable store) cid = intercept injected_fault (Delete store cid)"
  "Exists (FaultInjecting_vtable store) cid = intercept (\<lambda>_. Returns False) (Exists store cid)"
  "GetStats (FaultInjecting_vtable store) =
     intercept (\<lambda>_. Returns \<lparr>stats_chunk_count = 0, stats_bytes_used = 0, stats_bytes_free = 0\<rparr>) (GetStats store)"
  "ListAllChunkIds (FaultInjecting_vtable store) = intercept (\<lambda>_. Returns []) (ListAllChunkIds store)"
  by (simp_all add: FaultInjecting_vtable_def FaultInjecting_ops)

lemma intercept_Ok:
  assumes "intercept injected_fault call f = (Returns (Ok a), f')"
  shows "call (delegate f) = (Returns (Ok a), delegate f')" "fst (ShouldInjectFault (ApplyLatency f)) = None"
  using assms by (cases rule: intercept_cases; simp)+

lemma intercept_pass:
  assumes "fst (ShouldInjectFault (ApplyLatency f)) = None" "call (delegate f) = (r, d)"
  shows "\<exists>f'. intercept injected call f = (r, f')"
proof -
  obtain r' f' where i: "intercept injected call f = (r', f')" by fastforce
  then have "r' = r" using assms by (cases rule: intercept_cases) auto
  with i show ?thesis by blast
qed

context chunk_store
begin

lemma intercept_contents:
  assumes "inv (delegate f)"
    "inv (snd (call (delegate f))) \<and> content (snd (call (delegate f))) = content (delegate f)"
  shows "inv (delegate (snd (intercept injected call f))) \<and>
         content (delegate (snd (intercept injected call f))) = content (delegate f)"
  using intercept_frame [of "\<lambda>d. inv d \<and> content d = content (delegate f)" f call injected] assms by simp

lemma faulty_contract:
  "chunk_store (FaultInjecting_vtable store) hash (\<lambda>f. content (delegate f)) (\<lambda>f. inv (delegate f))"
proof (unfold_locales, goal_cases)
  case (1 cid s d s')
  then show ?case using intercept_Ok(1) get_hash by fastforce
next
  case (2 cid s s')
  then show ?case using intercept_Ok [of "VerifyOnly store cid" s "()" s'] verify_hash
    by (metis FaultInjecting_vtable_select(2,3) intercept_pass)
next
  case (3 s cid d s')
  then show ?case using intercept_Ok(1) get_content by fastforce
next
  case (4 s cid)
  show ?case unfolding FaultInjecting_vtable_select by (intro intercept_contents get_frame 4)
next
  case (5 s cid)
  show ?case unfolding FaultInjecting_vtable_select by (intro intercept_contents verify_frame 5)
next
  case (6 s cid)
  show ?case unfolding FaultInjecting_vtable_select by (intro intercept_contents exists_frame 6)
next
  case (7 s)
  show ?case unfolding FaultInjecting_vtable_select by (intro intercept_contents stats_frame 7)
next
  case (8 s)
  show ?case unfolding FaultInjecting_vtable_select by (intro intercept_contents list_frame 8)
next
  case (9 s cid d)
  show ?case unfolding FaultInjecting_vtable_select
    by (intro intercept_frame [where P = inv] put_inv 9)
next
  case (10 s cid x d s')
  then show ?case using put_ok intercept_Ok(1) [of "Put store cid d" s "()" s'] by simp
next
  case (11 s cid x d r s')
  from 11(4) [simplified] show ?case
    by (cases rule: intercept_cases) (use 11 put_not_ok in auto)
next
  case (12 s cid)
  show ?case unfolding FaultInjecting_vtable_select
    by (intro intercept_frame [where P = inv] delete_inv 12)
next
  case (13 s cid x r s')
  from 13(4) [simplified] show ?case
    by (cases rule: intercept_cases) (use 13 delete_content in auto)
qed

end

interpretation faulty_disk: chunk_store "FaultInjecting_vtable (LocalDisk_vtable evp)" "HashBytes evp"
    "\<lambda>f. stored (delegate f)" "\<lambda>f. LocalDisk_inv (delegate f)"
  for evp :: "'c EVP"
  by (rule local_disk.faulty_contract)

section \<open>Sequences of reads\<close>

fun Get_all :: "'s IChunkStore \<Rightarrow> ChunkId list \<Rightarrow> 's \<Rightarrow> byte list store_result list \<times> 's" where
  "Get_all store [] s = ([], s)"
| "Get_all store (cid # ids) s =
     (let (r, s1) = Get store cid s; (rs, s2) = Get_all store ids s1 in (r # rs, s2))"

lemma Get_all_append:
  "Get_all store (ids @ jds) s =
     (let (rs, s1) = Get_all store ids s; (qs, s2) = Get_all store jds s1 in (rs @ qs, s2))"
  by (induction ids arbitrary: s) (simp_all add: split_def Let_def)

lemma unat_inc: "unat (c :: uint64) + 1 < 2 ^ 64 \<Longrightarrow> unat (c + 1) = unat c + 1"
  using unat_add_lem [of c 1] by simp

lemma Get_all_before_nth:
  assumes "pending_one_shot_fault f = None" "pending_nth_call_fault f = Some (n, e)"
    "unat (call_counter f) + length ids \<le> unat n"
  shows "\<exists>f'. Get_all (FaultInjecting_vtable store) ids f = (fst (Get_all store ids (delegate f)), f') \<and>
     delegate f' = snd (Get_all store ids (delegate f)) \<and> pending_one_shot_fault f' = None \<and>
     pending_nth_call_fault f' = Some (n, e) \<and> unat (call_counter f') = unat (call_counter f) + length ids"
  using assms
proof (induction ids arbitrary: f)
  case (Cons cid ids)
  have small: "unat (call_counter f) + 1 < 2 ^ 64" using Cons.prems(3) unsigned_less [where ?'a = nat, of n] by simp
  obtain r d where g: "Get store cid (delegate f) = (r, d)" by fastforce
  obtain f1 where f1: "intercept injected_fault (Get store cid) f = (r, f1)" "delegate f1 = d"
      "pending_one_shot_fault f1 = None" "pending_nth_call_fault f1 = Some (n, e)"
      "call_counter f1 = call_counter f + 1"
    by (rule intercept_none [OF Cons.prems(1), where call = "Get store cid" and r = r and d = d
          and injected = injected_fault])
       (use Cons.prems(2,3) g unat_inc [OF small] in \<open>auto simp: word_le_nat_alt\<close>)
  have "unat (call_counter f1) = unat (call_counter f) + 1" using f1(5) unat_inc [OF small] by simp
  then show ?case
    using Cons.IH [OF f1(3,4)] Cons.prems(3) f1(1,2) g by (auto simp: split_def Let_def)
qed simp

lemma Get_all_after_nth:
  assumes "pending_one_shot_fault f = None" "pending_nth_call_fault f = Some (n, e)"
    "unat n \<le> unat (call_counter f)" "unat (call_counter f) + length ids < 2 ^ 64"
  shows "\<exists>f'. Get_all (FaultInjecting_vtable store) ids f = (replicate (length ids) (injected_fault e), f') \<and>
     delegate f' = delegate f"
  using assms
proof (induction ids arbitrary: f)
  case (Cons cid ids)
  have inc: "unat (call_counter f + 1) = unat (call_counter f) + 1" using Cons.prems(4) by (intro unat_inc) simp
  obtain f1 where f1: "intercept injected_fault (Get store cid) f = (injected_fault e, f1)"
      "delegate f1 = delegate f" "pending_one_shot_fault f1 = None"
      "pending_nth_call_fault f1 = Some (n, e)" "call_counter f1 = call_counter f + 1"
    by (rule intercept_nth [OF Cons.prems(1,2), of injected_fault "Get store cid"])
       (use Cons.prems(3) inc in \<open>auto simp: word_less_nat_alt\<close>)
  show ?case using Cons.IH [OF f1(3,4)] Cons.prems(3,4) f1 inc by (auto simp: split_def Let_def)
qed simp

text \<open>A call of the decorator that ends as the delegate's call does, after the given sleeps.\<close>

definition agrees :: "'a run \<times> 's FaultInjecting \<Rightarrow> 'a run \<times> 's \<Rightarrow> int list \<Rightarrow> bool" where
  "agrees m n sleeps \<longleftrightarrow> fst m = fst n \<and> delegate (snd m) = snd n \<and> slept (snd m) = sleeps"

lemma intercept_cleared: "agrees (intercept injected call (ClearInjectedFaults f)) (call (delegate f)) (slept f)"
  by (simp add: agrees_def intercept_def ShouldInjectFault_def ApplyLatency_def ClearInjectedFaults_def
      Let_def split_def)

section \<open>What the injected faults do\<close>

text \<open>
  A fault injected for the \<open>n\<close>-th call lets exactly \<open>n\<close> reads through to the delegate, with the
  delegate's answers, and fails every later one (until the 64-bit call counter wraps) without calling the
  delegate again.
\<close>

theorem fault_after_n_calls:
  assumes "pending_one_shot_fault f = None" "length ids = unat n" "length ids + length jds < 2 ^ 64"
  shows "\<exists>f'. Get_all (FaultInjecting_vtable store) (ids @ jds) (InjectFailureAfterNCalls n e f) =
           (fst (Get_all store ids (delegate f)) @
              replicate (length jds) (store_err e ''Injected Fault''), f') \<and>
         delegate f' = snd (Get_all store ids (delegate f))"
proof -
  let ?f = "InjectFailureAfterNCalls n e f"
  have start: "pending_one_shot_fault ?f = None" "pending_nth_call_fault ?f = Some (n, e)"
      "call_counter ?f = 0" "delegate ?f = delegate f"
    using assms(1) by (simp_all add: InjectFailureAfterNCalls_def)
  obtain f1 where f1: "Get_all (FaultInjecting_vtable store) ids ?f = (fst (Get_all store ids (delegate f)), f1)"
      "delegate f1 = snd (Get_all store ids (delegate f))" "pending_one_shot_fault f1 = None"
      "pending_nth_call_fault f1 = Some (n, e)" "unat (call_counter f1) = length ids"
    using Get_all_before_nth [OF start(1,2), of ids store] start(3,4) assms(2) by auto
  show ?thesis
    using Get_all_after_nth [OF f1(3,4), of jds store] f1 assms(2,3) by (auto simp: Get_all_append)
qed

theorem fault_after_n_calls_witness:
  "\<exists>f'. Get_all (FaultInjecting_vtable (LocalDisk_vtable demo_evp)) [demo_id, demo_id]
      (InjectFailureAfterNCalls 1 ChunkStoreError_IoError
        (FaultInjecting_new (demo_full Relock_blocks demo_data))) =
    ([Returns (Ok demo_data), store_err ChunkStoreError_IoError ''Injected Fault''], f')"
proof -
  obtain s' where g: "LocalDisk_Get demo_evp demo_id (demo_full Relock_blocks demo_data) = (Returns (Ok demo_data), s')"
    using LocalDisk_Get_success [of demo_id "demo_full Relock_blocks demo_data" demo_data demo_evp]
    by (auto simp: demo_data_def)
  then show ?thesis
    using fault_after_n_calls [of "FaultInjecting_new (demo_full Relock_blocks demo_data)" "[demo_id]" 1
        "[demo_id]" "LocalDisk_vtable demo_evp" ChunkStoreError_IoError]
    by (auto simp: FaultInjecting_new_def)
qed

text \<open>
  A one-shot fault makes the next call fail with the chosen error and leaves the delegate alone;
  when no other fault is pending, the call after it is the delegate's own.
\<close>

theorem one_shot_fault_fires_once:
  assumes "pending_nth_call_fault f = None"
  shows "\<exists>f1 f2. Put (FaultInjecting_vtable store) cid d (InjectFailureOnNextCall e f) =
             (store_err e ''Injected Fault'', f1) \<and> delegate f1 = delegate f \<and>
           Put (FaultInjecting_vtable store) cid d f1 = (fst (Put store cid d (delegate f)), f2) \<and>
           delegate f2 = snd (Put store cid d (delegate f))"
proof -
  let ?f = "InjectFailureOnNextCall e f"
  obtain f1 where f1: "intercept injected_fault (Put store cid d) ?f = (injected_fault e, f1)"
      "delegate f1 = delegate ?f" "pending_one_shot_fault f1 = None"
      "pending_nth_call_fault f1 = pending_nth_call_fault ?f"
    by (rule intercept_one_shot [of ?f e]) (auto simp: InjectFailureOnNextCall_def)
  have none: "pending_nth_call_fault f1 = Some (n, x) \<Longrightarrow> call_counter f1 + 1 \<le> n" for n x
    using f1(4) assms by (simp add: InjectFailureOnNextCall_def)
  obtain f2 where "intercept injected_fault (Put store cid d) f1 = (fst (Put store cid d (delegate f)), f2)"
      "delegate f2 = snd (Put store cid d (delegate f))"
    by (rule intercept_none [OF f1(3) none, where call = "Put store cid d" and injected = injected_fault
          and r = "fst (Put store cid d (delegate f))" and d = "snd (Put store cid d (delegate f))"])
       (use f1(2) in \<open>auto simp: InjectFailureOnNextCall_def\<close>)
  then show ?thesis using f1(1,2) by (auto simp: InjectFailureOnNextCall_def)
qed

theorem one_shot_fault_fires_once_witness:
  "\<exists>f1. Put (FaultInjecting_vtable (LocalDisk_vtable demo_evp)) demo_id demo_data
       (InjectFailureOnNextCall ChunkStoreError_IoError (FaultInjecting_new (demo_empty Relock_counts))) =
     (store_err ChunkStoreError_IoError ''Injected Fault'', f1)"
  using one_shot_fault_fires_once [of "FaultInjecting_new (demo_empty Relock_counts)"
      "LocalDisk_vtable demo_evp" demo_id demo_data ChunkStoreError_IoError]
  by (auto simp: FaultInjecting_new_def)

text \<open>
  After the faults are cleared the decorator is transparent: every operation returns what the
  delegate returns and changes the delegate the way the delegate's own operation does, without
  sleeping.
\<close>

theorem cleared_store_is_transparent:
  "agrees (Put (FaultInjecting_vtable store) cid d (ClearInjectedFaults f)) (Put store cid d (delegate f)) (slept f) \<and>
   agrees (Get (FaultInjecting_vtable store) cid (ClearInjectedFaults f)) (Get store cid (delegate f)) (slept f) \<and>
   agrees (VerifyOnly (FaultInjecting_vtable store) cid (ClearInjectedFaults f))
     (VerifyOnly store cid (delegate f)) (slept f) \<and>
   agrees (Delete (FaultInjecting_vtable store) cid (ClearInjectedFaults f)) (Delete store cid (delegate f)) (slept f) \<and>
   agrees (Exists (FaultInjecting_vtable store) cid (ClearInjectedFaults f)) (Exists store cid (delegate f)) (slept f) \<and>
   agrees (GetStats (FaultInjecting_vtable store) (ClearInjectedFaults f)) (GetStats store (delegate f)) (slept f) \<and>
   agrees (ListAllChunkIds (FaultInjecting_vtable store) (ClearInjectedFaults f))
     (ListAllChunkIds store (delegate f)) (slept f)"
  by (simp add: intercept_cleared)

end
