(* ===== verification/Protocol_Version.thy ===== *)
theory Protocol_Version
  imports Result Logger
begin

text \<open>
  \<^verbatim>\<open>libs/common/src/protocol_version.cpp\<close>, \<^verbatim>\<open>grpc_metadata_keys.h\<close> and the gRPC vocabulary both
  services share: status values, the part of \<^verbatim>\<open>grpc::ServerContext\<close> the handlers read, and the
  correlation id of a call. \<open>uuids\<close> are the values the successive calls of \<^verbatim>\<open>GenerateUuidV4\<close> return
  while the handler runs and \<open>duration_ms\<close> is what the steady clock measures for it.
\<close>

definition kCurrentProtocolVersion :: uint32 where
  "kCurrentProtocolVersion = 1"

datatype ProtocolVersionError = ProtocolVersionError_Unsupported

definition CheckProtocolVersion :: "uint32 \<Rightarrow> uint32 \<Rightarrow> uint32 \<Rightarrow> (unit, ProtocolVersionError) Result" where
  "CheckProtocolVersion received_version min_supported max_supported =
     (if received_version < min_supported \<or> received_version > max_supported
      then Err ProtocolVersionError_Unsupported else Ok ())"

definition kCorrelationIdMetadataKey :: string where
  "kCorrelationIdMetadataKey = ''x-nimbus-correlation-id''"

datatype StatusCode =
    GRPC_OK | INVALID_ARGUMENT | PERMISSION_DENIED | RESOURCE_EXHAUSTED | FAILED_PRECONDITION
  | GRPC_CODE nat \<comment> \<open>any other code a peer may send\<close>

record grpc_Status =
  error_code :: StatusCode
  error_message :: string

abbreviation Status_OK :: grpc_Status where
  "Status_OK \<equiv> \<lparr>error_code = GRPC_OK, error_message = []\<rparr>"

abbreviation Status :: "StatusCode \<Rightarrow> string \<Rightarrow> grpc_Status" where
  "Status c m \<equiv> \<lparr>error_code = c, error_message = m\<rparr>"

record ServerContext =
  client_metadata :: "(string \<times> string) list"
  uuids :: "nat \<Rightarrow> string"
  duration_ms :: int

text \<open>The \<open>k\<close>-th call within one handler; the metadata map is a multimap and \<^verbatim>\<open>find\<close> returns its first match.\<close>

definition GetCorrelationId :: "ServerContext \<Rightarrow> nat \<Rightarrow> string" where
  "GetCorrelationId sctx k =
     (case map_of (client_metadata sctx) kCorrelationIdMetadataKey of
        Some v \<Rightarrow> v
      | None \<Rightarrow> uuids sctx k)"

lemma CheckProtocolVersion_current:
  "IsOk (CheckProtocolVersion v kCurrentProtocolVersion kCurrentProtocolVersion) \<longleftrightarrow> v = 1"
proof -
  have "v < 1 \<or> v > 1 \<longleftrightarrow> v \<noteq> 1" by (simp only: neq_iff)
  then show ?thesis
    unfolding CheckProtocolVersion_def kCurrentProtocolVersion_def by (simp only: simp_thms split: if_split) simp
qed

lemma CheckProtocolVersion_range:
  "CheckProtocolVersion v lo hi = Ok () \<longleftrightarrow> lo \<le> v \<and> v \<le> hi"
  by (auto simp: CheckProtocolVersion_def)

end
