(* ===== verification/Storage_Service.thy ===== *)
theory Storage_Service
  imports Fault_Injecting Protocol_Version
begin

text \<open>
  \<^verbatim>\<open>services/storage_node/src/storage_node_service_impl.cpp\<close> and \<^verbatim>\<open>capability_token.cpp\<close>: the six
  RPC handlers of a storage node, over any chunk store (\<open>store\<close>, the virtual function table; the
  state \<open>'s\<close> is the store's) and the logger the service shares with the store (\<open>ref\<close>).

  A client stream is the list of messages the reader will deliver. A server stream is the list of
  messages the handler wrote successfully, where \<open>write_ok k\<close> is the answer of the \<open>k\<close>-th \<^verbatim>\<open>Write\<close>.
  The peer node that \<open>ReplicateChunk\<close> calls is a parameter: what it streams back, and the final
  status, for an address, call metadata and a request.

  Sizes of the payload vector and of a data frame are natural numbers: each is below \<open>2 ^ 63\<close>
  (\<^verbatim>\<open>max_size\<close>), so the 64-bit sum the code compares cannot wrap.
  \<^verbatim>\<open>reserve\<close> only sets memory aside and is taken to succeed. A status is one of the enumerators of
  \<^verbatim>\<open>storage_node.proto\<close>; a peer that sends another number is outside the model.
\<close>

section \<open>Messages\<close>

datatype ChunkStatus =
    CS_OK | CHECKSUM_MISMATCH | CHUNK_TOO_LARGE | CAPABILITY_DENIED
  | IO_ERROR | NOT_FOUND | CORRUPTION_DETECTED | SOURCE_UNREACHABLE

fun ChunkStatus_number :: "ChunkStatus \<Rightarrow> int" where
  "ChunkStatus_number CS_OK = 0"
| "ChunkStatus_number CHECKSUM_MISMATCH = 1"
| "ChunkStatus_number CHUNK_TOO_LARGE = 2"
| "ChunkStatus_number CAPABILITY_DENIED = 3"
| "ChunkStatus_number IO_ERROR = 4"
| "ChunkStatus_number NOT_FOUND = 5"
| "ChunkStatus_number CORRUPTION_DETECTED = 6"
| "ChunkStatus_number SOURCE_UNREACHABLE = 7"

record PutChunkMetadata =
  put_chunk_id :: string
  put_capability_token :: string
  put_total_size_bytes :: uint64

datatype PutPayload = Put_metadata PutChunkMetadata | Put_data_chunk "byte list"

record PutChunkRequest =
  put_protocol_version :: uint32
  put_payload :: "PutPayload option"

record PutChunkResponse =
  putr_protocol_version :: uint32
  putr_status :: ChunkStatus
  putr_message :: string

record GetChunkRequest =
  get_protocol_version :: uint32
  get_chunk_id :: string

record GetChunkMetadata =
  get_total_size_bytes :: uint64
  get_status :: ChunkStatus

datatype GetPayload = Get_metadata GetChunkMetadata | Get_data_chunk "byte list"

record GetChunkResponse =
  getr_protocol_version :: uint32
  getr_payload :: "GetPayload option"

record VerifyChunkRequest =
  ver_protocol_version :: uint32
  ver_chunk_id :: string

record VerifyChunkResponse =
  verr_protocol_version :: uint32
  verr_is_valid :: bool
  verr_status :: ChunkStatus

record DeleteChunkRequest =
  del_protocol_version :: uint32
  del_chunk_id :: string
  del_capability_token :: string

record DeleteChunkResponse =
  delr_protocol_version :: uint32
  delr_status :: ChunkStatus

record ReplicateChunkRequest =
  rep_protocol_version :: uint32
  rep_chunk_id :: string
  rep_source_node_address :: string

record ReplicateChunkResponse =
  repr_protocol_version :: uint32
  repr_status :: ChunkStatus

record GetNodeStatsRequest =
  stat_protocol_version :: uint32

record GetNodeStatsResponse =
  statr_protocol_version :: uint32
  statr_chunk_count :: uint64
  statr_bytes_used :: uint64
  statr_bytes_free :: uint64

text \<open>A message as protobuf constructs it: zero, empty, and the first enumerator.\<close>

definition PutChunkResponse_default :: PutChunkResponse where
  "PutChunkResponse_default = \<lparr>putr_protocol_version = 0, putr_status = CS_OK, putr_message = []\<rparr>"

definition VerifyChunkResponse_default :: VerifyChunkResponse where
  "VerifyChunkResponse_default = \<lparr>verr_protocol_version = 0, verr_is_valid = False, verr_status = CS_OK\<rparr>"

definition DeleteChunkResponse_default :: DeleteChunkResponse where
  "DeleteChunkResponse_default = \<lparr>delr_protocol_version = 0, delr_status = CS_OK\<rparr>"

definition ReplicateChunkResponse_default :: ReplicateChunkResponse where
  "ReplicateChunkResponse_default = \<lparr>repr_protocol_version = 0, repr_status = CS_OK\<rparr>"

definition GetNodeStatsResponse_default :: GetNodeStatsResponse where
  "GetNodeStatsResponse_default = \<lparr>statr_protocol_version = 0, statr_chunk_count = 0, statr_bytes_used = 0,
     statr_bytes_free = 0\<rparr>"

text \<open>The accessor \<^verbatim>\<open>metadata()\<close> of a response whose payload is something else: the default message.\<close>

definition GetChunkResponse_metadata :: "GetChunkResponse \<Rightarrow> GetChunkMetadata" where
  "GetChunkResponse_metadata m = (case getr_payload m of
      Some (Get_metadata md) \<Rightarrow> md
    | _ \<Rightarrow> \<lparr>get_total_size_bytes = 0, get_status = CS_OK\<rparr>)"

section \<open>Helpers of the service\<close>

definition kStreamFrameSizeBytes :: uint64 where
  "kStreamFrameSizeBytes = 256 * 1024"

fun MapStoreError :: "ChunkStoreError \<Rightarrow> ChunkStatus" where
  "MapStoreError ChunkStoreError_ChecksumMismatch = CHECKSUM_MISMATCH"
| "MapStoreError ChunkStoreError_CorruptionDetected = CORRUPTION_DETECTED"
| "MapStoreError ChunkStoreError_NotFound = NOT_FOUND"
| "MapStoreError ChunkStoreError_IoError = IO_ERROR"

record 's StorageNodeService =
  svc_store :: "'s IChunkStore"
  service_logger :: "'s logger_ref"
  max_chunk_bytes :: uint64

text \<open>The constructor; \<open>configured\<close> is the answer of the configuration to \<^verbatim>\<open>max_chunk_bytes\<close>.\<close>

definition StorageNodeService_new ::
  "'s IChunkStore \<Rightarrow> 's logger_ref \<Rightarrow> int option \<Rightarrow> 's StorageNodeService" where
  "StorageNodeService_new st lg configured =
     \<lparr>svc_store = st, service_logger = lg,
      max_chunk_bytes = of_int (case configured of Some v \<Rightarrow> v | None \<Rightarrow> 4 * 1024 * 1024)\<rparr>"

abbreviation svc_log :: "'s StorageNodeService \<Rightarrow> LogLevel \<Rightarrow> string \<Rightarrow> 's \<Rightarrow> 's" where
  "svc_log svc level msg \<equiv> modify (service_logger svc) (Logger_log level msg [])"

datatype CapabilityError = CapabilityError_Denied

definition ValidateCapabilityToken :: "string \<Rightarrow> ChunkId \<Rightarrow> (unit, CapabilityError) Result" where
  "ValidateCapabilityToken token scoped_chunk_id = Ok ()"

definition RunPreamble ::
  "'s StorageNodeService \<Rightarrow> uint32 \<Rightarrow> string option \<Rightarrow> ChunkId option \<Rightarrow> 's \<Rightarrow> grpc_Status option \<times> 's" where
  "RunPreamble svc received_protocol_version capability_token token_scoped_chunk_id s =
     (if \<not> IsOk (CheckProtocolVersion received_protocol_version kCurrentProtocolVersion kCurrentProtocolVersion)
      then (Some (Status FAILED_PRECONDITION ''Unsupported protocol version''), s)
      else case (capability_token, token_scoped_chunk_id) of
             (Some token, Some cid) \<Rightarrow>
               if \<not> IsOk (ValidateCapabilityToken token cid)
               then (Some (Status PERMISSION_DENIED ''CAPABILITY_DENIED''),
                     svc_log svc LogLevel_Warn (''CAPABILITY_DENIED for chunk '' @ id_hex cid) s)
               else (None, s)
           | _ \<Rightarrow> (None, s))"

section \<open>PutChunk\<close>

text \<open>The reading loop; \<open>None\<close> is the early return for a stream that grows too large.\<close>

fun PutChunk_read :: "uint64 \<Rightarrow> PutChunkRequest list \<Rightarrow> byte list \<Rightarrow> byte list option" where
  "PutChunk_read limit [] payload = Some payload"
| "PutChunk_read limit (frame # reader) payload =
     (case put_payload frame of
        Some (Put_data_chunk data) \<Rightarrow>
          if length payload + length data > unat limit then None
          else PutChunk_read limit reader (payload @ data)
      | _ \<Rightarrow> PutChunk_read limit reader payload)"

definition PutChunk_store ::
  "'s StorageNodeService \<Rightarrow> ServerContext \<Rightarrow> ChunkId \<Rightarrow> byte list \<Rightarrow> PutChunkResponse \<Rightarrow>
   's \<Rightarrow> (grpc_Status \<times> PutChunkResponse) run \<times> 's" where
  "PutChunk_store svc sctx cid payload response s =
     run_bind (Put (svc_store svc) cid payload s) (\<lambda>put_res s.
       case put_res of
         Ok _ \<Rightarrow>
           (Returns (Status_OK, response\<lparr>putr_status := CS_OK, putr_message := ''Success''\<rparr>),
            svc_log svc LogLevel_Info (''PutChunk successful for '' @ id_hex cid @ '' in '' @
              to_string (duration_ms sctx) @ ''ms'') s)
       | Err e \<Rightarrow>
           (Returns (Status_OK, response\<lparr>putr_status := MapStoreError (err_kind e), putr_message := err_message e\<rparr>),
            if err_kind e = ChunkStoreError_IoError \<or> err_kind e = ChunkStoreError_CorruptionDetected
            then svc_log svc LogLevel_Error (''PutChunk failed: '' @ err_message e) s
            else svc_log svc LogLevel_Warn (''PutChunk domain error: '' @ err_message e) s))"

definition PutChunk ::
  "'s StorageNodeService \<Rightarrow> ServerContext \<Rightarrow> PutChunkRequest list \<Rightarrow>
   's \<Rightarrow> (grpc_Status \<times> PutChunkResponse) run \<times> 's" where
  "PutChunk svc sctx reader s =
     correlation_scope (service_logger svc) (GetCorrelationId sctx 0) (\<lambda>s.
       let response = PutChunkResponse_default\<lparr>putr_protocol_version := kCurrentProtocolVersion\<rparr>
       in case reader of
            [] \<Rightarrow> (Returns (Status INVALID_ARGUMENT ''Missing metadata'', response),
                   svc_log svc LogLevel_Error ''PutChunk failed: stream closed before metadata'' s)
          | first_req # rest \<Rightarrow>
       case put_payload first_req of
         Some (Put_metadata metadata) \<Rightarrow>
           (case Parse (put_chunk_id metadata) of
              Err _ \<Rightarrow> (Returns (Status INVALID_ARGUMENT ''Invalid chunk_id'', response),
                       svc_log svc LogLevel_Error ''PutChunk failed: invalid chunk_id'' s)
            | Ok cid \<Rightarrow>
                (case RunPreamble svc (put_protocol_version first_req)
                        (Some (put_capability_token metadata)) (Some cid) s of
                   (Some preamble_err, s) \<Rightarrow>
                     if error_message preamble_err = ''CAPABILITY_DENIED''
                     then (Returns (Status_OK, response\<lparr>putr_status := CAPABILITY_DENIED,
                             putr_message := ''Capability token denied''\<rparr>), s)
                     else (Returns (preamble_err, response), s)
                 | (None, s) \<Rightarrow>
                     let total_size = put_total_size_bytes metadata
                     in if total_size > max_chunk_bytes svc
                        then (Returns (Status RESOURCE_EXHAUSTED ''Chunk too large'',
                                response\<lparr>putr_status := CHUNK_TOO_LARGE, putr_message := ''Chunk too large''\<rparr>),
                              svc_log svc LogLevel_Warn (''CHUNK_TOO_LARGE: requested '' @
                                to_string (uint total_size) @ '' > '' @
                                to_string (uint (max_chunk_bytes svc))) s)
                        else
                          (case PutChunk_read (max_chunk_bytes svc) rest [] of
                             None \<Rightarrow>
                               (Returns (Status RESOURCE_EXHAUSTED ''Streamed chunk too large'',
                                  response\<lparr>putr_status := CHUNK_TOO_LARGE,
                                    putr_message := ''Streamed chunk too large''\<rparr>),
                                svc_log svc LogLevel_Warn ''CHUNK_TOO_LARGE during streaming'' s)
                           | Some payload \<Rightarrow> PutChunk_store svc sctx cid payload response s)))
       | _ \<Rightarrow> (Returns (Status INVALID_ARGUMENT ''First message must contain metadata'', response),
               svc_log svc LogLevel_Error ''PutChunk failed: first message missing metadata'' s)) s"

section \<open>GetChunk\<close>

text \<open>
  The sending loop, from byte \<open>offset\<close> and \<^verbatim>\<open>Write\<close> number \<open>k\<close> on: whether the stream broke, and the
  messages delivered so far.
\<close>

function GetChunk_send ::
  "(nat \<Rightarrow> bool) \<Rightarrow> byte list \<Rightarrow> nat \<Rightarrow> nat \<Rightarrow> GetChunkResponse list \<Rightarrow> bool \<times> GetChunkResponse list" where
  "GetChunk_send write_ok data offset k sent =
     (if offset < length data then
        let chunk_size = min (unat kStreamFrameSizeBytes) (length data - offset);
            frame = \<lparr>getr_protocol_version = kCurrentProtocolVersion,
                     getr_payload = Some (Get_data_chunk (take chunk_size (drop offset data)))\<rparr>
        in if \<not> write_ok k then (True, sent)
           else GetChunk_send write_ok data (offset + chunk_size) (Suc k) (sent @ [frame])
      else (False, sent))"
  by pat_completeness auto
termination
  by (relation "measure (\<lambda>(write_ok, data, offset, k, sent). length data - offset)")
     (auto simp: kStreamFrameSizeBytes_def)

declare GetChunk_send.simps [simp del]

definition GetChunk ::
  "'s StorageNodeService \<Rightarrow> ServerContext \<Rightarrow> GetChunkRequest \<Rightarrow> (nat \<Rightarrow> bool) \<Rightarrow>
   's \<Rightarrow> (grpc_Status \<times> GetChunkResponse list) run \<times> 's" where
  "GetChunk svc sctx request write_ok s =
     correlation_scope (service_logger svc) (GetCorrelationId sctx 0) (\<lambda>s.
       case RunPreamble svc (get_protocol_version request) None None s of
         (Some preamble_err, s) \<Rightarrow> (Returns (preamble_err, []), s)
       | (None, s) \<Rightarrow>
       case Parse (get_chunk_id request) of
         Err _ \<Rightarrow> (Returns (Status INVALID_ARGUMENT ''Invalid chunk_id'', []), s)
       | Ok cid \<Rightarrow>
       run_bind (Get (svc_store svc) cid s) (\<lambda>get_res s.
         case get_res of
           Err e \<Rightarrow>
             let status = MapStoreError (err_kind e);
                 meta_resp = \<lparr>getr_protocol_version = kCurrentProtocolVersion,
                   getr_payload = Some (Get_metadata \<lparr>get_total_size_bytes = 0, get_status = status\<rparr>)\<rparr>
             in (Returns (Status_OK, if write_ok 0 then [meta_resp] else []),
                 if status = CORRUPTION_DETECTED \<or> status = IO_ERROR
                 then svc_log svc LogLevel_Error (''GetChunk failed for '' @ id_hex cid @ '': '' @ err_message e) s
                 else svc_log svc LogLevel_Info (''GetChunk completed with '' @ err_message e) s)
         | Ok data \<Rightarrow>
             let meta_resp = \<lparr>getr_protocol_version = kCurrentProtocolVersion,
                   getr_payload = Some (Get_metadata \<lparr>get_total_size_bytes = of_nat (length data),
                                                       get_status = CS_OK\<rparr>)\<rparr>;
                 (broken, sent) = GetChunk_send write_ok data 0 1 (if write_ok 0 then [meta_resp] else []);
                 s1 = (if broken then svc_log svc LogLevel_Warn ''GetChunk stream broken by client'' s else s)
             in (Returns (Status_OK, sent),
                 svc_log svc LogLevel_Info (''GetChunk successful for '' @ id_hex cid @ '' in '' @
                   to_string (duration_ms sctx) @ ''ms'') s1))) s"

section \<open>VerifyChunk and DeleteChunk\<close>

definition VerifyChunk ::
  "'s StorageNodeService \<Rightarrow> ServerContext \<Rightarrow> VerifyChunkRequest \<Rightarrow>
   's \<Rightarrow> (grpc_Status \<times> VerifyChunkResponse) run \<times> 's" where
  "VerifyChunk svc sctx request s =
     correlation_scope (service_logger svc) (GetCorrelationId sctx 0) (\<lambda>s.
       let response = VerifyChunkResponse_default\<lparr>verr_protocol_version := kCurrentProtocolVersion\<rparr>
       in case RunPreamble svc (ver_protocol_version request) None None s of
            (Some preamble_err, s) \<Rightarrow> (Returns (preamble_err, response), s)
          | (None, s) \<Rightarrow>
       case Parse (ver_chunk_id request) of
         Err _ \<Rightarrow> (Returns (Status INVALID_ARGUMENT ''Invalid chunk_id'', response), s)
       | Ok cid \<Rightarrow>
       run_bind (VerifyOnly (svc_store svc) cid s) (\<lambda>ver_res s.
         case ver_res of
           Ok _ \<Rightarrow> (Returns (Status_OK, response\<lparr>verr_is_valid := True, verr_status := CS_OK\<rparr>),
                    svc_log svc LogLevel_Debug (''VerifyChunk OK for '' @ id_hex cid) s)
         | Err e \<Rightarrow> (Returns (Status_OK, response\<lparr>verr_is_valid := False,
                        verr_status := MapStoreError (err_kind e)\<rparr>),
                     svc_log svc LogLevel_Debug (''VerifyChunk failed for '' @ id_hex cid @ '': '' @ err_message e) s))) s"

definition DeleteChunk ::
  "'s StorageNodeService \<Rightarrow> ServerContext \<Rightarrow> DeleteChunkRequest \<Rightarrow>
   's \<Rightarrow> (grpc_Status \<times> DeleteChunkResponse) run \<times> 's" where
  "DeleteChunk svc sctx request s =
     correlation_scope (service_logger svc) (GetCorrelationId sctx 0) (\<lambda>s.
       let response = DeleteChunkResponse_default\<lparr>delr_protocol_version := kCurrentProtocolVersion\<rparr>
       in case Parse (del_chunk_id request) of
            Err _ \<Rightarrow> (Returns (Status INVALID_ARGUMENT ''Invalid chunk_id'', response), s)
          | Ok cid \<Rightarrow>
       case RunPreamble svc (del_protocol_version request) (Some (del_capability_token request)) (Some cid) s of
         (Some preamble_err, s) \<Rightarrow>
           if error_message preamble_err = ''CAPABILITY_DENIED''
           then (Returns (Status_OK, response\<lparr>delr_status := CAPABILITY_DENIED\<rparr>), s)
           else (Returns (preamble_err, response), s)
       | (None, s) \<Rightarrow>
       run_bind (Delete (svc_store svc) cid s) (\<lambda>del_res s.
         case del_res of
           Ok _ \<Rightarrow> (Returns (Status_OK, response\<lparr>delr_status := CS_OK\<rparr>),
                    svc_log svc LogLevel_Info (''DeleteChunk successful for '' @ id_hex cid @ '' in '' @
                      to_string (duration_ms sctx) @ ''ms'') s)
         | Err e \<Rightarrow> (Returns (Status_OK, response\<lparr>delr_status := MapStoreError (err_kind e)\<rparr>),
                     svc_log svc LogLevel_Error (''DeleteChunk failed for '' @ id_hex cid @ '': '' @ err_message e) s))) s"

section \<open>ReplicateChunk and GetNodeStats\<close>

type_synonym peer_node =
  "string \<Rightarrow> (string \<times> string) list \<Rightarrow> GetChunkRequest \<Rightarrow> GetChunkResponse list \<times> grpc_Status"

fun ReplicateChunk_read :: "GetChunkResponse list \<Rightarrow> byte list \<Rightarrow> byte list" where
  "ReplicateChunk_read [] payload = payload"
| "ReplicateChunk_read (get_resp # reader) payload =
     (case getr_payload get_resp of
        Some (Get_data_chunk data) \<Rightarrow> ReplicateChunk_read reader (payload @ data)
      | _ \<Rightarrow> ReplicateChunk_read reader payload)"

definition ReplicateChunk_store ::
  "'s StorageNodeService \<Rightarrow> ServerContext \<Rightarrow> ChunkId \<Rightarrow> byte list \<Rightarrow> ReplicateChunkResponse \<Rightarrow>
   's \<Rightarrow> (grpc_Status \<times> ReplicateChunkResponse) run \<times> 's" where
  "ReplicateChunk_store svc sctx cid payload response s =
     run_bind (Put (svc_store svc) cid payload s) (\<lambda>put_res s.
       case put_res of
         Ok _ \<Rightarrow> (Returns (Status_OK, response\<lparr>repr_status := CS_OK\<rparr>),
                  svc_log svc LogLevel_Info (''ReplicateChunk successful for '' @ id_hex cid @ '' in '' @
                    to_string (duration_ms sctx) @ ''ms'') s)
       | Err e \<Rightarrow> (Returns (Status_OK, response\<lparr>repr_status := MapStoreError (err_kind e)\<rparr>),
                   svc_log svc LogLevel_Error (''ReplicateChunk Put failed: '' @ err_message e) s))"

definition ReplicateChunk ::
  "'s StorageNodeService \<Rightarrow> peer_node \<Rightarrow> ServerContext \<Rightarrow> ReplicateChunkRequest \<Rightarrow>
   's \<Rightarrow> (grpc_Status \<times> ReplicateChunkResponse) run \<times> 's" where
  "ReplicateChunk svc peer sctx request s =
     correlation_scope (service_logger svc) (GetCorrelationId sctx 0) (\<lambda>s.
       let response = ReplicateChunkResponse_default\<lparr>repr_protocol_version := kCurrentProtocolVersion\<rparr>
       in case RunPreamble svc (rep_protocol_version request) None None s of
            (Some preamble_err, s) \<Rightarrow> (Returns (preamble_err, response), s)
          | (None, s) \<Rightarrow>
       case Parse (rep_chunk_id request) of
         Err _ \<Rightarrow> (Returns (Status INVALID_ARGUMENT ''Invalid chunk_id'', response), s)
       | Ok cid \<Rightarrow>
       let s = svc_log svc LogLevel_Info (''ReplicateChunk requested for '' @ id_hex cid @ '' from '' @
                 rep_source_node_address request) s;
           get_req = \<lparr>get_protocol_version = kCurrentProtocolVersion, get_chunk_id = id_hex cid\<rparr>;
           (reader, finish) = peer (rep_source_node_address request)
             [(kCorrelationIdMetadataKey, GetCorrelationId sctx 1)] get_req
       in case reader of
            [] \<Rightarrow> (Returns (Status_OK, response\<lparr>repr_status := SOURCE_UNREACHABLE\<rparr>),
                   svc_log svc LogLevel_Error ''ReplicateChunk failed: SOURCE_UNREACHABLE'' s)
          | get_resp # rest \<Rightarrow>
              if get_status (GetChunkResponse_metadata get_resp) \<noteq> CS_OK
              then (Returns (Status_OK, response\<lparr>repr_status := get_status (GetChunkResponse_metadata get_resp)\<rparr>),
                    svc_log svc LogLevel_Error (''ReplicateChunk source returned status: '' @
                      to_string (ChunkStatus_number (get_status (GetChunkResponse_metadata get_resp)))) s)
              else if get_total_size_bytes (GetChunkResponse_metadata get_resp) > max_chunk_bytes svc
              then (Returns (Status_OK, response\<lparr>repr_status := CHUNK_TOO_LARGE\<rparr>),
                    svc_log svc LogLevel_Warn ''ReplicateChunk source offered chunk too large'' s)
              else
                let payload = ReplicateChunk_read rest []
                in if error_code finish \<noteq> GRPC_OK
                   then (Returns (Status_OK, response\<lparr>repr_status := SOURCE_UNREACHABLE\<rparr>),
                         svc_log svc LogLevel_Error (''ReplicateChunk RPC failed: '' @ error_message finish) s)
                   else ReplicateChunk_store svc sctx cid payload response s) s"

definition GetNodeStats ::
  "'s StorageNodeService \<Rightarrow> ServerContext \<Rightarrow> GetNodeStatsRequest \<Rightarrow>
   's \<Rightarrow> (grpc_Status \<times> GetNodeStatsResponse) run \<times> 's" where
  "GetNodeStats svc sctx request s =
     correlation_scope (service_logger svc) (GetCorrelationId sctx 0) (\<lambda>s.
       let response = GetNodeStatsResponse_default\<lparr>statr_protocol_version := kCurrentProtocolVersion\<rparr>
       in case RunPreamble svc (stat_protocol_version request) None None s of
            (Some preamble_err, s) \<Rightarrow> (Returns (preamble_err, response), s)
          | (None, s) \<Rightarrow>
       run_bind (GetStats (svc_store svc) s) (\<lambda>stats s.
         (Returns (Status_OK, response\<lparr>statr_chunk_count := stats_chunk_count stats,
            statr_bytes_used := stats_bytes_used stats, statr_bytes_free := stats_bytes_free stats\<rparr>),
          svc_log svc LogLevel_Debug ''GetNodeStats completed'' s))) s"

end
