(* ===== verification/Storage_Service_Lemmas.thy ===== *)
theory Storage_Service_Lemmas
  imports Storage_Service
begin

text \<open>
  What the RPC handlers do to the store behind them. \<open>logged\<close> relates two states that differ by
  logger calls only; the case lemmas reduce each handler to at most one call of the store, and the
  locale \<open>storage_node\<close> turns them into statements on the stored contents for every store that
  keeps the \<open>chunk_store\<close> contract and does not notice its logger. It is interpreted on the local
  disk store and on the fault-injecting store around it.
\<close>

section \<open>Logging and scopes\<close>

definition logged :: "'s logger_ref \<Rightarrow> 's \<Rightarrow> 's \<Rightarrow> bool" where
  "logged ref s s' \<longleftrightarrow> (\<exists>gs. s' = fold (modify ref) gs s)"

lemma logged_refl [simp, intro]: "logged ref s s"
  unfolding logged_def by (rule exI [of _ "[]"]) simp

lemma logged_modify [intro]: "logged ref s s' \<Longrightarrow> logged ref s (modify ref g s')"
  unfolding logged_def by (metis fold_append fold_simps(1,2) o_apply)

lemma logged_trans: "logged ref s t \<Longrightarrow> logged ref t u \<Longrightarrow> logged ref s u"
  unfolding logged_def by (metis fold_append o_apply)

lemma logged_one [simp]: "logged ref s (modify ref g s)"
  by (intro logged_modify logged_refl)

lemma logged_induct [consumes 1, case_names refl modify]:
  assumes "logged ref s s'" "P s" "\<And>t g. P t \<Longrightarrow> P (modify ref g t)"
  shows "P s'"
proof -
  obtain gs where "s' = fold (modify ref) gs s" using assms(1) by (auto simp: logged_def)
  then show ?thesis using assms(2)
    by (induction gs arbitrary: s) (auto intro: assms(3))
qed

lemma correlation_scope_cases:
  assumes "correlation_scope ref cid block s = (r, s')"
  obtains s1 s2 where "logged ref s s1" "block s1 = (r, s2)" "logged ref s2 s'"
  using assms that [of "modify ref (\<lambda>lg. snd (WithCorrelationId cid lg)) s"]
  by (auto simp: correlation_scope_def Let_def split: prod.splits run.splits)

lemma RunPreamble_eq [simp]:
  "RunPreamble svc v token scoped s =
     (if v = 1 then None else Some (Status FAILED_PRECONDITION ''Unsupported protocol version''), s)"
  using CheckProtocolVersion_current [of v]
  by (simp add: RunPreamble_def ValidateCapabilityToken_def split: option.splits)

section \<open>PutChunk\<close>

definition put_stream_data :: "PutChunkRequest list \<Rightarrow> byte list" where
  "put_stream_data reader =
     concat (map (\<lambda>m. case put_payload m of Some (Put_data_chunk d) \<Rightarrow> d | _ \<Rightarrow> []) reader)"

lemma put_stream_data_simps [simp]:
  "put_stream_data [] = []"
  "put_stream_data (m # ms) = (case put_payload m of Some (Put_data_chunk d) \<Rightarrow> d | _ \<Rightarrow> []) @ put_stream_data ms"
  by (simp_all add: put_stream_data_def)

lemma PutChunk_read_eq:
  assumes "length payload \<le> unat limit"
  shows "PutChunk_read limit reader payload =
     (if length payload + length (put_stream_data reader) \<le> unat limit
      then Some (payload @ put_stream_data reader) else None)"
  using assms
  by (induction limit reader payload rule: PutChunk_read.induct)
     (auto split: option.splits PutPayload.splits)

text \<open>A stream that the handler hands to the store.\<close>

definition put_accepts :: "'s StorageNodeService \<Rightarrow> PutChunkRequest list \<Rightarrow> ChunkId \<Rightarrow> byte list \<Rightarrow> bool" where
  "put_accepts svc reader cid payload \<longleftrightarrow>
     (\<exists>first md rest. reader = first # rest \<and> put_payload first = Some (Put_metadata md) \<and>
        put_protocol_version first = 1 \<and> Parse (put_chunk_id md) = Ok cid \<and>
        put_total_size_bytes md \<le> max_chunk_bytes svc \<and>
        payload = put_stream_data rest \<and> length payload \<le> unat (max_chunk_bytes svc))"

definition put_response :: "(unit, ChunkStoreErrorDetail) Result \<Rightarrow> PutChunkResponse" where
  "put_response res = (case res of
      Ok _ \<Rightarrow> \<lparr>putr_protocol_version = 1, putr_status = CS_OK, putr_message = ''Success''\<rparr>
    | Err e \<Rightarrow> \<lparr>putr_protocol_version = 1, putr_status = MapStoreError (err_kind e), putr_message = err_message e\<rparr>)"

fun run_map :: "('a \<Rightarrow> 'b) \<Rightarrow> 'a run \<Rightarrow> 'b run" where
  "run_map f (Returns a) = Returns (f a)"
| "run_map f (Throws e) = Throws e"
| "run_map f Blocks = Blocks"

lemma PutChunk_store_cases:
  assumes "PutChunk_store svc sctx cid payload
      (PutChunkResponse_default\<lparr>putr_protocol_version := kCurrentProtocolVersion\<rparr>) s = (r, s')"
  obtains rp s2 where "Put (svc_store svc) cid payload s = (rp, s2)" "logged (service_logger svc) s2 s'"
    "r = run_map (\<lambda>res. (Status_OK, put_response res)) rp"
proof -
  obtain rp s2 where p: "Put (svc_store svc) cid payload s = (rp, s2)" by fastforce
  show thesis
  proof (rule that [OF p])
    show "logged (service_logger svc) s2 s'" "r = run_map (\<lambda>res. (Status_OK, put_response res)) rp"
      using assms p
      by (cases rp; auto simp: PutChunk_store_def put_response_def PutChunkResponse_default_def
          kCurrentProtocolVersion_def split: Result.splits if_splits)+
  qed
qed

lemma PutChunk_cases:
  assumes "PutChunk svc sctx reader s = (r, s')"
  obtains (rejected) st resp where "r = Returns (st, resp)" "error_code st \<noteq> GRPC_OK"
      "logged (service_logger svc) s s'" "\<And>cid payload. \<not> put_accepts svc reader cid payload"
  | (accepted) cid payload s1 rp s2 where "put_accepts svc reader cid payload"
      "logged (service_logger svc) s s1" "Put (svc_store svc) cid payload s1 = (rp, s2)"
      "logged (service_logger svc) s2 s'" "r = run_map (\<lambda>res. (Status_OK, put_response res)) rp"
proof -
  let ?resp = "PutChunkResponse_default\<lparr>putr_protocol_version := kCurrentProtocolVersion\<rparr>"
  let ?log = "service_logger svc"
  show thesis
    using assms unfolding PutChunk_def
  proof (cases rule: correlation_scope_cases)
    case (1 s1 s2)
    have "(\<exists>st resp. r = Returns (st, resp) \<and> error_code st \<noteq> GRPC_OK \<and> logged ?log s1 s2 \<and>
             (\<forall>cid payload. \<not> put_accepts svc reader cid payload)) \<or>
          (\<exists>cid payload. put_accepts svc reader cid payload \<and>
             PutChunk_store svc sctx cid payload ?resp s1 = (r, s2))"
      using 1(2)
      by (cases reader)
         (auto simp: Let_def put_accepts_def PutChunk_read_eq not_less
            split: option.splits PutPayload.splits Result.splits if_splits)
    then show thesis
    proof (elim disjE exE conjE)
      fix st resp
      assume "r = Returns (st, resp)" "error_code st \<noteq> GRPC_OK" "logged ?log s1 s2"
        "\<forall>cid payload. \<not> put_accepts svc reader cid payload"
      then show thesis using rejected logged_trans [OF 1(1) logged_trans [OF _ 1(3)]] by blast
    next
      fix cid payload
      assume acc: "put_accepts svc reader cid payload" and st: "PutChunk_store svc sctx cid payload ?resp s1 = (r, s2)"
      from st obtain rp s3 where "Put (svc_store svc) cid payload s1 = (rp, s3)" "logged ?log s3 s2"
          "r = run_map (\<lambda>res. (Status_OK, put_response res)) rp"
        by (rule PutChunk_store_cases)
      then show thesis using accepted [OF acc 1(1)] logged_trans [OF _ 1(3)] by blast
    qed
  qed
qed

section \<open>GetChunk\<close>

abbreviation data_frame :: "byte list \<Rightarrow> GetChunkResponse" where
  "data_frame d \<equiv> \<lparr>getr_protocol_version = kCurrentProtocolVersion, getr_payload = Some (Get_data_chunk d)\<rparr>"

abbreviation meta_frame :: "nat \<Rightarrow> ChunkStatus \<Rightarrow> GetChunkResponse" where
  "meta_frame n st \<equiv> \<lparr>getr_protocol_version = kCurrentProtocolVersion,
     getr_payload = Some (Get_metadata \<lparr>get_total_size_bytes = of_nat n, get_status = st\<rparr>)\<rparr>"

text \<open>
  The frames sent are consecutive pieces of the data, none empty and none larger than the frame
  size; only a refused write cuts them short.
\<close>

lemma GetChunk_send_frames:
  assumes "GetChunk_send write_ok data offset k sent = (broken, out)" "offset \<le> length data"
  obtains fs where "out = sent @ map data_frame fs" "prefix (concat fs) (drop offset data)"
    "\<forall>f \<in> set fs. f \<noteq> [] \<and> length f \<le> 262144" "\<not> broken \<Longrightarrow> concat fs = drop offset data"
    "\<forall>j \<ge> k. write_ok j \<Longrightarrow> \<not> broken"
proof -
  have "\<exists>fs. out = sent @ map data_frame fs \<and> prefix (concat fs) (drop offset data) \<and>
      (\<forall>f \<in> set fs. f \<noteq> [] \<and> length f \<le> 262144) \<and> (\<not> broken \<longrightarrow> concat fs = drop offset data) \<and>
      ((\<forall>j \<ge> k. write_ok j) \<longrightarrow> \<not> broken)"
    using assms
  proof (induction write_ok data offset k sent rule: GetChunk_send.induct)
    case (1 write_ok data offset k sent)
    define n where "n = min (unat kStreamFrameSizeBytes) (length data - offset)"
    show ?case
    proof (cases "offset < length data \<and> write_ok k")
      case True
      have small: "n \<le> 262144" "0 < n" using True by (simp_all add: n_def kStreamFrameSizeBytes_def)
      have step: "GetChunk_send write_ok data (offset + n) (Suc k) (sent @ [data_frame (take n (drop offset data))])
          = (broken, out)"
        using 1(2) True by (simp add: GetChunk_send.simps [of _ _ offset] n_def Let_def)
      have le: "offset + n \<le> length data" by (simp add: n_def) (use True in linarith)
      have IH: "\<exists>fs. out = (sent @ [data_frame (take n (drop offset data))]) @ map data_frame fs \<and>
          prefix (concat fs) (drop (offset + n) data) \<and> (\<forall>f \<in> set fs. f \<noteq> [] \<and> length f \<le> 262144) \<and>
          (\<not> broken \<longrightarrow> concat fs = drop (offset + n) data) \<and> ((\<forall>j \<ge> Suc k. write_ok j) \<longrightarrow> \<not> broken)"
        by (rule 1(1)) (use True step le in \<open>simp_all add: n_def\<close>)
      then obtain fs where fs: "out = (sent @ [data_frame (take n (drop offset data))]) @ map data_frame fs"
          "prefix (concat fs) (drop (offset + n) data)" "\<forall>f \<in> set fs. f \<noteq> [] \<and> length f \<le> 262144"
          "\<not> broken \<longrightarrow> concat fs = drop (offset + n) data" "(\<forall>j \<ge> Suc k. write_ok j) \<longrightarrow> \<not> broken"
        by blast
      define h where "h = take n (drop offset data)"
      have "drop offset data = h @ drop (offset + n) data" unfolding h_def
        by (metis add.commute append_take_drop_id drop_drop)
      moreover have "h \<noteq> []" "length h \<le> 262144" using small True by (auto simp: h_def)
      ultimately show ?thesis
        using fs unfolding h_def [symmetric] by (intro exI [of _ "h # fs"]) (auto intro: Suc_leD)
    next
      case False
      then show ?thesis
        using 1(2,3) by (intro exI [of _ "[]"]) (auto simp: GetChunk_send.simps Let_def split: if_splits)
    qed
  qed
  then show thesis using that by blast
qed

definition get_frames :: "(nat \<Rightarrow> bool) \<Rightarrow> (byte list, ChunkStoreErrorDetail) Result \<Rightarrow> GetChunkResponse list" where
  "get_frames write_ok res = (case res of
      Err e \<Rightarrow> if write_ok 0 then [meta_frame 0 (MapStoreError (err_kind e))] else []
    | Ok d \<Rightarrow> snd (GetChunk_send write_ok d 0 1 (if write_ok 0 then [meta_frame (length d) CS_OK] else [])))"

lemma GetChunk_cases:
  assumes "GetChunk svc sctx request write_ok s = (r, s')"
  obtains (rejected) st where "r = Returns (st, [])" "error_code st \<noteq> GRPC_OK" "logged (service_logger svc) s s'"
      "get_protocol_version request = 1 \<Longrightarrow> \<not> IsOk (Parse (get_chunk_id request))"
  | (asked) cid s1 rg s2 where "get_protocol_version request = 1" "Parse (get_chunk_id request) = Ok cid"
      "logged (service_logger svc) s s1" "Get (svc_store svc) cid s1 = (rg, s2)"
      "logged (service_logger svc) s2 s'" "r = run_map (\<lambda>res. (Status_OK, get_frames write_ok res)) rg"
proof -
  let ?log = "service_logger svc"
  show thesis
    using assms unfolding GetChunk_def
  proof (cases rule: correlation_scope_cases)
    case (1 s1 s2)
    show thesis
    proof (cases "get_protocol_version request = 1 \<and> IsOk (Parse (get_chunk_id request))")
      case False
      from False 1(2) obtain st where st: "s2 = s1" "r = Returns (st, [])" "error_code st \<noteq> GRPC_OK"
        by (auto simp: IsOk_iff split: if_splits Result.splits)
      show thesis
        by (rule rejected [OF st(2,3)]) (use False logged_trans [OF 1(1)] 1(3) st(1) in simp_all)
    next
      case True
      then obtain cid where ok: "get_protocol_version request = 1" "Parse (get_chunk_id request) = Ok cid"
        by (auto simp: IsOk_iff)
      obtain rg s3 where g: "Get (svc_store svc) cid s1 = (rg, s3)" by fastforce
      have "logged ?log s3 s2 \<and> r = run_map (\<lambda>res. (Status_OK, get_frames write_ok res)) rg"
        using 1(2) ok g by (cases rg) (auto simp: get_frames_def Let_def split: Result.splits if_splits prod.splits)
      then show thesis using asked [OF ok 1(1) g] logged_trans [OF _ 1(3)] by blast
    qed
  qed
qed

section \<open>VerifyChunk, DeleteChunk and GetNodeStats\<close>

lemma VerifyChunk_cases:
  assumes "VerifyChunk svc sctx request s = (r, s')"
  obtains (rejected) st resp where "r = Returns (st, resp)" "error_code st \<noteq> GRPC_OK" "\<not> verr_is_valid resp"
      "logged (service_logger svc) s s'" "ver_protocol_version request = 1 \<Longrightarrow> \<not> IsOk (Parse (ver_chunk_id request))"
  | (asked) cid s1 rv s2 where "Parse (ver_chunk_id request) = Ok cid"
      "logged (service_logger svc) s s1" "VerifyOnly (svc_store svc) cid s1 = (rv, s2)"
      "logged (service_logger svc) s2 s'"
      "r = run_map (\<lambda>res. (Status_OK, \<lparr>verr_protocol_version = 1, verr_is_valid = IsOk res,
             verr_status = (case res of Ok _ \<Rightarrow> CS_OK | Err e \<Rightarrow> MapStoreError (err_kind e))\<rparr>)) rv"
      "ver_protocol_version request = 1"
  using assms unfolding VerifyChunk_def
proof (cases rule: correlation_scope_cases)
  case (1 s1 s2)
  show thesis
  proof (cases "ver_protocol_version request = 1 \<and> IsOk (Parse (ver_chunk_id request))")
    case False
    from False 1(2) obtain st resp where st: "s2 = s1" "r = Returns (st, resp)" "error_code st \<noteq> GRPC_OK"
        "\<not> verr_is_valid resp"
      by (auto simp: IsOk_iff Let_def VerifyChunkResponse_default_def split: if_splits Result.splits)
    show thesis by (rule rejected [OF st(2-4)]) (use False logged_trans [OF 1(1)] 1(3) st(1,3) in simp_all)
  next
    case True
    then obtain cid where ok: "ver_protocol_version request = 1" "Parse (ver_chunk_id request) = Ok cid"
      by (auto simp: IsOk_iff)
    obtain rv s3 where v: "VerifyOnly (svc_store svc) cid s1 = (rv, s3)" by fastforce
    have "logged (service_logger svc) s3 s2 \<and>
        r = run_map (\<lambda>res. (Status_OK, \<lparr>verr_protocol_version = 1, verr_is_valid = IsOk res,
             verr_status = (case res of Ok _ \<Rightarrow> CS_OK | Err e \<Rightarrow> MapStoreError (err_kind e))\<rparr>)) rv"
      using 1(2) ok v
      by (cases rv) (auto simp: Let_def VerifyChunkResponse_default_def kCurrentProtocolVersion_def split: Result.splits)
    then show thesis using asked [OF ok(2) 1(1) v] ok(1) logged_trans [OF _ 1(3)] by blast
  qed
qed

lemma DeleteChunk_cases:
  assumes "DeleteChunk svc sctx request s = (r, s')"
  obtains (rejected) st resp where "r = Returns (st, resp)" "error_code st \<noteq> GRPC_OK"
      "logged (service_logger svc) s s'" "del_protocol_version request = 1 \<Longrightarrow> \<not> IsOk (Parse (del_chunk_id request))"
  | (asked) cid s1 rd s2 where "del_protocol_version request = 1" "Parse (del_chunk_id request) = Ok cid"
      "logged (service_logger svc) s s1" "Delete (svc_store svc) cid s1 = (rd, s2)"
      "logged (service_logger svc) s2 s'"
      "r = run_map (\<lambda>res. (Status_OK, \<lparr>delr_protocol_version = 1,
             delr_status = (case res of Ok _ \<Rightarrow> CS_OK | Err e \<Rightarrow> MapStoreError (err_kind e))\<rparr>)) rd"
  using assms unfolding DeleteChunk_def
proof (cases rule: correlation_scope_cases)
  case (1 s1 s2)
  show thesis
  proof (cases "del_protocol_version request = 1 \<and> IsOk (Parse (del_chunk_id request))")
    case False
    from False 1(2) obtain st resp where st: "s2 = s1" "r = Returns (st, resp)" "error_code st \<noteq> GRPC_OK"
      by (auto simp: IsOk_iff Let_def split: if_splits Result.splits)
    show thesis by (rule rejected [OF st(2-3)]) (use False logged_trans [OF 1(1)] 1(3) st(1,3) in simp_all)
  next
    case True
    then obtain cid where ok: "del_protocol_version request = 1" "Parse (del_chunk_id request) = Ok cid"
      by (auto simp: IsOk_iff)
    obtain rd s3 where d: "Delete (svc_store svc) cid s1 = (rd, s3)" by fastforce
    have "logged (service_logger svc) s3 s2 \<and>
        r = run_map (\<lambda>res. (Status_OK, \<lparr>delr_protocol_version = 1,
             delr_status = (case res of Ok _ \<Rightarrow> CS_OK | Err e \<Rightarrow> MapStoreError (err_kind e))\<rparr>)) rd"
      using 1(2) ok d
      by (cases rd) (auto simp: Let_def DeleteChunkResponse_default_def kCurrentProtocolVersion_def split: Result.splits)
    then show thesis using asked [OF ok 1(1) d] logged_trans [OF _ 1(3)] by blast
  qed
qed

lemma GetNodeStats_cases:
  assumes "GetNodeStats svc sctx request s = (r, s')"
  obtains (rejected) st resp where "r = Returns (st, resp)" "error_code st \<noteq> GRPC_OK" "logged (service_logger svc) s s'"
      "stat_protocol_version request \<noteq> 1"
  | (asked) s1 rs s2 where "logged (service_logger svc) s s1" "GetStats (svc_store svc) s1 = (rs, s2)"
      "logged (service_logger svc) s2 s'"
      "r = run_map (\<lambda>stats. (Status_OK, \<lparr>statr_protocol_version = 1, statr_chunk_count = stats_chunk_count stats,
             statr_bytes_used = stats_bytes_used stats, statr_bytes_free = stats_bytes_free stats\<rparr>)) rs"
      "stat_protocol_version request = 1"
  using assms unfolding GetNodeStats_def
proof (cases rule: correlation_scope_cases)
  case (1 s1 s2)
  show thesis
  proof (cases "stat_protocol_version request = 1")
    case False
    with 1(2) obtain st resp where "s2 = s1" "r = Returns (st, resp)" "error_code st \<noteq> GRPC_OK"
      by (auto simp: Let_def)
    then show thesis using rejected False logged_trans [OF 1(1)] 1(3) by metis
  next
    case True
    obtain rs s3 where g: "GetStats (svc_store svc) s1 = (rs, s3)" by fastforce
    have "logged (service_logger svc) s3 s2 \<and>
        r = run_map (\<lambda>stats. (Status_OK, \<lparr>statr_protocol_version = 1, statr_chunk_count = stats_chunk_count stats,
             statr_bytes_used = stats_bytes_used stats, statr_bytes_free = stats_bytes_free stats\<rparr>)) rs"
      using 1(2) True g
      by (cases rs) (auto simp: Let_def GetNodeStatsResponse_default_def kCurrentProtocolVersion_def)
    then show thesis using asked [OF 1(1) g] True logged_trans [OF _ 1(3)] by blast
  qed
qed

section \<open>ReplicateChunk\<close>

definition get_stream_data :: "GetChunkResponse list \<Rightarrow> byte list" where
  "get_stream_data reader =
     concat (map (\<lambda>m. case getr_payload m of Some (Get_data_chunk d) \<Rightarrow> d | _ \<Rightarrow> []) reader)"

lemma get_stream_data_simps [simp]:
  "get_stream_data [] = []"
  "get_stream_data (m # ms) = (case getr_payload m of Some (Get_data_chunk d) \<Rightarrow> d | _ \<Rightarrow> []) @ get_stream_data ms"
  "get_stream_data (map data_frame fs) = concat fs"
  by (simp_all add: get_stream_data_def comp_def)

lemma ReplicateChunk_read_eq: "ReplicateChunk_read reader payload = payload @ get_stream_data reader"
  by (induction reader payload rule: ReplicateChunk_read.induct) (auto split: option.splits GetPayload.splits)

text \<open>A peer's answer that the handler hands to the store.\<close>

definition replicate_accepts ::
  "'s StorageNodeService \<Rightarrow> GetChunkResponse list \<times> grpc_Status \<Rightarrow> byte list \<Rightarrow> bool" where
  "replicate_accepts svc answer payload \<longleftrightarrow>
     (\<exists>first rest. fst answer = first # rest \<and> error_code (snd answer) = GRPC_OK \<and>
        get_status (GetChunkResponse_metadata first) = CS_OK \<and>
        get_total_size_bytes (GetChunkResponse_metadata first) \<le> max_chunk_bytes svc \<and>
        payload = get_stream_data rest)"

lemma ReplicateChunk_cases:
  assumes "ReplicateChunk svc peer sctx request s = (r, s')"
  obtains (rejected) st resp where "r = Returns (st, resp)" "error_code st = GRPC_OK \<Longrightarrow> repr_status resp \<noteq> CS_OK"
      "logged (service_logger svc) s s'"
      "\<And>cid payload. rep_protocol_version request = 1 \<Longrightarrow> Parse (rep_chunk_id request) = Ok cid \<Longrightarrow>
         \<not> replicate_accepts svc (peer (rep_source_node_address request)
            [(kCorrelationIdMetadataKey, GetCorrelationId sctx 1)]
            \<lparr>get_protocol_version = kCurrentProtocolVersion, get_chunk_id = id_hex cid\<rparr>) payload"
  | (asked) cid payload s1 rp s2 where "rep_protocol_version request = 1" "Parse (rep_chunk_id request) = Ok cid"
      "replicate_accepts svc (peer (rep_source_node_address request)
          [(kCorrelationIdMetadataKey, GetCorrelationId sctx 1)]
          \<lparr>get_protocol_version = kCurrentProtocolVersion, get_chunk_id = id_hex cid\<rparr>) payload"
      "logged (service_logger svc) s s1" "Put (svc_store svc) cid payload s1 = (rp, s2)"
      "logged (service_logger svc) s2 s'"
      "r = run_map (\<lambda>res. (Status_OK, \<lparr>repr_protocol_version = 1,
             repr_status = (case res of Ok _ \<Rightarrow> CS_OK | Err e \<Rightarrow> MapStoreError (err_kind e))\<rparr>)) rp"
  using assms unfolding ReplicateChunk_def
proof (cases rule: correlation_scope_cases)
  case (1 s1 s2)
  let ?log = "service_logger svc"
    and ?resp = "ReplicateChunkResponse_default\<lparr>repr_protocol_version := kCurrentProtocolVersion\<rparr>"
  show thesis
  proof (cases "rep_protocol_version request = 1 \<and> IsOk (Parse (rep_chunk_id request))")
    case False
    from False 1(2) obtain st resp where st: "s2 = s1" "r = Returns (st, resp)" "error_code st \<noteq> GRPC_OK"
      by (auto simp: IsOk_iff Let_def split: if_splits Result.splits)
    show thesis by (rule rejected [OF st(2)]) (use False logged_trans [OF 1(1)] 1(3) st(1,3) in simp_all)
  next
    case True
    then obtain cid where ok: "rep_protocol_version request = 1" "Parse (rep_chunk_id request) = Ok cid"
      by (auto simp: IsOk_iff)
    let ?answer = "peer (rep_source_node_address request)
          [(kCorrelationIdMetadataKey, GetCorrelationId sctx 1)]
          \<lparr>get_protocol_version = kCurrentProtocolVersion, get_chunk_id = id_hex cid\<rparr>"
    define s3 where "s3 = svc_log svc LogLevel_Info (''ReplicateChunk requested for '' @ id_hex cid @ '' from '' @
                 rep_source_node_address request) s1"
    have l3: "logged ?log s s3" unfolding s3_def by (intro logged_modify 1(1))
    consider (bad) st resp where "r = Returns (st, resp)" "repr_status resp \<noteq> CS_OK" "logged ?log s3 s2"
          "\<forall>payload. \<not> replicate_accepts svc ?answer payload"
      | (good) payload where "replicate_accepts svc ?answer payload"
          "ReplicateChunk_store svc sctx cid payload ?resp s3 = (r, s2)"
      using 1(2) ok unfolding s3_def
      by (cases "fst ?answer")
         (auto simp: Let_def replicate_accepts_def ReplicateChunk_read_eq split_def not_less [symmetric]
            split: if_splits)
    then show thesis
    proof cases
      case bad
      show thesis
        by (rule rejected [OF bad(1)]) (use bad(2,4) ok logged_trans [OF l3 logged_trans [OF bad(3) 1(3)]] in simp_all)
    next
      case good
      obtain rp s4 where p: "Put (svc_store svc) cid payload s3 = (rp, s4)" by fastforce
      have "logged ?log s4 s2 \<and> r = run_map (\<lambda>res. (Status_OK, \<lparr>repr_protocol_version = 1,
             repr_status = (case res of Ok _ \<Rightarrow> CS_OK | Err e \<Rightarrow> MapStoreError (err_kind e))\<rparr>)) rp"
        using good(2) p
        by (cases rp) (auto simp: ReplicateChunk_store_def ReplicateChunkResponse_default_def
            kCurrentProtocolVersion_def split: Result.splits)
      then show thesis using asked [OF ok good(1) l3 p] logged_trans [OF _ 1(3)] by blast
    qed
  qed
qed

end
