(* ===== verification/Storage_Node.thy ===== *)
theory Storage_Node
  imports Storage_Service_Lemmas
begin

text \<open>
  A storage node as a whole. \<open>rpc_step\<close> is one remote call, whatever the request, the client's
  stream and the peer's answer; the locale \<open>storage_node\<close> holds the laws a service relies on and
  what follows from them for every sequence of calls. The interpretations put the two stores of
  the repository behind the service.
\<close>

inductive rpc_step :: "'s StorageNodeService \<Rightarrow> 's \<Rightarrow> 's \<Rightarrow> bool" for svc where
  rpc_put: "PutChunk svc sctx reader s = (r, s') \<Longrightarrow> rpc_step svc s s'"
| rpc_get: "GetChunk svc sctx greq write_ok s = (r, s') \<Longrightarrow> rpc_step svc s s'"
| rpc_verify: "VerifyChunk svc sctx vreq s = (r, s') \<Longrightarrow> rpc_step svc s s'"
| rpc_delete: "DeleteChunk svc sctx dreq s = (r, s') \<Longrightarrow> rpc_step svc s s'"
| rpc_replicate: "ReplicateChunk svc peer sctx rreq s = (r, s') \<Longrightarrow> rpc_step svc s s'"
| rpc_stats: "GetNodeStats svc sctx sreq s = (r, s') \<Longrightarrow> rpc_step svc s s'"

inductive_cases rpc_stepE: "rpc_step svc s s'"

lemma MapStoreError_not_ok [simp]: "MapStoreError k \<noteq> CS_OK"
  by (cases k) simp_all

lemma put_response_ok: "putr_status (put_response res) = CS_OK \<longleftrightarrow> res = Ok ()"
  by (cases res) (simp_all add: put_response_def)

lemma put_accepts_wf: "put_accepts svc reader cid payload \<Longrightarrow> ChunkId_wf cid"
  by (auto simp: put_accepts_def dest: Parse_OkD)

lemma run_map_Returns: "run_map f m = Returns b \<longleftrightarrow> (\<exists>a. m = Returns a \<and> b = f a)"
  by (cases m) auto

lemma GetNodeStats_logged:
  assumes "GetNodeStats svc sctx request s = (r, s')"
  shows "logged (service_logger svc) s s' \<or>
    (\<exists>s1 rs s2. logged (service_logger svc) s s1 \<and> GetStats (svc_store svc) s1 = (rs, s2) \<and>
       logged (service_logger svc) s2 s')"
  using assms by (cases rule: GetNodeStats_cases) auto

text \<open>
  How the bytes under one address may change: not at all, by removal, or from absent to bytes that
  hash to the address.
\<close>

definition sound_change ::
  "(byte list \<Rightarrow> byte list run) \<Rightarrow> (ChunkId \<Rightarrow> byte list option) \<Rightarrow> (ChunkId \<Rightarrow> byte list option) \<Rightarrow> ChunkId \<Rightarrow> bool"
where
  "sound_change hash c c' x \<longleftrightarrow>
     c' x = c x \<or> c' x = None \<or> (c x = None \<and> (\<exists>d. c' x = Some d \<and> hash d = Returns (id_digest x)))"

locale storage_node = chunk_store store hash content inv
  for store :: "'s IChunkStore" and hash :: "byte list \<Rightarrow> byte list run"
    and content :: "'s \<Rightarrow> ChunkId \<Rightarrow> byte list option" and inv :: "'s \<Rightarrow> bool" +
  fixes log :: "'s logger_ref"
  assumes log_inv: "inv (modify log g s) = inv s"
    and log_content: "content (modify log g s) = content s"
begin

abbreviation serves :: "'s StorageNodeService \<Rightarrow> bool" where
  "serves svc \<equiv> svc_store svc = store \<and> service_logger svc = log"

lemma logged_same: "logged log s s' \<Longrightarrow> inv s' = inv s \<and> content s' = content s"
  by (induction rule: logged_induct) (simp_all add: log_inv log_content)

abbreviation sound :: "'s \<Rightarrow> 's \<Rightarrow> bool" where
  "sound s s' \<equiv> inv s' \<and> (\<forall>x. ChunkId_wf x \<longrightarrow> sound_change hash (content s) (content s') x)"

lemma put_change:
  assumes "inv s" "ChunkId_wf cid" "Put store cid d s = (r, s')"
  shows "inv s'"
    and "ChunkId_wf x \<Longrightarrow> content s' x = content s x \<or>
           (r = Returns (Ok ()) \<and> x = cid \<and> content s x = None \<and> content s' x = Some d \<and>
            hash d = Returns (id_digest x))"
proof -
  show "inv s'" using put_inv [OF assms(1,2), of d] assms(3) by simp
  show "content s' x = content s x \<or>
      (r = Returns (Ok ()) \<and> x = cid \<and> content s x = None \<and> content s' x = Some d \<and>
       hash d = Returns (id_digest x))" if "ChunkId_wf x"
  proof (cases "r = Returns (Ok ())")
    case True
    with put_ok [OF assms(1,2) that] assms(3) show ?thesis by auto
  next
    case False
    with put_not_ok [OF assms(1,2) that assms(3)] show ?thesis by simp
  qed
qed

lemma PutChunk_sound:
  assumes "serves svc" "inv s" "PutChunk svc sctx reader s = (r, s')"
  shows "sound s s'"
  using assms(3)
proof (cases rule: PutChunk_cases)
  case (rejected st resp)
  then show ?thesis using logged_same assms(1,2) by (simp add: sound_change_def)
next
  case (accepted cid payload s1 rp s2)
  have s1: "inv s1" "content s1 = content s" using logged_same accepted(2) assms(1,2) by auto
  have s': "inv s' = inv s2" "content s' = content s2" using logged_same accepted(4) assms(1) by auto
  have "Put store cid payload s1 = (rp, s2)" using accepted(3) assms(1) by simp
  note change = put_change [OF s1(1) put_accepts_wf [OF accepted(1)] this]
  show ?thesis unfolding sound_change_def s' s1(2) [symmetric] using change by blast
qed

lemma PutChunk_ok:
  assumes "serves svc" "inv s" "PutChunk svc sctx reader s = (Returns (st, resp), s')"
    "error_code st = GRPC_OK" "putr_status resp = CS_OK"
  obtains cid d where "put_accepts svc reader cid d" "hash d = Returns (id_digest cid)"
    "content s cid = None \<Longrightarrow> content s' cid = Some d" "content s cid \<noteq> None \<Longrightarrow> content s' cid = content s cid"
  using assms(3)
proof (cases rule: PutChunk_cases)
  case (rejected st' resp')
  then show thesis using assms(4) by simp
next
  case (accepted cid payload s1 rp s2)
  have s1: "inv s1" "content s1 = content s" using logged_same accepted(2) assms(1,2) by auto
  have s': "content s' = content s2" using logged_same accepted(4) assms(1) by auto
  have "rp = Returns (Ok ())"
    using accepted(5) [symmetric] assms(5) by (auto simp: run_map_Returns put_response_ok)
  with accepted(3) assms(1) have "Put store cid payload s1 = (Returns (Ok ()), s2)" by simp
  note put = put_ok [OF s1(1) _ _ this, of cid]
  from put_accepts_wf [OF accepted(1)] show thesis
    using that [OF accepted(1)] put s1(2) s' by simp
qed

lemma ReplicateChunk_sound:
  assumes "serves svc" "inv s" "ReplicateChunk svc peer sctx request s = (r, s')"
  shows "sound s s'"
  using assms(3)
proof (cases rule: ReplicateChunk_cases)
  case (rejected st resp)
  then show ?thesis using logged_same assms(1,2) by (simp add: sound_change_def)
next
  case (asked cid payload s1 rp s2)
  have s1: "inv s1" "content s1 = content s" using logged_same asked(4) assms(1,2) by auto
  have s': "inv s' = inv s2" "content s' = content s2" using logged_same asked(6) assms(1) by auto
  have "Put store cid payload s1 = (rp, s2)" using asked(5) assms(1) by simp
  note change = put_change [OF s1(1) Parse_OkD(1) [OF asked(2)] this]
  show ?thesis unfolding sound_change_def s' s1(2) [symmetric] using change by blast
qed

lemma DeleteChunk_sound:
  assumes "serves svc" "inv s" "DeleteChunk svc sctx request s = (r, s')"
  shows "sound s s'"
  using assms(3)
proof (cases rule: DeleteChunk_cases)
  case (rejected st resp)
  then show ?thesis using logged_same assms(1,2) by (simp add: sound_change_def)
next
  case (asked cid s1 rd s2)
  have s1: "inv s1" "content s1 = content s" using logged_same asked(3) assms(1,2) by auto
  have s': "inv s' = inv s2" "content s' = content s2" using logged_same asked(5) assms(1) by auto
  have del: "Delete store cid s1 = (rd, s2)" using asked(4) assms(1) by simp
  note wf = Parse_OkD(1) [OF asked(2)]
  have "inv s2" using delete_inv [OF s1(1) wf] del by simp
  then show ?thesis
    unfolding sound_change_def s' s1(2) [symmetric] using delete_content [OF s1(1) wf _ del] by blast
qed

text \<open>The reading handlers leave the contents alone.\<close>

lemma reading_handlers_frame:
  assumes "serves svc" "inv s"
  shows "GetChunk svc sctx greq write_ok s = (rg, s') \<Longrightarrow> inv s' \<and> content s' = content s"
    and "VerifyChunk svc sctx vreq s = (rv, s') \<Longrightarrow> inv s' \<and> content s' = content s"
    and "GetNodeStats svc sctx sreq s = (rs, s') \<Longrightarrow> inv s' \<and> content s' = content s"
proof -
  show "inv s' \<and> content s' = content s" if "GetChunk svc sctx greq write_ok s = (rg, s')"
    using that
  proof (cases rule: GetChunk_cases)
    case (asked cid s1 r s2)
    then show ?thesis
      using get_frame [of s1 cid] logged_same [of s s1] logged_same [of s2 s'] assms by simp
  qed (use logged_same assms in auto)
  show "inv s' \<and> content s' = content s" if "VerifyChunk svc sctx vreq s = (rv, s')"
    using that
  proof (cases rule: VerifyChunk_cases)
    case (asked cid s1 r s2)
    then show ?thesis
      using verify_frame [of s1 cid] logged_same [of s s1] logged_same [of s2 s'] assms by simp
  qed (use logged_same assms in auto)
  show "inv s' \<and> content s' = content s" if "GetNodeStats svc sctx sreq s = (rs, s')"
    using GetNodeStats_logged [OF that] assms
  proof (elim disjE exE conjE)
    fix s1 r s2
    assume "logged (service_logger svc) s s1" "GetStats (svc_store svc) s1 = (r, s2)"
      "logged (service_logger svc) s2 s'"
    then show ?thesis
      using stats_frame [of s1] logged_same [of s s1] logged_same [of s2 s'] assms by simp
  qed (use logged_same assms in auto)
qed

lemma rpc_step_sound:
  assumes "rpc_step svc s s'" "serves svc" "inv s"
  shows "sound s s'"
  using assms(1)
proof (cases rule: rpc_step.cases)
  case (rpc_put sctx reader r)
  then show ?thesis by (rule PutChunk_sound [OF assms(2,3)])
next
  case (rpc_get sctx greq write_ok r)
  then show ?thesis using reading_handlers_frame(1) [OF assms(2,3)] by (simp add: sound_change_def)
next
  case (rpc_verify sctx vreq r)
  then show ?thesis using reading_handlers_frame(2) [OF assms(2,3)] by (simp add: sound_change_def)
next
  case (rpc_delete sctx dreq r)
  then show ?thesis by (rule DeleteChunk_sound [OF assms(2,3)])
next
  case (rpc_replicate peer sctx rreq r)
  then show ?thesis by (rule ReplicateChunk_sound [OF assms(2,3)])
next
  case (rpc_stats sctx sreq r)
  then show ?thesis using reading_handlers_frame(3) [OF assms(2,3)] by (simp add: sound_change_def)
qed

lemma rpc_run_sound:
  assumes "(rpc_step svc)\<^sup>*\<^sup>* s s'" "serves svc" "inv s"
    "\<And>x d. ChunkId_wf x \<Longrightarrow> content s x = Some d \<Longrightarrow> hash d = Returns (id_digest x)"
  shows "inv s'" and "ChunkId_wf x \<Longrightarrow> content s' x = Some d \<Longrightarrow> hash d = Returns (id_digest x)"
proof -
  have "inv s' \<and> (\<forall>x d. ChunkId_wf x \<and> content s' x = Some d \<longrightarrow> hash d = Returns (id_digest x))"
    using assms(1)
  proof (induction rule: rtranclp_induct)
    case base
    then show ?case using assms(3,4) by blast
  next
    case (step t u)
    then have t: "inv t" "\<And>x d. ChunkId_wf x \<Longrightarrow> content t x = Some d \<Longrightarrow> hash d = Returns (id_digest x)"
      by blast+
    have u: "sound t u" by (rule rpc_step_sound [OF step(2) assms(2) t(1)])
    have "hash d = Returns (id_digest x)" if "ChunkId_wf x" "content u x = Some d" for x d
      using u that t(2) unfolding sound_change_def by (metis option.distinct(1) option.inject)
    with u show ?case by blast
  qed
  then show "inv s'" "ChunkId_wf x \<Longrightarrow> content s' x = Some d \<Longrightarrow> hash d = Returns (id_digest x)"
    by blast+
qed

text \<open>What a client can conclude from the messages it receives.\<close>

lemma GetChunk_integrity:
  assumes "serves svc" "inv s" "GetChunk svc sctx request write_ok s = (Returns (st, msgs), s')"
    "get_stream_data msgs \<noteq> []"
  obtains cid d where "Parse (get_chunk_id request) = Ok cid" "content s cid = Some d"
    "hash d = Returns (id_digest cid)" "prefix (get_stream_data msgs) d"
  using assms(3)
proof (cases rule: GetChunk_cases)
  case (rejected st')
  then show thesis using assms(4) by simp
next
  case (asked cid s1 rg s2)
  have s1: "inv s1" "content s1 = content s" using logged_same asked(3) assms(1,2) by auto
  obtain res where res: "rg = Returns res" "msgs = get_frames write_ok res"
    using asked(6) [symmetric] by (auto simp: run_map_Returns)
  with assms(4) obtain d where d: "res = Ok d" by (cases res) (auto simp: get_frames_def)
  let ?meta = "if write_ok 0 then [meta_frame (length d) CS_OK] else []"
  obtain broken where "GetChunk_send write_ok d 0 1 ?meta = (broken, msgs)"
    using res(2) d by (auto simp: get_frames_def) (metis prod.collapse)
  then obtain fs where "msgs = ?meta @ map data_frame fs" "prefix (concat fs) (drop 0 d)"
    by (rule GetChunk_send_frames) simp_all
  then have pre: "prefix (get_stream_data msgs) d" by (auto split: if_splits)
  have g: "Get store cid s1 = (Returns (Ok d), s2)" using asked(4) res d assms(1) by simp
  show thesis
    by (rule that [OF asked(2) _ get_hash [OF g] pre])
       (use get_content [OF s1(1) Parse_OkD(1) [OF asked(2)] g] s1(2) in simp)
qed

lemma GetChunk_complete:
  assumes "serves svc" "\<forall>k. write_ok k" "get_protocol_version request = 1"
    "Parse (get_chunk_id request) = Ok cid"
    "\<And>s1. logged log s s1 \<Longrightarrow> \<exists>s2. Get store cid s1 = (Returns (Ok d), s2)"
  obtains fs s' where "GetChunk svc sctx request write_ok s =
      (Returns (Status_OK, meta_frame (length d) CS_OK # map data_frame fs), s')"
    "concat fs = d" "\<forall>f \<in> set fs. f \<noteq> [] \<and> length f \<le> 262144"
proof -
  obtain r s' where run: "GetChunk svc sctx request write_ok s = (r, s')" by fastforce
  from run show thesis
  proof (cases rule: GetChunk_cases)
    case (rejected st)
    then show thesis using assms(3,4) by simp
  next
    case (asked c s1 rg s2)
    have rg: "rg = Returns (Ok d)" using asked assms(1,4,5) by fastforce
    obtain broken out where snd: "GetChunk_send write_ok d 0 1 [meta_frame (length d) CS_OK] = (broken, out)"
      by fastforce
    then obtain fs where fs: "out = [meta_frame (length d) CS_OK] @ map data_frame fs"
        "\<forall>f \<in> set fs. f \<noteq> [] \<and> length f \<le> 262144" "\<not> broken \<Longrightarrow> concat fs = drop 0 d"
        "\<forall>j \<ge> 1. write_ok j \<Longrightarrow> \<not> broken"
      by (rule GetChunk_send_frames) simp_all
    show thesis
      by (rule that [of "fs" s']) (use run asked(6) rg snd fs assms(2) in \<open>simp_all add: get_frames_def\<close>)
  qed
qed

end

section \<open>The stores behind the service\<close>

definition LocalDisk_log :: "LocalDisk logger_ref" where
  "LocalDisk_log = \<lparr>deref = logger, modify = logger_update\<rparr>"

definition FaultInjecting_log :: "'s logger_ref \<Rightarrow> 's FaultInjecting logger_ref" where
  "FaultInjecting_log ref = \<lparr>deref = (\<lambda>f. deref ref (delegate f)),
     modify = (\<lambda>g f. f\<lparr>delegate := modify ref g (delegate f)\<rparr>)\<rparr>"

interpretation disk_node: storage_node "LocalDisk_vtable evp" "HashBytes evp" stored LocalDisk_inv LocalDisk_log
  for evp :: "'c EVP"
  by unfold_locales (simp_all add: LocalDisk_log_def)

interpretation faulty_node: storage_node "FaultInjecting_vtable (LocalDisk_vtable evp)" "HashBytes evp"
    "\<lambda>f. stored (delegate f)" "\<lambda>f. LocalDisk_inv (delegate f)" "FaultInjecting_log LocalDisk_log"
  for evp :: "'c EVP"
  by unfold_locales (simp_all add: FaultInjecting_log_def LocalDisk_log_def)

lemma logged_disk:
  assumes "logged LocalDisk_log s s'"
  obtains f where "s' = log_with f s"
proof -
  from assms have "\<exists>f. s' = log_with f s"
  proof (induction rule: logged_induct)
    case refl
    show ?case by (rule exI [of _ "\<lambda>x. x"]) simp
  next
    case (modify t g)
    then show ?case by (auto simp: LocalDisk_log_def)
  qed
  then show thesis using that by blast
qed

lemma log_with_frame [simp]:
  "shard_ready (log_with f s) cid = shard_ready s cid"
  by (simp add: shard_ready_def tmp_path_for_def ShardDirFor_def)

end
