(* ===== verification/Storage_Node_Theorems.thy ===== *)
theory Storage_Node_Theorems
  imports Storage_Node
begin

text \<open>
  The theorems on a storage node: what its remote procedures do to a local disk store (or to the
  fault-injecting store around one), end to end.
\<close>

section \<open>Concrete services and requests\<close>

definition demo_svc :: "uint64 \<Rightarrow> LocalDisk StorageNodeService" where
  "demo_svc limit = \<lparr>svc_store = LocalDisk_vtable demo_evp, service_logger = LocalDisk_log, max_chunk_bytes = limit\<rparr>"

definition demo_ctx :: ServerContext where
  "demo_ctx = \<lparr>client_metadata = [], uuids = (\<lambda>k. ''0f8fad5b-d9cb-469f-a165-70867728950e''), duration_ms = 5\<rparr>"

definition put_request :: "ChunkId \<Rightarrow> uint64 \<Rightarrow> byte list list \<Rightarrow> PutChunkRequest list" where
  "put_request cid total_size frames =
     \<lparr>put_protocol_version = 1, put_payload = Some (Put_metadata
        \<lparr>put_chunk_id = id_hex cid, put_capability_token = [], put_total_size_bytes = total_size\<rparr>)\<rparr> #
     map (\<lambda>d. \<lparr>put_protocol_version = 1, put_payload = Some (Put_data_chunk d)\<rparr>) frames"

definition get_request :: "ChunkId \<Rightarrow> GetChunkRequest" where
  "get_request cid = \<lparr>get_protocol_version = 1, get_chunk_id = id_hex cid\<rparr>"

lemma put_stream_data_frames [simp]:
  "put_stream_data (map (\<lambda>d. \<lparr>put_protocol_version = v, put_payload = Some (Put_data_chunk d)\<rparr>) ds) = concat ds"
  by (induction ds) auto

lemma put_request_accepted:
  assumes "ChunkId_wf cid" "total_size \<le> max_chunk_bytes svc" "length (concat ds) \<le> unat (max_chunk_bytes svc)"
  shows "put_accepts svc (put_request cid total_size ds) c p \<longleftrightarrow> c = cid \<and> p = concat ds"
  using assms by (auto simp: put_accepts_def put_request_def)

lemma demo_svc_simps [simp]:
  "svc_store (demo_svc limit) = LocalDisk_vtable demo_evp" "service_logger (demo_svc limit) = LocalDisk_log"
  "max_chunk_bytes (demo_svc limit) = limit"
  by (simp_all add: demo_svc_def)

lemma disk_PutChunk_success:
  assumes svc: "svc_store svc = LocalDisk_vtable evp" "service_logger svc = LocalDisk_log"
    and inv: "LocalDisk_inv s" and wf: "ChunkId_wf cid"
    and evp: "evp_computes evp absorbed H" "H (concat ds) = id_digest cid"
    and fits: "total_size \<le> max_chunk_bytes svc" "length (concat ds) \<le> unat (max_chunk_bytes svc)"
    and st: "stored s cid = None" "relock s = Relock_counts" "LockFor cid \<notin> stripe_locks s"
      "io_healthy (os s) (length (concat ds))" "shard_ready s cid"
  obtains resp s1 where "PutChunk svc sctx (put_request cid total_size ds) s = (Returns (Status_OK, resp), s1)"
    "putr_status resp = CS_OK" "map_of (disk s1) (FinalPathFor s1 cid) = Some (File (concat ds))"
    "os s1 = os s" "stripe_locks s1 = stripe_locks s"
proof -
  obtain r s1 where run: "PutChunk svc sctx (put_request cid total_size ds) s = (r, s1)" by fastforce
  note acc = put_request_accepted [OF wf fits]
  from run show thesis
  proof (cases rule: PutChunk_cases)
    case (rejected st resp)
    then show thesis using acc by blast
  next
    case (accepted c p t1 rp t2)
    have cp: "c = cid" "p = concat ds" using accepted(1) acc by auto
    obtain f where t1: "t1 = log_with f s" using accepted(2) svc(2) logged_disk by metis
    obtain g where s1: "s1 = log_with g t2" using accepted(4) svc(2) logged_disk by metis
    have absent: "map_of (disk t1) (FinalPathFor t1 cid) = None"
      using inv wf st(1) t1 by (auto simp: stored_def LocalDisk_inv_def simp del: map_of_eq_Some_iff
          split: option.splits node.splits)
    have hash: "HashBytes evp (concat ds) = Returns (id_digest cid)" using HashBytes_eq [OF evp(1)] evp(2) by simp
    obtain t where t: "LocalDisk_Put evp cid (concat ds) t1 = (Returns (Ok ()), t)" "stripe_locks t = stripe_locks t1"
        "os t = os t1" "map_of (disk t) (FinalPathFor t cid) = Some (File (concat ds))"
      by (rule Put_fresh [of t1 cid "concat ds" evp]) (use inv wf st absent hash t1 in simp_all)
    have "rp = Returns (Ok ())" "t2 = t" using accepted(3) t(1) cp svc(1) by simp_all
    then show thesis
      using that [of "put_response (Ok ())" s1] run accepted(5) s1 t1 t(2-4) by (simp add: put_response_def)
  qed
qed

lemma disk_GetChunk_success:
  assumes "svc_store svc = LocalDisk_vtable evp" "service_logger svc = LocalDisk_log" "ChunkId_wf cid"
    "HashBytes evp d = Returns (id_digest cid)" "map_of (disk s) (FinalPathFor s cid) = Some (File d)"
    "io_healthy (os s) (length d)" "LockFor cid \<notin> stripe_locks s"
  obtains fs s' where "GetChunk svc sctx (get_request cid) (\<lambda>_. True) s =
      (Returns (Status_OK, meta_frame (length d) CS_OK # map data_frame fs), s')"
    "concat fs = d" "\<forall>f \<in> set fs. f \<noteq> [] \<and> length f \<le> 262144"
proof -
  have get: "\<exists>s2. Get (LocalDisk_vtable evp) cid t = (Returns (Ok d), s2)" if l: "logged LocalDisk_log s t" for t
  proof -
    obtain f where "t = log_with f s" using l by (rule logged_disk)
    then show ?thesis using LocalDisk_Get_success [of cid t d evp] assms(4-7) by simp
  qed
  show thesis
    by (rule disk_node.GetChunk_complete [of svc evp "\<lambda>_. True" "get_request cid" cid s d sctx])
       (use that assms(1-3) get in \<open>simp_all add: get_request_def\<close>)
qed

lemma demo_PutChunk:
  obtains resp s1 where "PutChunk (demo_svc 100) demo_ctx (put_request demo_id 3 [[1], [2, 3]])
      (demo_empty Relock_counts) = (Returns (Status_OK, resp), s1)" "putr_status resp = CS_OK"
    "stored s1 demo_id = Some demo_data"
proof -
  have d: "concat [[1], [2, 3]] = demo_data" by (simp add: demo_data_def)
  show thesis
    by (rule disk_PutChunk_success [of "demo_svc 100" demo_evp "demo_empty Relock_counts" demo_id
          "\<lambda>c. c" demo_H "[[1], [2, 3]]" 3 demo_ctx])
       (use that demo_evp_computes d in \<open>simp_all add: stored_def demo_data_def\<close>)
qed

section \<open>Uploading\<close>

text \<open>
  C25: When \<open>PutChunk\<close> answers OK, the client sent well-formed metadata with the supported version,
  the data frames it sent stay within the size limit and hash to the announced address, and the
  node now holds a chunk at that address: exactly those bytes if it had none before.
\<close>

theorem PutChunk_OK_means_stored:
  assumes "svc_store svc = LocalDisk_vtable evp" "service_logger svc = LocalDisk_log" "LocalDisk_inv s"
    "PutChunk svc sctx reader s = (Returns (st, resp), s')" "error_code st = GRPC_OK" "putr_status resp = CS_OK"
  shows "\<exists>cid d. put_accepts svc reader cid d \<and> HashBytes evp d = Returns (id_digest cid) \<and>
    stored s' cid = (if stored s cid = None then Some d else stored s cid)"
proof -
  obtain cid d where "put_accepts svc reader cid d" "HashBytes evp d = Returns (id_digest cid)"
      "stored s cid = None \<Longrightarrow> stored s' cid = Some d" "stored s cid \<noteq> None \<Longrightarrow> stored s' cid = stored s cid"
    by (rule disk_node.PutChunk_ok [OF _ assms(3-6), of evp]) (use assms(1,2) in auto)
  then show ?thesis by (intro exI [of _ cid] exI [of _ d]) simp
qed

theorem PutChunk_OK_means_stored_witness:
  "\<exists>resp s' cid d. PutChunk (demo_svc 100) demo_ctx (put_request demo_id 3 [[1], [2, 3]]) (demo_empty Relock_counts) =
       (Returns (Status_OK, resp), s') \<and> put_accepts (demo_svc 100) (put_request demo_id 3 [[1], [2, 3]]) cid d \<and>
     HashBytes demo_evp d = Returns (id_digest cid)"
proof -
  obtain resp s1 where p: "PutChunk (demo_svc 100) demo_ctx (put_request demo_id 3 [[1], [2, 3]])
      (demo_empty Relock_counts) = (Returns (Status_OK, resp), s1)" "putr_status resp = CS_OK"
    by (rule demo_PutChunk)
  from PutChunk_OK_means_stored [OF _ _ _ p(1) _ p(2), of demo_evp] show ?thesis using p(1) by auto
qed

text \<open>
  C30: A stream whose data exceeds the limit is refused with \<^verbatim>\<open>RESOURCE_EXHAUSTED\<close>, whether the
  metadata admits it or the frames turn out longer than announced; the store is not called.
\<close>

theorem PutChunk_enforces_limit:
  assumes "ChunkId_wf cid" "total_size > max_chunk_bytes svc \<or> length (concat ds) > unat (max_chunk_bytes svc)"
    "PutChunk svc sctx (put_request cid total_size ds) s = (r, s')"
  shows "\<exists>st resp. r = Returns (st, resp) \<and> error_code st = RESOURCE_EXHAUSTED \<and>
    putr_status resp = CHUNK_TOO_LARGE \<and> logged (service_logger svc) s s'"
  using assms(3) unfolding PutChunk_def
proof (cases rule: correlation_scope_cases)
  case (1 s1 s2)
  have "logged (service_logger svc) s1 s2 \<and> (\<exists>st resp. r = Returns (st, resp) \<and>
      error_code st = RESOURCE_EXHAUSTED \<and> putr_status resp = CHUNK_TOO_LARGE)"
    using 1(2) assms(1,2) by (auto simp: put_request_def Let_def PutChunk_read_eq split: if_splits)
  then show ?thesis using logged_trans [OF 1(1) logged_trans [OF _ 1(3)]] by blast
qed

theorem PutChunk_enforces_limit_witness:
  "\<exists>st resp. fst (PutChunk (demo_svc 2) demo_ctx (put_request demo_id 1 [[1], [2, 3]]) (demo_empty Relock_counts)) =
     Returns (st, resp) \<and> error_code st = RESOURCE_EXHAUSTED \<and> putr_status resp = CHUNK_TOO_LARGE"
  using PutChunk_enforces_limit [OF demo_id_wf _ prod.collapse [symmetric], of "demo_svc 2" 1 "[[1], [2, 3]]"
      demo_ctx "demo_empty Relock_counts"] by auto

section \<open>Upload, then download\<close>



section \<open>Downloading\<close>

text \<open>
  Whatever the disk holds and wherever the client breaks the stream off, data bytes that
  \<open>GetChunk\<close> delivers are the beginning of a stored chunk that hashes to the requested address.
\<close>

theorem GetChunk_delivers_verified_prefix:
  assumes "svc_store svc = LocalDisk_vtable evp" "service_logger svc = LocalDisk_log" "LocalDisk_inv s"
    "evp_computes evp absorbed H" "GetChunk svc sctx request write_ok s = (Returns (st, msgs), s')"
    "get_stream_data msgs \<noteq> []"
  shows "\<exists>cid d. Parse (get_chunk_id request) = Ok cid \<and> stored s cid = Some d \<and> H d = id_digest cid \<and>
    prefix (get_stream_data msgs) d"
proof -
  obtain cid d where "Parse (get_chunk_id request) = Ok cid" "stored s cid = Some d"
    "HashBytes evp d = Returns (id_digest cid)" "prefix (get_stream_data msgs) d"
    by (rule disk_node.GetChunk_integrity [OF _ assms(3,5,6), of evp]) (use assms(1,2) in auto)
  then show ?thesis using HashBytes_eq [OF assms(4), of d] by auto
qed

theorem GetChunk_delivers_verified_prefix_witness:
  "\<exists>msgs s'. GetChunk (demo_svc 100) demo_ctx (get_request demo_id) (\<lambda>_. True) (demo_full Relock_blocks demo_data) =
     (Returns (Status_OK, msgs), s') \<and> prefix (get_stream_data msgs) demo_data"
proof -
  obtain fs s' where g: "GetChunk (demo_svc 100) demo_ctx (get_request demo_id) (\<lambda>_. True)
      (demo_full Relock_blocks demo_data) =
      (Returns (Status_OK, meta_frame (length demo_data) CS_OK # map data_frame fs), s')" "concat fs = demo_data"
    by (rule disk_GetChunk_success [of "demo_svc 100" demo_evp demo_id demo_data
          "demo_full Relock_blocks demo_data" demo_ctx]) (simp_all add: demo_data_def)
  have "get_stream_data (meta_frame (length demo_data) CS_OK # map data_frame fs) \<noteq> []"
    using g(2) by (simp add: demo_data_def)
  from GetChunk_delivers_verified_prefix [OF _ _ _ demo_evp_computes g(1) this] g show ?thesis
    by (auto simp: get_request_def)
qed

section \<open>Replication\<close>

definition replicate_request :: "ChunkId \<Rightarrow> string \<Rightarrow> ReplicateChunkRequest" where
  "replicate_request cid addr = \<lparr>rep_protocol_version = 1, rep_chunk_id = id_hex cid, rep_source_node_address = addr\<rparr>"

lemma disk_ReplicateChunk_success:
  assumes svc: "svc_store svc = LocalDisk_vtable evp" "service_logger svc = LocalDisk_log"
    and inv: "LocalDisk_inv s" and wf: "ChunkId_wf cid" and hash: "HashBytes evp d = Returns (id_digest cid)"
    and acc: "\<And>payload. replicate_accepts svc (peer addr [(kCorrelationIdMetadataKey, GetCorrelationId sctx 1)]
        (get_request cid)) payload \<longleftrightarrow> payload = d"
    and st: "stored s cid = None" "relock s = Relock_counts" "LockFor cid \<notin> stripe_locks s"
      "io_healthy (os s) (length d)" "shard_ready s cid"
  obtains resp s' where "ReplicateChunk svc peer sctx (replicate_request cid addr) s = (Returns (Status_OK, resp), s')"
    "repr_status resp = CS_OK" "stored s' cid = Some d"
proof -
  obtain r s' where run: "ReplicateChunk svc peer sctx (replicate_request cid addr) s = (r, s')" by fastforce
  have req: "\<lparr>get_protocol_version = kCurrentProtocolVersion, get_chunk_id = id_hex cid\<rparr> = get_request cid"
    by (simp add: get_request_def kCurrentProtocolVersion_def)
  from run show thesis
  proof (cases rule: ReplicateChunk_cases)
    case (rejected st resp)
    from rejected(4) [of cid d] show thesis using acc [of d] wf req by (simp add: replicate_request_def)
  next
    case (asked c p t1 rp t2)
    have cp: "c = cid" "p = d" using asked(2,3) acc wf req by (auto simp: replicate_request_def)
    obtain f where t1: "t1 = log_with f s" using asked(4) svc(2) logged_disk by metis
    obtain g where s': "s' = log_with g t2" using asked(6) svc(2) logged_disk by metis
    have absent: "map_of (disk t1) (FinalPathFor t1 cid) = None"
      using inv wf st(1) t1 by (auto simp: stored_def LocalDisk_inv_def simp del: map_of_eq_Some_iff
          split: option.splits node.splits)
    obtain t where t: "LocalDisk_Put evp cid d t1 = (Returns (Ok ()), t)"
        "map_of (disk t) (FinalPathFor t cid) = Some (File d)"
      by (rule Put_fresh [of t1 cid d evp]) (use inv wf st absent hash t1 in simp_all)
    have "rp = Returns (Ok ())" "t2 = t" using asked(5) t(1) cp svc(1) by simp_all
    then show thesis
      using that run asked(7) s' t(2) by (simp add: stored_def)
  qed
qed

text \<open>A peer that is a storage node in state \<open>s\<close>, reached through a working stream.\<close>

definition node_peer :: "'s StorageNodeService \<Rightarrow> ServerContext \<Rightarrow> 's \<Rightarrow> peer_node" where
  "node_peer svc sctx s addr md request =
     (case fst (GetChunk svc (sctx\<lparr>client_metadata := md\<rparr>) request (\<lambda>_. True) s) of
        Returns (st, msgs) \<Rightarrow> (msgs, st)
      | _ \<Rightarrow> ([], Status (GRPC_CODE 14) ''unavailable''))"





section \<open>Every sequence of calls\<close>

text \<open>
  C1: Whatever sequence of remote calls a node serves, with arbitrary requests, streams and peers,
  and whatever the operations' outcomes, it never comes to hold bytes that do not hash to their
  address: if that was so at the start it stays so.
\<close>

theorem node_holds_only_verified_chunks:
  assumes "svc_store svc = LocalDisk_vtable evp" "service_logger svc = LocalDisk_log" "LocalDisk_inv s"
    "evp_computes evp absorbed H" "\<And>x d. ChunkId_wf x \<Longrightarrow> stored s x = Some d \<Longrightarrow> H d = id_digest x"
    "(rpc_step svc)\<^sup>*\<^sup>* s s'" "ChunkId_wf cid" "stored s' cid = Some d"
  shows "H d = id_digest cid"
proof -
  have "HashBytes evp d = Returns (id_digest cid)"
    by (rule disk_node.rpc_run_sound(2) [OF assms(6) _ assms(3) _ assms(7,8), of evp])
       (use assms(1,2,5) HashBytes_eq [OF assms(4)] in auto)
  then show ?thesis using HashBytes_eq [OF assms(4), of d] by simp
qed

theorem node_holds_only_verified_chunks_witness:
  "\<exists>s'. (rpc_step (demo_svc 100))\<^sup>*\<^sup>* (demo_empty Relock_counts) s' \<and> stored s' demo_id = Some demo_data \<and>
     demo_H demo_data = id_digest demo_id"
proof -
  obtain resp s1 where p: "PutChunk (demo_svc 100) demo_ctx (put_request demo_id 3 [[1], [2, 3]])
      (demo_empty Relock_counts) = (Returns (Status_OK, resp), s1)" "stored s1 demo_id = Some demo_data"
    by (rule demo_PutChunk)
  then have run: "(rpc_step (demo_svc 100))\<^sup>*\<^sup>* (demo_empty Relock_counts) s1"
    by (intro r_into_rtranclp rpc_put)
  have "demo_H demo_data = id_digest demo_id"
    by (rule node_holds_only_verified_chunks [OF _ _ _ demo_evp_computes _ run demo_id_wf p(2)])
       (auto simp: stored_def split: if_splits)
  with run p(2) show ?thesis by blast
qed

section \<open>Protocol versions\<close>

lemmas scope_defs = correlation_scope_def WithCorrelationId_def Let_def

text \<open>
  A request with an unsupported protocol version never reaches the store: the handlers that
  check the version first answer \<^verbatim>\<open>FAILED_PRECONDITION\<close>, an upload is refused, and only log lines
  are written.
\<close>

theorem unsupported_version_is_refused:
  assumes "v \<noteq> 1"
  shows "(\<exists>s'. GetChunk svc sctx \<lparr>get_protocol_version = v, get_chunk_id = hex\<rparr> write_ok s =
           (Returns (Status FAILED_PRECONDITION ''Unsupported protocol version'', []), s') \<and>
           logged (service_logger svc) s s') \<and>
         (\<exists>resp s'. VerifyChunk svc sctx \<lparr>ver_protocol_version = v, ver_chunk_id = hex\<rparr> s =
           (Returns (Status FAILED_PRECONDITION ''Unsupported protocol version'', resp), s') \<and>
           logged (service_logger svc) s s') \<and>
         (\<exists>resp s'. ReplicateChunk svc peer sctx
             \<lparr>rep_protocol_version = v, rep_chunk_id = hex, rep_source_node_address = addr\<rparr> s =
           (Returns (Status FAILED_PRECONDITION ''Unsupported protocol version'', resp), s') \<and>
           logged (service_logger svc) s s') \<and>
         (\<exists>resp s'. GetNodeStats svc sctx \<lparr>stat_protocol_version = v\<rparr> s =
           (Returns (Status FAILED_PRECONDITION ''Unsupported protocol version'', resp), s') \<and>
           logged (service_logger svc) s s') \<and>
         (\<exists>st resp s'. PutChunk svc sctx (\<lparr>put_protocol_version = v, put_payload = payload\<rparr> # rest) s =
           (Returns (st, resp), s') \<and> error_code st \<noteq> GRPC_OK \<and> logged (service_logger svc) s s')"
proof (intro conjI)
  show "\<exists>s'. GetChunk svc sctx \<lparr>get_protocol_version = v, get_chunk_id = hex\<rparr> write_ok s =
      (Returns (Status FAILED_PRECONDITION ''Unsupported protocol version'', []), s') \<and> logged (service_logger svc) s s'"
    using assms by (auto simp: GetChunk_def scope_defs)
  show "\<exists>resp s'. VerifyChunk svc sctx \<lparr>ver_protocol_version = v, ver_chunk_id = hex\<rparr> s =
      (Returns (Status FAILED_PRECONDITION ''Unsupported protocol version'', resp), s') \<and> logged (service_logger svc) s s'"
    using assms by (auto simp: VerifyChunk_def scope_defs)
  show "\<exists>resp s'. ReplicateChunk svc peer sctx
        \<lparr>rep_protocol_version = v, rep_chunk_id = hex, rep_source_node_address = addr\<rparr> s =
      (Returns (Status FAILED_PRECONDITION ''Unsupported protocol version'', resp), s') \<and> logged (service_logger svc) s s'"
    using assms by (auto simp: ReplicateChunk_def scope_defs)
  show "\<exists>resp s'. GetNodeStats svc sctx \<lparr>stat_protocol_version = v\<rparr> s =
      (Returns (Status FAILED_PRECONDITION ''Unsupported protocol version'', resp), s') \<and> logged (service_logger svc) s s'"
    using assms by (auto simp: GetNodeStats_def scope_defs)
  let ?reader = "\<lparr>put_protocol_version = v, put_payload = payload\<rparr> # rest"
  show "\<exists>st resp s'. PutChunk svc sctx ?reader s = (Returns (st, resp), s') \<and> error_code st \<noteq> GRPC_OK \<and>
      logged (service_logger svc) s s'"
    by (rule PutChunk_cases [of svc sctx ?reader s, OF prod.collapse [symmetric]])
       (use assms in \<open>auto simp: put_accepts_def prod_eq_iff\<close>)
qed

theorem unsupported_version_is_refused_witness:
  "\<exists>s'. GetChunk (demo_svc 100) demo_ctx \<lparr>get_protocol_version = 2, get_chunk_id = id_hex demo_id\<rparr> (\<lambda>_. True)
     (demo_full Relock_blocks demo_data) =
       (Returns (Status FAILED_PRECONDITION ''Unsupported protocol version'', []), s')"
  using unsupported_version_is_refused [of 2 "demo_svc 100" demo_ctx "id_hex demo_id" "\<lambda>_. True"
      "demo_full Relock_blocks demo_data", THEN conjunct1] by auto

text \<open>
  \<open>PutChunk\<close> and \<open>DeleteChunk\<close> look at the chunk id before the protocol version: with an
  unparsable id a request of any version is answered \<^verbatim>\<open>INVALID_ARGUMENT\<close>.
\<close>

theorem chunk_id_checked_before_version:
  assumes "\<not> IsOk (Parse hex)"
  shows "(\<exists>resp s'. DeleteChunk svc sctx \<lparr>del_protocol_version = v, del_chunk_id = hex, del_capability_token = tok\<rparr> s =
           (Returns (Status INVALID_ARGUMENT ''Invalid chunk_id'', resp), s')) \<and>
         (\<exists>resp s'. PutChunk svc sctx (\<lparr>put_protocol_version = v, put_payload = Some (Put_metadata
             \<lparr>put_chunk_id = hex, put_capability_token = tok, put_total_size_bytes = n\<rparr>)\<rparr> # rest) s =
           (Returns (Status INVALID_ARGUMENT ''Invalid chunk_id'', resp), s'))"
proof -
  obtain e where "Parse hex = Err e" using assms by (cases "Parse hex") auto
  then show ?thesis
    by (simp add: DeleteChunk_def PutChunk_def scope_defs)
qed

theorem chunk_id_checked_before_version_witness:
  "\<exists>resp s'. DeleteChunk (demo_svc 100) demo_ctx
       \<lparr>del_protocol_version = 7, del_chunk_id = ''zz'', del_capability_token = []\<rparr> (demo_empty Relock_counts) =
     (Returns (Status INVALID_ARGUMENT ''Invalid chunk_id'', resp), s')"
proof -
  have "\<not> IsOk (Parse ''zz'')" using Parse_Ok_iff [of "''zz''"] by (simp add: IsOk_iff)
  from chunk_id_checked_before_version [OF this, of "demo_svc 100" demo_ctx 7 "[]" "demo_empty Relock_counts"
      0 "[]"] show ?thesis by blast
qed

section \<open>Correlation ids\<close>

lemma scope_restores:
  assumes "fst (correlation_scope LocalDisk_log c block s) \<noteq> Blocks"
  shows "t_correlation_id (logger (snd (correlation_scope LocalDisk_log c block s))) = t_correlation_id (logger s)"
  using assms
  by (auto simp: correlation_scope_def WithCorrelationId_def ScopedCorrelationId_dtor_def LocalDisk_log_def Let_def
      split: run.splits prod.splits)

text \<open>
  Every handler that returns or throws leaves the thread's correlation id as it found it, so
  the log lines of one call never carry the id of another.
\<close>

theorem handlers_restore_correlation_id:
  assumes "service_logger svc = LocalDisk_log"
  shows "(fst (PutChunk svc sctx reader s) \<noteq> Blocks \<longrightarrow>
            t_correlation_id (logger (snd (PutChunk svc sctx reader s))) = t_correlation_id (logger s)) \<and>
         (fst (GetChunk svc sctx greq w s) \<noteq> Blocks \<longrightarrow>
            t_correlation_id (logger (snd (GetChunk svc sctx greq w s))) = t_correlation_id (logger s)) \<and>
         (fst (VerifyChunk svc sctx vreq s) \<noteq> Blocks \<longrightarrow>
            t_correlation_id (logger (snd (VerifyChunk svc sctx vreq s))) = t_correlation_id (logger s)) \<and>
         (fst (DeleteChunk svc sctx dreq s) \<noteq> Blocks \<longrightarrow>
            t_correlation_id (logger (snd (DeleteChunk svc sctx dreq s))) = t_correlation_id (logger s)) \<and>
         (fst (ReplicateChunk svc peer sctx rreq s) \<noteq> Blocks \<longrightarrow>
            t_correlation_id (logger (snd (ReplicateChunk svc peer sctx rreq s))) = t_correlation_id (logger s)) \<and>
         (fst (GetNodeStats svc sctx sreq s) \<noteq> Blocks \<longrightarrow>
            t_correlation_id (logger (snd (GetNodeStats svc sctx sreq s))) = t_correlation_id (logger s))"
  unfolding PutChunk_def GetChunk_def VerifyChunk_def DeleteChunk_def ReplicateChunk_def GetNodeStats_def assms
  by (intro conjI impI scope_restores)

theorem handlers_restore_correlation_id_witness:
  "t_correlation_id (logger (snd (PutChunk (demo_svc 2) demo_ctx [] (demo_empty Relock_counts)))) = []"
proof -
  have "fst (PutChunk (demo_svc 2) demo_ctx [] (demo_empty Relock_counts)) \<noteq> Blocks"
    by (simp add: PutChunk_def scope_defs)
  moreover have "t_correlation_id (logger (demo_empty Relock_counts)) = []"
    by (simp add: demo_empty_def demo_logger_def)
  ultimately show ?thesis
    using handlers_restore_correlation_id [of "demo_svc 2" demo_ctx "[]" "demo_empty Relock_counts"] by simp
qed

end
