(* ===== verification/Scoped_Fd.thy ===== *)
theory Scoped_Fd
  imports Prelude "HOL-Library.Multiset"
begin

text \<open>
  The file descriptors of \<^verbatim>\<open>services/storage_node/src/local_disk_chunk_store.cpp\<close>: the guard class
  \<^verbatim>\<open>ScopedFd\<close> and the wrappers \<^verbatim>\<open>internal_open\<close> and \<^verbatim>\<open>internal_fsync\<close>, over the process's table of open
  descriptors. POSIX hands out the lowest free number; closing a number that is not open does
  nothing to the table.
\<close>

type_synonym fd_table = "int list"

definition lowest_free :: "fd_table \<Rightarrow> int" where
  "lowest_free fds = int (hd (filter (\<lambda>n. int n \<notin> set fds) [0 ..< Suc (length fds)]))"

text \<open>\<^verbatim>\<open>::open\<close>, whose outcome on the file system is \<open>granted\<close>: a descriptor, or \<open>-1\<close>.\<close>

definition internal_open :: "bool \<Rightarrow> fd_table \<Rightarrow> int \<times> fd_table" where
  "internal_open granted fds =
     (if granted then (lowest_free fds, lowest_free fds # fds) else (-1, fds))"

definition internal_fsync :: "bool \<Rightarrow> int" where
  "internal_fsync granted = (if granted then 0 else -1)"

definition posix_close :: "int \<Rightarrow> fd_table \<Rightarrow> fd_table" where
  "posix_close fd fds = remove1 fd fds"

record ScopedFd =
  raw_fd :: int

definition ScopedFd_new :: "int \<Rightarrow> ScopedFd" where
  "ScopedFd_new fd = \<lparr>raw_fd = fd\<rparr>"

definition ScopedFd_get :: "ScopedFd \<Rightarrow> int" where
  "ScopedFd_get g = raw_fd g"

definition ScopedFd_release :: "ScopedFd \<Rightarrow> int \<times> ScopedFd" where
  "ScopedFd_release g = (let temp = raw_fd g in (temp, g\<lparr>raw_fd := -1\<rparr>))"

definition ScopedFd_dtor :: "ScopedFd \<Rightarrow> fd_table \<Rightarrow> fd_table" where
  "ScopedFd_dtor g fds = (if raw_fd g \<ge> 0 then posix_close (raw_fd g) fds else fds)"

section \<open>Lemmas\<close>

lemma lowest_free_fresh: "lowest_free fds \<notin> set fds" "lowest_free fds \<ge> 0"
proof -
  let ?free = "filter (\<lambda>n. int n \<notin> set fds) [0 ..< Suc (length fds)]"
  have "?free \<noteq> []"
  proof
    assume "?free = []"
    then have "int ` {0 ..< Suc (length fds)} \<subseteq> set fds"
      by (auto simp: filter_empty_conv simp del: upt_Suc)
    then have "card (int ` {0 ..< Suc (length fds)}) \<le> length fds"
      by (metis List.finite_set card_length card_mono le_trans)
    then show False by (simp add: card_image)
  qed
  then have "hd ?free \<in> set ?free" by (rule hd_in_set)
  then show "lowest_free fds \<notin> set fds" by (simp add: lowest_free_def del: upt_Suc)
  show "lowest_free fds \<ge> 0" by (simp add: lowest_free_def)
qed

text \<open>The descriptors a guard will close.\<close>

fun guarded :: "ScopedFd list \<Rightarrow> int multiset" where
  "guarded [] = {#}"
| "guarded (g # gs) = (if raw_fd g \<ge> 0 then add_mset (raw_fd g) (guarded gs) else guarded gs)"

lemma ScopedFd_simps [simp]:
  "raw_fd (ScopedFd_new fd) = fd" "ScopedFd_get g = raw_fd g"
  "fst (ScopedFd_release g) = raw_fd g" "raw_fd (snd (ScopedFd_release g)) = -1"
  by (simp_all add: ScopedFd_new_def ScopedFd_get_def ScopedFd_release_def Let_def)

definition table_ok :: "fd_table \<Rightarrow> bool" where
  "table_ok fds \<longleftrightarrow> distinct fds \<and> (\<forall>fd \<in> set fds. 0 \<le> fd)"

lemma internal_open_table:
  assumes "internal_open granted fds = (fd, fds')" "table_ok fds"
  shows "table_ok fds'" "mset fds' = mset fds + guarded [ScopedFd_new fd]" "fd < 0 \<longleftrightarrow> \<not> granted"
  using assms lowest_free_fresh [of fds] by (auto simp: internal_open_def table_ok_def split: if_splits)

lemma posix_close_table:
  assumes "table_ok fds" "guarded [g] \<subseteq># mset fds"
  shows "table_ok (posix_close (raw_fd g) fds)" "mset (posix_close (raw_fd g) fds) + guarded [g] = mset fds"
  using assms notin_set_remove1 [of _ fds "raw_fd g"]
  by (auto simp: posix_close_def table_ok_def remove1_idem split: if_splits)

lemma ScopedFd_dtor_table:
  assumes "table_ok fds" "guarded [g] \<subseteq># mset fds"
  shows "table_ok (ScopedFd_dtor g fds)" "mset (ScopedFd_dtor g fds) + guarded [g] = mset fds"
  using assms posix_close_table [OF assms] by (auto simp: ScopedFd_dtor_def)

end
