(* ===== verification/Disk_Steps.thy ===== *)
theory Disk_Steps
  imports Scoped_Fd Local_Disk_Properties
begin

text \<open>
  \<^verbatim>\<open>services/storage_node/src/local_disk_chunk_store.cpp\<close> again, one system call, lock operation or atomic
  counter update at a time. \<open>disk_thread\<close> is where a thread is inside an operation, with the local
  variables that are still needed; \<open>thread_step\<close> is its next step, and \<open>None\<close> is a thread that
  cannot go on: it is idle, finished, or waits for a mutex. \<open>Local_Disk\<close> has the same operations
  as one step each; the theory \<open>Disk_Solo\<close> shows that a thread that runs alone does just that.
\<close>

datatype disk_outcome =
    Put_outcome "unit store_result"
  | Get_outcome "byte list store_result"
  | Delete_outcome "unit store_result"
  | Exists_outcome "bool run"

text \<open>
  The guards (\<^verbatim>\<open>ScopedFd\<close>) that are in scope are listed with the one that is destroyed first at the
  head; \<open>Leaving\<close> runs their destructors and then that of the \<^verbatim>\<open>lock_guard\<close>.
\<close>

datatype disk_thread =
    At_rest
  | Put_start ChunkId "byte list"
  | Put_lock ChunkId "byte list"
  | Put_relock ChunkId "byte list"
  | Put_exists ChunkId "byte list"
  | Put_mkdir ChunkId "byte list"
  | Put_open ChunkId "byte list"
  | Put_fill ChunkId "byte list" path ScopedFd
  | Put_fsync ChunkId "byte list" path ScopedFd
  | Put_close ChunkId "byte list" path ScopedFd
  | Put_rename ChunkId "byte list" path ScopedFd
  | Put_discard ChunkId path ScopedFd string
  | Put_open_dir ChunkId "byte list" ScopedFd
  | Put_fsync_dir ChunkId "byte list" ScopedFd ScopedFd
  | Put_count ChunkId "byte list" ScopedFd ScopedFd
  | Put_bytes ChunkId "byte list" ScopedFd ScopedFd
  | Put_log ChunkId ScopedFd ScopedFd
  | Get_lock ChunkId
  | Get_size ChunkId
  | Get_open ChunkId nat
  | Get_read ChunkId nat ScopedFd
  | Get_verify ChunkId "byte list" ScopedFd
  | Delete_lock ChunkId
  | Delete_size ChunkId
  | Delete_remove ChunkId nat
  | Delete_count ChunkId nat
  | Delete_bytes ChunkId nat
  | Exists_lock ChunkId
  | Exists_stat ChunkId
  | Leaving disk_outcome ChunkId "ScopedFd list"
  | Op_finished disk_outcome ChunkId

record disk_process =
  shared :: LocalDisk
  fds :: fd_table

abbreviation plog :: "(Logger \<Rightarrow> Logger) \<Rightarrow> disk_process \<Rightarrow> disk_process" where
  "plog f p \<equiv> p\<lparr>shared := log_with f (shared p)\<rparr>"

abbreviation on_disk :: "fs \<Rightarrow> disk_process \<Rightarrow> disk_process" where
  "on_disk d p \<equiv> p\<lparr>shared := (shared p)\<lparr>disk := d\<rparr>\<rparr>"

abbreviation lock_stripe :: "ChunkId \<Rightarrow> disk_process \<Rightarrow> disk_process" where
  "lock_stripe cid p \<equiv> p\<lparr>shared := (shared p)\<lparr>stripe_locks := insert (LockFor cid) (stripe_locks (shared p))\<rparr>\<rparr>"

abbreviation unlock_stripe :: "ChunkId \<Rightarrow> disk_process \<Rightarrow> disk_process" where
  "unlock_stripe cid p \<equiv> p\<lparr>shared := (shared p)\<lparr>stripe_locks := stripe_locks (shared p) - {LockFor cid}\<rparr>\<rparr>"

abbreviation put_io_error :: "string \<Rightarrow> disk_outcome" where
  "put_io_error m \<equiv> Put_outcome (store_err ChunkStoreError_IoError m)"

fun thread_step :: "'c EVP \<Rightarrow> disk_thread \<Rightarrow> disk_process \<Rightarrow> (disk_thread \<times> disk_process) option" where
  "thread_step evp (Put_start cid data) p = (case HashBytes evp data of
      Returns actual_hash \<Rightarrow>
        if actual_hash \<noteq> id_digest cid then
          Some (Op_finished (Put_outcome (store_err ChunkStoreError_ChecksumMismatch
                  ''Provided chunk data does not match the ChunkId'')) cid,
                plog (Logger_Error (''ChecksumMismatch on Put for chunk '' @ id_hex cid)) p)
        else Some (Put_lock cid data, p)
    | Throws e \<Rightarrow> Some (Op_finished (Put_outcome (Throws e)) cid, p)
    | Blocks \<Rightarrow> None)"
| "thread_step evp (Put_lock cid data) p =
     (if LockFor cid \<in> stripe_locks (shared p) then None else Some (Put_relock cid data, lock_stripe cid p))"
| "thread_step evp (Put_relock cid data) p = (case relock (shared p) of
      Relock_blocks \<Rightarrow> None
    | Relock_throws \<Rightarrow> Some (Leaving (Put_outcome (Throws system_error)) cid [], p)
    | Relock_counts \<Rightarrow> Some (Put_exists cid data, p))"
| "thread_step evp (Put_exists cid data) p =
     (let (ex, ec) = fs_exists (os (shared p)) (FinalPathFor (shared p) cid) (disk (shared p))
      in if ex \<and> \<not> ec then
           Some (Leaving (Put_outcome (Returns (Ok ()))) cid [],
                 plog (Logger_Debug (''Chunk already exists, deduplicating: '' @ id_hex cid)) p)
         else Some (Put_mkdir cid data, p))"
| "thread_step evp (Put_mkdir cid data) p =
     (let (made, d) = fs_create_directories (os (shared p)) (ShardDirFor (shared p) cid) (disk (shared p))
      in if \<not> made then
           Some (Leaving (put_io_error (''Failed to create shard directory: '' @ os_ec_message (os (shared p)))) cid [],
                 on_disk d p)
         else Some (Put_open cid data, on_disk d p))"
| "thread_step evp (Put_open cid data) p =
     (let tmp_path = tmp_path_for (shared p) cid;
          (opened, d) = posix_open_write (os (shared p)) tmp_path (disk (shared p));
          (fd, table) = internal_open opened (fds p);
          g = ScopedFd_new fd;
          p' = (on_disk d p)\<lparr>fds := table\<rparr>
      in if ScopedFd_get g < 0 then
           Some (Leaving (put_io_error ''Failed to open temporary file for write'') cid [g], p')
         else Some (Put_fill cid data tmp_path g, p'))"
| "thread_step evp (Put_fill cid data tmp_path g) p =
     (if data \<noteq> [] then
        let (written, d) = posix_write (os (shared p)) tmp_path data (disk (shared p))
        in if written < 0 \<or> nat written \<noteq> length data then
             Some (Put_discard cid tmp_path g ''Failed to write chunk data'', on_disk d p)
           else Some (Put_fsync cid data tmp_path g, on_disk d p)
      else Some (Put_fsync cid data tmp_path g, p))"
| "thread_step evp (Put_fsync cid data tmp_path g) p =
     (if internal_fsync (os_fsync_ok (os (shared p))) \<noteq> 0 then
        Some (Put_discard cid tmp_path g ''Failed to fsync temporary file'', p)
      else Some (Put_close cid data tmp_path g, p))"
| "thread_step evp (Put_close cid data tmp_path g) p =
     (let (fd, g') = ScopedFd_release g
      in Some (Put_rename cid data tmp_path g', p\<lparr>fds := posix_close fd (fds p)\<rparr>))"
| "thread_step evp (Put_rename cid data tmp_path g) p =
     (let (renamed, d) = fs_rename (os (shared p)) tmp_path (FinalPathFor (shared p) cid) (disk (shared p))
      in if \<not> renamed then
           Some (Put_discard cid tmp_path g ''Failed to atomically rename chunk file'', on_disk d p)
         else Some (Put_open_dir cid data g, on_disk d p))"
| "thread_step evp (Put_discard cid tmp_path g m) p =
     Some (Leaving (put_io_error m) cid [g], p\<lparr>shared := drop_tmp tmp_path (shared p)\<rparr>)"
| "thread_step evp (Put_open_dir cid data g) p =
     (let (fd, table) = internal_open (os_open_dir_ok (os (shared p))) (fds p);
          dir_fd = ScopedFd_new fd;
          p' = p\<lparr>fds := table\<rparr>
      in if ScopedFd_get dir_fd \<ge> 0 then Some (Put_fsync_dir cid data dir_fd g, p')
         else Some (Put_count cid data dir_fd g,
                plog (Logger_Warn (''Failed to open directory for fsync '' @
                  concat (map (\<lambda>c. ''/'' @ c) (ShardDirFor (shared p) cid)))) p'))"
| "thread_step evp (Put_fsync_dir cid data dir_fd g) p =
     Some (Put_count cid data dir_fd g,
           if internal_fsync (os_fsync_dir_ok (os (shared p))) \<noteq> 0 then
             plog (Logger_Warn (''Failed to fsync directory '' @
               concat (map (\<lambda>c. ''/'' @ c) (ShardDirFor (shared p) cid)))) p
           else p)"
| "thread_step evp (Put_count cid data dir_fd g) p =
     Some (Put_bytes cid data dir_fd g, p\<lparr>shared := (shared p)\<lparr>chunk_count := chunk_count (shared p) + 1\<rparr>\<rparr>)"
| "thread_step evp (Put_bytes cid data dir_fd g) p =
     Some (Put_log cid dir_fd g,
           p\<lparr>shared := (shared p)\<lparr>bytes_used := bytes_used (shared p) + of_nat (length data)\<rparr>\<rparr>)"
| "thread_step evp (Put_log cid dir_fd g) p =
     Some (Leaving (Put_outcome (Returns (Ok ()))) cid [dir_fd, g],
           plog (Logger_Debug (''Successfully wrote chunk '' @ id_hex cid)) p)"
| "thread_step evp (Get_lock cid) p =
     (if LockFor cid \<in> stripe_locks (shared p) then None else Some (Get_size cid, lock_stripe cid p))"
| "thread_step evp (Get_size cid) p =
     (case fs_file_size (os (shared p)) (FinalPathFor (shared p) cid) (disk (shared p)) of
        None \<Rightarrow> Some (Leaving (Get_outcome
                  (store_err ChunkStoreError_NotFound ''Chunk file not found or inaccessible'')) cid [], p)
      | Some file_size \<Rightarrow> Some (Get_open cid file_size, p))"
| "thread_step evp (Get_open cid file_size) p =
     (let (fd, table) = internal_open
            (posix_open_read (os (shared p)) (FinalPathFor (shared p) cid) (disk (shared p))) (fds p);
          g = ScopedFd_new fd;
          p' = p\<lparr>fds := table\<rparr>
      in if ScopedFd_get g < 0 then
           Some (Leaving (Get_outcome
             (store_err ChunkStoreError_IoError ''Failed to open chunk file for read'')) cid [g], p')
         else Some (Get_read cid file_size g, p'))"
| "thread_step evp (Get_read cid file_size g) p =
     (case if file_size > 0 then posix_read (os (shared p)) (FinalPathFor (shared p) cid) file_size (disk (shared p))
           else Some [] of
        None \<Rightarrow> Some (Leaving (Get_outcome
                  (store_err ChunkStoreError_IoError ''Failed to read full chunk file'')) cid [g], p)
      | Some data \<Rightarrow>
          if length data \<noteq> file_size then
            Some (Leaving (Get_outcome
              (store_err ChunkStoreError_IoError ''Failed to read full chunk file'')) cid [g], p)
          else Some (Get_verify cid data g, p))"
| "thread_step evp (Get_verify cid data g) p = (case HashBytes evp data of
      Returns actual_hash \<Rightarrow>
        if actual_hash \<noteq> id_digest cid then
          Some (Leaving (Get_outcome (store_err ChunkStoreError_CorruptionDetected
                  ''Chunk data on disk does not match its ID'')) cid [g],
                plog (Logger_Error (''CorruptionDetected for chunk '' @ id_hex cid)) p)
        else Some (Leaving (Get_outcome (Returns (Ok data))) cid [g],
                   plog (Logger_Debug (''Successfully read chunk '' @ id_hex cid)) p)
    | Throws e \<Rightarrow> Some (Leaving (Get_outcome (Throws e)) cid [g], p)
    | Blocks \<Rightarrow> None)"
| "thread_step evp (Delete_lock cid) p =
     (if LockFor cid \<in> stripe_locks (shared p) then None else Some (Delete_size cid, lock_stripe cid p))"
| "thread_step evp (Delete_size cid) p =
     (case fs_file_size (os (shared p)) (FinalPathFor (shared p) cid) (disk (shared p)) of
        None \<Rightarrow> Some (Leaving (Delete_outcome (Returns (Ok ()))) cid [], p)
      | Some size_before \<Rightarrow> Some (Delete_remove cid size_before, p))"
| "thread_step evp (Delete_remove cid size_before) p =
     (let (removed, d) = fs_remove (os (shared p)) (FinalPathFor (shared p) cid) (disk (shared p))
      in if \<not> removed then
           Some (Leaving (Delete_outcome (store_err ChunkStoreError_IoError
             (''Failed to delete chunk file: '' @ os_ec_message (os (shared p))))) cid [], on_disk d p)
         else Some (Delete_count cid size_before, on_disk d p))"
| "thread_step evp (Delete_count cid size_before) p =
     Some (Delete_bytes cid size_before, p\<lparr>shared := (shared p)\<lparr>chunk_count := chunk_count (shared p) - 1\<rparr>\<rparr>)"
| "thread_step evp (Delete_bytes cid size_before) p =
     Some (Leaving (Delete_outcome (Returns (Ok ()))) cid [],
           plog (Logger_Debug (''Successfully deleted chunk '' @ id_hex cid))
             (p\<lparr>shared := (shared p)\<lparr>bytes_used := bytes_used (shared p) - of_nat size_before\<rparr>\<rparr>))"
| "thread_step evp (Exists_lock cid) p =
     (if LockFor cid \<in> stripe_locks (shared p) then None else Some (Exists_stat cid, lock_stripe cid p))"
| "thread_step evp (Exists_stat cid) p =
     (let (ex, ec) = fs_exists (os (shared p)) (FinalPathFor (shared p) cid) (disk (shared p))
      in Some (Leaving (Exists_outcome (Returns (ex \<and> \<not> ec))) cid [], p))"
| "thread_step evp (Leaving out cid (g # gs)) p = Some (Leaving out cid gs, p\<lparr>fds := ScopedFd_dtor g (fds p)\<rparr>)"
| "thread_step evp (Leaving out cid []) p = Some (Op_finished out cid, unlock_stripe cid p)"
| "thread_step evp At_rest p = None"
| "thread_step evp (Op_finished out cid) p = None"

end
