(* ===== verification/Disk_Threads.thy ===== *)
theory Disk_Threads
  imports Disk_Steps
begin

text \<open>
  What one step of one thread does: to the stripe locks, to the descriptor table, to the disk and
  to the two counters. Each lemma is a case analysis over the places a thread can be at; the
  theory \<open>Disk_Concurrent\<close> puts them together for many threads.
\<close>

section \<open>What a thread holds\<close>

text \<open>The chunk whose stripe a thread has locked, and the descriptor guards it has in scope.\<close>

definition holds :: "disk_thread \<Rightarrow> ChunkId option" where
  "holds t = (case t of
      Put_relock cid _ \<Rightarrow> Some cid | Put_exists cid _ \<Rightarrow> Some cid | Put_mkdir cid _ \<Rightarrow> Some cid
    | Put_open cid _ \<Rightarrow> Some cid | Put_fill cid _ _ _ \<Rightarrow> Some cid | Put_fsync cid _ _ _ \<Rightarrow> Some cid
    | Put_close cid _ _ _ \<Rightarrow> Some cid | Put_rename cid _ _ _ \<Rightarrow> Some cid | Put_discard cid _ _ _ \<Rightarrow> Some cid
    | Put_open_dir cid _ _ \<Rightarrow> Some cid | Put_fsync_dir cid _ _ _ \<Rightarrow> Some cid | Put_count cid _ _ _ \<Rightarrow> Some cid
    | Put_bytes cid _ _ _ \<Rightarrow> Some cid | Put_log cid _ _ \<Rightarrow> Some cid
    | Get_size cid \<Rightarrow> Some cid | Get_open cid _ \<Rightarrow> Some cid | Get_read cid _ _ \<Rightarrow> Some cid
    | Get_verify cid _ _ \<Rightarrow> Some cid | Delete_size cid \<Rightarrow> Some cid | Delete_remove cid _ \<Rightarrow> Some cid
    | Delete_count cid _ \<Rightarrow> Some cid | Delete_bytes cid _ \<Rightarrow> Some cid | Exists_stat cid \<Rightarrow> Some cid
    | Leaving _ cid _ \<Rightarrow> Some cid
    | _ \<Rightarrow> None)"

definition guards :: "disk_thread \<Rightarrow> ScopedFd list" where
  "guards t = (case t of
      Put_fill _ _ _ g \<Rightarrow> [g] | Put_fsync _ _ _ g \<Rightarrow> [g] | Put_close _ _ _ g \<Rightarrow> [g] | Put_rename _ _ _ g \<Rightarrow> [g]
    | Put_discard _ _ g _ \<Rightarrow> [g] | Put_open_dir _ _ g \<Rightarrow> [g] | Put_fsync_dir _ _ h g \<Rightarrow> [h, g]
    | Put_count _ _ h g \<Rightarrow> [h, g] | Put_bytes _ _ h g \<Rightarrow> [h, g] | Put_log _ h g \<Rightarrow> [h, g]
    | Get_read _ _ g \<Rightarrow> [g] | Get_verify _ _ g \<Rightarrow> [g] | Leaving _ _ gs \<Rightarrow> gs
    | _ \<Rightarrow> [])"

lemmas step_splits = run.splits if_splits relock_behaviour.splits prod.splits option.splits

lemma step_locks:
  assumes "thread_step evp t p = Some (t', p')"
  shows "holds t' = holds t \<and> stripe_locks (shared p') = stripe_locks (shared p) \<or>
    (\<exists>cid. holds t = None \<and> holds t' = Some cid \<and> LockFor cid \<notin> stripe_locks (shared p) \<and>
       stripe_locks (shared p') = insert (LockFor cid) (stripe_locks (shared p))) \<or>
    (\<exists>cid. holds t = Some cid \<and> holds t' = None \<and>
       stripe_locks (shared p') = stripe_locks (shared p) - {LockFor cid})"
proof (cases t)
  case (Leaving out cid gs)
  then show ?thesis using assms by (cases gs) (auto simp: holds_def)
qed (use assms in \<open>auto simp: holds_def Let_def drop_tmp_def split: step_splits\<close>)

lemma step_fds:
  assumes "thread_step evp t p = Some (t', p')" "table_ok (fds p)" "guarded (guards t) \<subseteq># mset (fds p)"
  shows "table_ok (fds p') \<and> mset (fds p') + guarded (guards t) = mset (fds p) + guarded (guards t')"
proof (cases t)
  case (Leaving out cid gs)
  show ?thesis
  proof (cases gs)
    case (Cons g gs')
    have "guarded [g] \<subseteq># mset (fds p)"
      using assms(3) Leaving Cons by (auto simp: guards_def split: if_splits dest: mset_subset_eqD)
    from ScopedFd_dtor_table [OF assms(2) this] show ?thesis
      using assms(1) Leaving Cons by (auto simp: guards_def)
  qed (use assms Leaving in \<open>auto simp: guards_def\<close>)
next
  case (Put_open cid data)
  obtain b d where b: "posix_open_write (os (shared p)) (tmp_path_for (shared p) cid) (disk (shared p)) = (b, d)"
    by fastforce
  obtain fd tab where o: "internal_open b (fds p) = (fd, tab)" by fastforce
  show ?thesis using assms(1,2) Put_open b o internal_open_table [OF o assms(2)]
    by (auto simp: guards_def Let_def split: if_splits)
next
  case (Put_open_dir cid data g)
  obtain fd tab where o: "internal_open (os_open_dir_ok (os (shared p))) (fds p) = (fd, tab)" by fastforce
  show ?thesis using assms(1,2) Put_open_dir o internal_open_table [OF o assms(2)]
    by (auto simp: guards_def Let_def split: if_splits)
next
  case (Get_open cid n)
  obtain fd tab where o: "internal_open (posix_open_read (os (shared p)) (FinalPathFor (shared p) cid)
      (disk (shared p))) (fds p) = (fd, tab)" by fastforce
  show ?thesis using assms(1,2) Get_open o internal_open_table [OF o assms(2)]
    by (auto simp: guards_def Let_def split: if_splits)
next
  case (Put_close cid data tmp g)
  then show ?thesis using assms posix_close_table [of "fds p" g]
    by (auto simp: guards_def Let_def ScopedFd_release_def split: if_splits)
qed (use assms in \<open>auto simp: guards_def Let_def drop_tmp_def split: step_splits\<close>)


section \<open>What a thread knows\<close>

definition tmp_of :: "LocalDisk \<Rightarrow> ChunkId \<Rightarrow> path \<Rightarrow> bool" where
  "tmp_of s cid q \<longleftrightarrow> (\<exists>u. uuid_wf u \<and> q = ShardDirFor s cid @ [id_hex cid @ ''.tmp.'' @ u])"

text \<open>The paths that only a thread holding the chunk's stripe touches.\<close>

definition own_path :: "LocalDisk \<Rightarrow> ChunkId \<Rightarrow> path \<Rightarrow> bool" where
  "own_path s cid q \<longleftrightarrow> q = FinalPathFor s cid \<or> tmp_of s cid q"

abbreviation file_at :: "LocalDisk \<Rightarrow> path \<Rightarrow> byte list \<Rightarrow> bool" where
  "file_at s q b \<equiv> map_of (disk s) q = Some (File b)"

abbreviation hashes_to :: "'c EVP \<Rightarrow> byte list \<Rightarrow> ChunkId \<Rightarrow> bool" where
  "hashes_to evp d cid \<equiv> HashBytes evp d = Returns (id_digest cid)"

text \<open>What a result says about the disk while the stripe is still locked.\<close>

definition outcome_true :: "'c EVP \<Rightarrow> LocalDisk \<Rightarrow> disk_outcome \<Rightarrow> ChunkId \<Rightarrow> bool" where
  "outcome_true evp s out cid = (case out of
      Put_outcome r \<Rightarrow> r = Returns (Ok ()) \<longrightarrow> map_of (disk s) (FinalPathFor s cid) \<noteq> None
    | Get_outcome r \<Rightarrow> (\<forall>d. r = Returns (Ok d) \<longrightarrow> file_at s (FinalPathFor s cid) d \<and> hashes_to evp d cid)
    | Delete_outcome r \<Rightarrow> r = Returns (Ok ()) \<longrightarrow> map_of (disk s) (FinalPathFor s cid) = None
    | Exists_outcome r \<Rightarrow> (\<forall>b. r = Returns b \<longrightarrow> b = (map_of (disk s) (FinalPathFor s cid) \<noteq> None)))"

definition outcome_sound :: "'c EVP \<Rightarrow> disk_outcome \<Rightarrow> ChunkId \<Rightarrow> bool" where
  "outcome_sound evp out cid = (case out of
      Get_outcome r \<Rightarrow> (\<forall>d. r = Returns (Ok d) \<longrightarrow> hashes_to evp d cid)
    | _ \<Rightarrow> True)"

definition about_chunk :: "disk_thread \<Rightarrow> ChunkId option" where
  "about_chunk t = (case t of
      At_rest \<Rightarrow> None
    | Put_start cid _ \<Rightarrow> Some cid | Put_lock cid _ \<Rightarrow> Some cid | Get_lock cid \<Rightarrow> Some cid
    | Delete_lock cid \<Rightarrow> Some cid | Exists_lock cid \<Rightarrow> Some cid | Op_finished _ cid \<Rightarrow> Some cid
    | _ \<Rightarrow> holds t)"

definition thread_ok :: "'c EVP \<Rightarrow> LocalDisk \<Rightarrow> disk_thread \<Rightarrow> bool" where
  "thread_ok evp s t \<longleftrightarrow> (\<forall>cid. about_chunk t = Some cid \<longrightarrow> ChunkId_wf cid) \<and> (case t of
      Put_lock cid data \<Rightarrow> hashes_to evp data cid
    | Put_relock cid data \<Rightarrow> hashes_to evp data cid
    | Put_exists cid data \<Rightarrow> hashes_to evp data cid
    | Put_mkdir cid data \<Rightarrow> hashes_to evp data cid \<and> map_of (disk s) (FinalPathFor s cid) = None
    | Put_open cid data \<Rightarrow> hashes_to evp data cid \<and> map_of (disk s) (FinalPathFor s cid) = None
    | Put_fill cid data q g \<Rightarrow> hashes_to evp data cid \<and> map_of (disk s) (FinalPathFor s cid) = None \<and>
        tmp_of s cid q \<and> file_at s q []
    | Put_fsync cid data q g \<Rightarrow> hashes_to evp data cid \<and> map_of (disk s) (FinalPathFor s cid) = None \<and>
        tmp_of s cid q \<and> file_at s q data
    | Put_close cid data q g \<Rightarrow> hashes_to evp data cid \<and> map_of (disk s) (FinalPathFor s cid) = None \<and>
        tmp_of s cid q \<and> file_at s q data
    | Put_rename cid data q g \<Rightarrow> hashes_to evp data cid \<and> map_of (disk s) (FinalPathFor s cid) = None \<and>
        tmp_of s cid q \<and> file_at s q data
    | Put_discard cid q g m \<Rightarrow> tmp_of s cid q
    | Put_open_dir cid data g \<Rightarrow> file_at s (FinalPathFor s cid) data
    | Put_fsync_dir cid data h g \<Rightarrow> file_at s (FinalPathFor s cid) data
    | Put_count cid data h g \<Rightarrow> file_at s (FinalPathFor s cid) data
    | Put_bytes cid data h g \<Rightarrow> file_at s (FinalPathFor s cid) data
    | Put_log cid h g \<Rightarrow> map_of (disk s) (FinalPathFor s cid) \<noteq> None
    | Get_open cid n \<Rightarrow> (\<exists>b. file_at s (FinalPathFor s cid) b \<and> length b = n)
    | Get_read cid n g \<Rightarrow> (\<exists>b. file_at s (FinalPathFor s cid) b \<and> length b = n)
    | Get_verify cid data g \<Rightarrow> file_at s (FinalPathFor s cid) data
    | Delete_remove cid n \<Rightarrow> (\<exists>b. file_at s (FinalPathFor s cid) b \<and> length b = n)
    | Delete_count cid n \<Rightarrow> map_of (disk s) (FinalPathFor s cid) = None
    | Delete_bytes cid n \<Rightarrow> map_of (disk s) (FinalPathFor s cid) = None
    | Leaving out cid gs \<Rightarrow> outcome_true evp s out cid
    | Op_finished out cid \<Rightarrow> outcome_sound evp out cid
    | _ \<Rightarrow> True)"

lemmas thread_defs = thread_ok_def about_chunk_def holds_def outcome_true_def outcome_sound_def

lemma FinalPathFor_root: "data_root s' = data_root s \<Longrightarrow> FinalPathFor s' cid = FinalPathFor s cid"
  by (simp add: FinalPathFor_def ShardDirFor_def)

lemma tmp_of_root: "data_root s' = data_root s \<Longrightarrow> tmp_of s' cid q = tmp_of s cid q"
  by (simp add: tmp_of_def ShardDirFor_def)

lemma thread_ok_frame:
  assumes "thread_ok evp s t" "data_root s' = data_root s"
    "\<And>cid q. holds t = Some cid \<Longrightarrow> own_path s cid q \<Longrightarrow> map_of (disk s') q = map_of (disk s) q"
  shows "thread_ok evp s' t"
  using assms FinalPathFor_root [OF assms(2)] tmp_of_root [OF assms(2)]
  by (cases t) (auto simp: thread_defs own_path_def split: disk_outcome.splits)

section \<open>What a step does to the disk\<close>

definition disk_ok :: "LocalDisk \<Rightarrow> bool" where
  "disk_ok s \<longleftrightarrow> distinct (map fst (disk s)) \<and> fs_lookup (data_root s) (disk s) = Some Dir \<and>
     (\<forall>cid. ChunkId_wf cid \<longrightarrow> map_of (disk s) (FinalPathFor s cid) \<noteq> Some Dir) \<and>
     uuid_wf (os_uuid (os s)) \<and> os_stat_ok (os s)"

lemma tmp_of_facts:
  assumes "tmp_of s cid q"
  shows "\<not> is_chunk_path (data_root s) q" "q \<noteq> data_root s" "length (data_root s) + 2 < length q"
  using assms tmp_not_chunk_path [of _ "data_root s" "ShardDirFor s cid" "id_hex cid"]
  by (auto simp: tmp_of_def ShardDirFor_def)

lemma tmp_of_tmp_path_for: "uuid_wf (os_uuid (os s)) \<Longrightarrow> tmp_of s cid (tmp_path_for s cid)"
  by (auto simp: tmp_of_def tmp_path_for_def)

lemma own_path_disjoint:
  assumes "ChunkId_wf a" "ChunkId_wf b" "own_path s a q" "own_path s b q"
  shows "a = b"
proof -
  have "take 64 (last q) = id_hex c" if "ChunkId_wf c" "own_path s c q" for c
    using that ChunkId_wf_length [OF that(1)] by (auto simp: own_path_def tmp_of_def FinalPathFor_def)
  then have "id_hex a = id_hex b" using assms by metis
  then show ?thesis using ChunkId_eq_iff(2) [OF assms(1,2)] by simp
qed

lemma step_constants:
  assumes "thread_step evp t p = Some (t', p')"
  shows "data_root (shared p') = data_root (shared p) \<and> os (shared p') = os (shared p) \<and>
    relock (shared p') = relock (shared p)"
proof (cases t)
  case (Leaving out cid gs)
  then show ?thesis using assms by (cases gs) auto
qed (use assms in \<open>auto simp: Let_def drop_tmp_def split: step_splits\<close>)

text \<open>The changes of the disk, by the places where they happen.\<close>

lemma step_disk_cases:
  assumes "thread_step evp t p = Some (t', p')"
  obtains (same) "disk (shared p') = disk (shared p)"
    "\<And>cid data q g. t = Put_rename cid data q g \<Longrightarrow> t' \<noteq> Put_open_dir cid data g" "\<And>cid n. t' \<noteq> Delete_count cid n"
  | (mkdir) cid data where "t = Put_mkdir cid data"
      "disk (shared p') = snd (fs_create_directories (os (shared p)) (ShardDirFor (shared p) cid) (disk (shared p)))"
  | (opened) cid data where "t = Put_open cid data"
      "disk (shared p') = snd (posix_open_write (os (shared p)) (tmp_path_for (shared p) cid) (disk (shared p)))"
  | (written) cid data q g where "t = Put_fill cid data q g"
      "disk (shared p') = snd (posix_write (os (shared p)) q data (disk (shared p)))"
  | (renamed) cid data q g where "t = Put_rename cid data q g" "t' = Put_open_dir cid data g"
      "fs_rename (os (shared p)) q (FinalPathFor (shared p) cid) (disk (shared p)) = (True, disk (shared p'))"
  | (dropped) cid q g m where "t = Put_discard cid q g m"
      "disk (shared p') = snd (fs_remove (os (shared p)) q (disk (shared p)))"
  | (removed) cid n where "t = Delete_remove cid n" "t' = Delete_count cid n"
      "fs_remove (os (shared p)) (FinalPathFor (shared p) cid) (disk (shared p)) = (True, disk (shared p'))"
proof (cases t)
  case (Leaving out cid gs)
  then show ?thesis using assms same by (cases gs) auto
next
  case (Put_rename cid data q g)
  then show ?thesis using assms same renamed rename_fail
    by (auto simp: Let_def split: prod.splits if_splits)
next
  case (Delete_remove cid n)
  obtain b d where d: "fs_remove (os (shared p)) (FinalPathFor (shared p) cid) (disk (shared p)) = (b, d)" by fastforce
  show ?thesis
  proof (cases b)
    case True
    then show ?thesis using assms removed Delete_remove d by (auto simp: Let_def)
  next
    case False
    with d have "d = disk (shared p)"
      by (auto simp: fs_remove_def split: if_splits option.splits node.splits)
    with False show ?thesis using assms same Delete_remove d by (auto simp: Let_def)
  qed
next
  case (Put_mkdir cid data)
  then show ?thesis using assms mkdir by (auto simp: Let_def split: prod.splits if_splits)
next
  case (Put_open cid data)
  then show ?thesis using assms opened by (auto simp: Let_def split: prod.splits if_splits)
next
  case (Put_fill cid data q g)
  then show ?thesis using assms written same by (auto simp: Let_def split: prod.splits if_splits)
next
  case (Put_discard cid q g m)
  then show ?thesis using assms dropped by (auto simp: drop_tmp_def)
qed (use assms same in \<open>auto simp: Let_def split: step_splits\<close>)

lemma create_directories_long:
  assumes "length p < length q"
  shows "map_of (snd (fs_create_directories osa p d)) q = map_of d q"
proof -
  have "map_of (snd (mkdirs [] cs d)) q = map_of d q" if "length cs < length q" for cs
  proof -
    obtain ps where ps: "snd (mkdirs [] cs d) = d @ map (\<lambda>p. (p, Dir)) ps" "\<forall>p \<in> set ps. length p \<le> length cs"
      using mkdirs_only_adds_dirs [of "[]" cs d] by auto
    then have "map_of (map (\<lambda>p. (p, Dir)) ps) q = None"
      using that by (auto simp: map_of_eq_None_iff)
    with ps show ?thesis by (simp add: map_add_def split: option.splits)
  qed
  then show ?thesis using assms by (auto simp: fs_create_directories_def split: option.splits)
qed

lemma single_path_frame:
  "q \<noteq> r \<Longrightarrow> map_of (snd (posix_open_write osa r d)) q = map_of d q"
  "q \<noteq> r \<Longrightarrow> map_of (snd (posix_write osa r data d)) q = map_of d q"
  "q \<noteq> r \<Longrightarrow> map_of (snd (fs_remove osa r d)) q = map_of d q"
  "q \<noteq> r \<Longrightarrow> q \<noteq> r' \<Longrightarrow> map_of (snd (fs_rename osa r r' d)) q = map_of d q"
  by (auto simp: posix_open_write_def posix_write_def fs_remove_def fs_rename_def update_conv' delete_conv'
      split: option.splits node.splits)

text \<open>Below the shard directories a thread touches only paths of the chunk it has locked.\<close>

lemma step_frame:
  assumes "thread_step evp t p = Some (t', p')" "thread_ok evp (shared p) t" "disk_ok (shared p)"
    "length (data_root (shared p)) + 2 < length q" "\<And>cid. holds t = Some cid \<Longrightarrow> \<not> own_path (shared p) cid q"
  shows "map_of (disk (shared p')) q = map_of (disk (shared p)) q"
  using assms(1)
proof (cases rule: step_disk_cases)
  case (mkdir cid data)
  then show ?thesis
    using create_directories_long [of "ShardDirFor (shared p) cid" q] assms(4) by (simp add: ShardDirFor_def)
next
  case (opened cid data)
  then show ?thesis
    using single_path_frame(1) [of q "tmp_path_for (shared p) cid"] assms(3,5) tmp_of_tmp_path_for [of "shared p" cid]
    by (auto simp: holds_def own_path_def disk_ok_def)
next
  case (written cid data r g)
  then show ?thesis
    using single_path_frame(2) [of q r] assms(2,5) by (auto simp: thread_defs own_path_def)
next
  case (renamed cid data r g)
  then show ?thesis
    using single_path_frame(4) [of q r "FinalPathFor (shared p) cid" "os (shared p)" "disk (shared p)"] assms(2,5)
    by (auto simp: thread_defs own_path_def)
next
  case (dropped cid r g m)
  then show ?thesis
    using single_path_frame(3) [of q r] assms(2,5) by (auto simp: thread_defs own_path_def)
next
  case (removed cid n)
  then show ?thesis
    using single_path_frame(3) [of q "FinalPathFor (shared p) cid" "os (shared p)" "disk (shared p)"] assms(5)
    by (auto simp: holds_def own_path_def)
qed simp

text \<open>Only a successful rename and a successful removal change the chunk files.\<close>

lemma step_chunks:
  assumes "thread_step evp t p = Some (t', p')" "thread_ok evp (shared p) t" "disk_ok (shared p)"
  obtains (same) "same_chunks (data_root (shared p)) (disk (shared p)) (disk (shared p'))"
      "\<And>cid data g. t' = Put_open_dir cid data g \<Longrightarrow> False" "\<And>cid n. t' = Delete_count cid n \<Longrightarrow> False"
  | (renamed) cid data q g where "t = Put_rename cid data q g" "t' = Put_open_dir cid data g"
      "disk (shared p') = AList.update (FinalPathFor (shared p) cid) (File data) (AList.delete q (disk (shared p)))"
  | (removed) cid b where "t = Delete_remove cid (length b)" "t' = Delete_count cid (length b)"
      "file_at (shared p) (FinalPathFor (shared p) cid) b"
      "disk (shared p') = AList.delete (FinalPathFor (shared p) cid) (disk (shared p))"
  using assms(1)
proof (cases rule: step_disk_cases)
  case (renamed cid data q g)
  then show thesis
    using that(2) [of cid data q g] assms(2) rename_content [OF renamed(3)] by (simp add: thread_ok_def)
next
  case (removed cid n)
  moreover obtain b where "file_at (shared p) (FinalPathFor (shared p) cid) b" "length b = n"
    using assms(2) removed(1) by (auto simp: thread_ok_def)
  ultimately show thesis
    using that(3) [of cid b] by (auto simp: fs_remove_def split: if_splits)
next
  case s: same
  show thesis
  proof (rule that(1))
    show "same_chunks (data_root (shared p)) (disk (shared p)) (disk (shared p'))" using s(1) by simp
    show False if "t' = Delete_count cid n" for cid n using that s(3) by blast
    show False if e: "t' = Put_open_dir cid data g" for cid data g
      using assms(1) s(2) e
      by (cases t) (auto simp: Let_def split: step_splits list.splits elim!: thread_step.elims)
  qed
next
  case (mkdir cid data)
  then show thesis
    using that(1) same_chunks_create_directories [of "ShardDirFor (shared p) cid" "data_root (shared p)"] assms(1)
    by (auto simp: ShardDirFor_def Let_def split: prod.splits if_splits)
next
  case (opened cid data)
  have "tmp_of (shared p) cid (tmp_path_for (shared p) cid)"
    using assms(3) tmp_of_tmp_path_for by (simp add: disk_ok_def)
  then show thesis
    using that(1) opened same_chunks_open_write tmp_of_facts assms(1)
    by (auto simp: Let_def split: prod.splits if_splits)
next
  case (written cid data q g)
  have "tmp_of (shared p) cid q" using assms(2) written(1) by (simp add: thread_ok_def)
  then show thesis
    using that(1) written same_chunks_write tmp_of_facts assms(1)
    by (auto simp: Let_def split: prod.splits if_splits)
next
  case (dropped cid q g m)
  have "tmp_of (shared p) cid q" using assms(2) dropped(1) by (simp add: thread_ok_def)
  then show thesis
    using that(1) dropped same_chunks_remove tmp_of_facts assms(1) by auto
qed

lemma step_disk_ok:
  assumes "thread_step evp t p = Some (t', p')" "thread_ok evp (shared p) t" "disk_ok (shared p)"
  shows "disk_ok (shared p')"
proof -
  note const = step_constants [OF assms(1)]
  note final = FinalPathFor_root [OF conjunct1 [OF const]]
  from assms show ?thesis
  proof (cases rule: step_chunks)
    case same
    then show ?thesis
      using assms(3) const final same_chunks_stored [OF same(1)]
      by (simp add: disk_ok_def same_chunks_def del: map_of_eq_Some_iff)
  next
    case (renamed cid data q g)
    have "q \<noteq> data_root (shared p)" using assms(2) renamed(1) tmp_of_facts(2) [of "shared p" cid q] by (simp add: thread_ok_def)
    then show ?thesis
      using assms(3) const final renamed(3) length_FinalPathFor [of "shared p" cid]
      by (auto simp: disk_ok_def update_conv' delete_conv' distinct_update distinct_delete fs_lookup_def
          simp del: map_of_eq_Some_iff)
  next
    case (removed cid b)
    then show ?thesis
      using assms(3) const final length_FinalPathFor [of "shared p" cid]
      by (auto simp: disk_ok_def delete_conv' distinct_delete fs_lookup_def simp del: map_of_eq_Some_iff)
  qed
qed

definition verified :: "'c EVP \<Rightarrow> LocalDisk \<Rightarrow> bool" where
  "verified evp s \<longleftrightarrow> (\<forall>cid b. ChunkId_wf cid \<longrightarrow> stored s cid = Some b \<longrightarrow> hashes_to evp b cid)"

lemma step_stored:
  assumes "thread_step evp t p = Some (t', p')" "thread_ok evp (shared p) t" "disk_ok (shared p)" "ChunkId_wf x"
  shows "stored (shared p') x =
    (case (t, t') of
       (Put_rename cid data q g, Put_open_dir _ _ _) \<Rightarrow> if x = cid then Some data else stored (shared p) x
     | (Delete_remove cid n, Delete_count _ _) \<Rightarrow> if x = cid then None else stored (shared p) x
     | _ \<Rightarrow> stored (shared p) x)"
proof -
  note final = FinalPathFor_root [OF conjunct1 [OF step_constants [OF assms(1)]]]
  from assms(1-3) show ?thesis
  proof (cases rule: step_chunks)
    case same
    then have "stored (shared p') x = stored (shared p) x"
      using same_chunks_stored [OF same(1) assms(4)] final by (simp add: stored_def)
    with same(2,3) show ?thesis by (auto split: disk_thread.splits)
  next
    case (renamed cid data q g)
    have wf: "ChunkId_wf cid" "q \<noteq> FinalPathFor (shared p) x"
      using assms(2,4) renamed(1) tmp_of_facts(1) [of "shared p" cid q] is_chunk_path_final [of x "shared p"]
      by (auto simp: thread_defs)
    then show ?thesis
      using renamed final FinalPathFor_inj [OF assms(4) wf(1), of "shared p"]
      by (auto simp: stored_def update_conv' delete_conv')
  next
    case (removed cid b)
    have "ChunkId_wf cid" using assms(2) removed(1) by (simp add: thread_defs)
    then show ?thesis
      using removed final FinalPathFor_inj [OF assms(4), of cid "shared p"]
      by (auto simp: stored_def delete_conv')
  qed
qed

lemma step_verified:
  assumes "thread_step evp t p = Some (t', p')" "thread_ok evp (shared p) t" "disk_ok (shared p)" "verified evp (shared p)"
  shows "verified evp (shared p')"
  unfolding verified_def
proof (intro allI impI)
  fix cid b
  assume "ChunkId_wf cid" "stored (shared p') cid = Some b"
  then show "hashes_to evp b cid"
    using step_stored [OF assms(1-3), of cid] assms(2,4)
    by (auto simp: verified_def thread_ok_def split: disk_thread.splits if_splits)
qed

text \<open>What a thread knows stays true, and its next step teaches it what the next place needs.\<close>

lemma open_write_creates:
  assumes "posix_open_write osa q d = (True, d')"
  shows "map_of d' q = Some (File [])" "r \<noteq> q \<Longrightarrow> map_of d' r = map_of d r"
  using assms by (auto simp: posix_open_write_def update_conv' split: if_splits)

lemma file_size_Some:
  assumes "fs_file_size osa q d = Some n" "q \<noteq> []"
  obtains b where "map_of d q = Some (File b)" "length b = n"
  using assms by (auto simp: fs_file_size_def split: if_splits option.splits node.splits)

lemma step_thread_ok:
  assumes "thread_step evp t p = Some (t', p')" "thread_ok evp (shared p) t" "disk_ok (shared p)"
  shows "thread_ok evp (shared p') t'"
proof (cases t)
  case (Leaving out cid gs)
  then show ?thesis using assms(1,2)
    by (cases gs) (auto simp: thread_defs split: disk_outcome.splits)
next
  case (Put_exists cid data)
  then show ?thesis using assms by (auto simp: thread_defs fs_exists_def disk_ok_def simp del: map_of_eq_Some_iff split: if_splits)
next
  case (Put_mkdir cid data)
  have "map_of (snd (fs_create_directories (os (shared p)) (ShardDirFor (shared p) cid) (disk (shared p))))
      (FinalPathFor (shared p) cid) = map_of (disk (shared p)) (FinalPathFor (shared p) cid)"
    by (rule create_directories_long) (simp add: FinalPathFor_def)
  then show ?thesis using assms(1,2) Put_mkdir
    by (auto simp: thread_defs Let_def split: prod.splits if_splits)
next
  case (Put_open cid data)
  have tmp: "tmp_of (shared p) cid (tmp_path_for (shared p) cid)"
    using assms(3) tmp_of_tmp_path_for by (simp add: disk_ok_def)
  have wf: "ChunkId_wf cid" using assms(2) Put_open by (simp add: thread_defs)
  have ne: "FinalPathFor (shared p) cid \<noteq> tmp_path_for (shared p) cid"
    using tmp_of_facts(1) [OF tmp] is_chunk_path_final [OF wf, of "shared p"] by metis
  obtain o1 d where o: "posix_open_write (os (shared p)) (tmp_path_for (shared p) cid) (disk (shared p)) = (o1, d)"
    by fastforce
  obtain fd tab where f: "internal_open o1 (fds p) = (fd, tab)" by fastforce
  have "fd < 0 \<longleftrightarrow> \<not> o1" using f lowest_free_fresh(2) [of "fds p"] by (auto simp: internal_open_def split: if_splits)
  then show ?thesis
    using assms(1,2) Put_open o f open_write_creates [of "os (shared p)" "tmp_path_for (shared p) cid" "disk (shared p)" d] tmp ne
      tmp_of_root [of "shared p'" "shared p" cid]
    by (auto simp: thread_defs Let_def tmp_of_def ShardDirFor_def split: if_splits)
next
  case (Put_fill cid data q g)
  have ne: "FinalPathFor (shared p) cid \<noteq> q"
    using assms(2) Put_fill tmp_of_facts(1) is_chunk_path_final [of cid "shared p"] by (auto simp: thread_defs)
  show ?thesis
    using assms(1,2) Put_fill ne write_content [of "os (shared p)" q data "disk (shared p)"]
      single_path_frame(2) [OF ne, of "os (shared p)" data "disk (shared p)"]
    by (auto simp: thread_defs Let_def tmp_of_def ShardDirFor_def split: prod.splits if_splits)
next
  case (Put_rename cid data q g)
  obtain b d where r: "fs_rename (os (shared p)) q (FinalPathFor (shared p) cid) (disk (shared p)) = (b, d)" by fastforce
  show ?thesis
    using assms(1,2) Put_rename r rename_content [of "os (shared p)" q "FinalPathFor (shared p) cid" "disk (shared p)" d data]
    by (cases b) (auto simp: thread_defs tmp_of_def ShardDirFor_def update_conv')
next
  case (Get_size cid)
  then show ?thesis using assms(1,2)
    by (auto simp: thread_defs split: option.splits elim!: file_size_Some)
next
  case (Get_read cid n g)
  then show ?thesis using assms(1,2)
    by (auto simp: thread_defs posix_read_def split: option.splits if_splits)
next
  case (Delete_size cid)
  then show ?thesis using assms
    by (auto simp: thread_defs disk_ok_def fs_file_size_def split: option.splits node.splits)
next
  case (Delete_remove cid n)
  then show ?thesis using assms(1,2)
    by (auto simp: thread_defs fs_remove_def delete_conv' split: option.splits if_splits)
next
  case (Exists_stat cid)
  then show ?thesis using assms by (auto simp: thread_defs fs_exists_def disk_ok_def)
qed (use assms(1,2) in \<open>auto simp: thread_defs Let_def drop_tmp_def tmp_of_def ShardDirFor_def split: step_splits\<close>)

section \<open>What a step does to the counters\<close>

text \<open>
  A \<open>Put\<close> that has renamed its file has still to add it to the two counters; a \<open>Delete\<close> that has
  removed a file has still to subtract it.
\<close>

definition due_count :: "disk_thread \<Rightarrow> nat" where
  "due_count t = (case t of Put_open_dir _ _ _ \<Rightarrow> 1 | Put_fsync_dir _ _ _ _ \<Rightarrow> 1 | Put_count _ _ _ _ \<Rightarrow> 1 | _ \<Rightarrow> 0)"

definition due_bytes :: "disk_thread \<Rightarrow> nat" where
  "due_bytes t = (case t of
      Put_open_dir _ data _ \<Rightarrow> length data | Put_fsync_dir _ data _ _ \<Rightarrow> length data
    | Put_count _ data _ _ \<Rightarrow> length data | Put_bytes _ data _ _ \<Rightarrow> length data | _ \<Rightarrow> 0)"

definition owed_count :: "disk_thread \<Rightarrow> nat" where
  "owed_count t = (case t of Delete_count _ _ \<Rightarrow> 1 | _ \<Rightarrow> 0)"

definition owed_bytes :: "disk_thread \<Rightarrow> nat" where
  "owed_bytes t = (case t of Delete_count _ n \<Rightarrow> n | Delete_bytes _ n \<Rightarrow> n | _ \<Rightarrow> 0)"

lemmas due_defs = due_count_def due_bytes_def owed_count_def owed_bytes_def

definition file_count :: "LocalDisk \<Rightarrow> nat" where
  "file_count s = length (chunk_files (data_root s) (disk s))"

definition file_bytes :: "LocalDisk \<Rightarrow> nat" where
  "file_bytes s = total_bytes (chunk_files (data_root s) (disk s))"

lemma counter_steps:
  assumes "thread_step evp t p = Some (t', p')" "\<And>cid data g. t' \<noteq> Put_open_dir cid data g" "\<And>cid n. t' \<noteq> Delete_count cid n"
  shows "chunk_count (shared p') + of_nat (due_count t') + of_nat (owed_count t) =
      chunk_count (shared p) + of_nat (due_count t) + of_nat (owed_count t')"
    and "bytes_used (shared p') + of_nat (due_bytes t') + of_nat (owed_bytes t) =
      bytes_used (shared p) + of_nat (due_bytes t) + of_nat (owed_bytes t')"
proof -
  have "chunk_count (shared p') + of_nat (due_count t') + of_nat (owed_count t) =
      chunk_count (shared p) + of_nat (due_count t) + of_nat (owed_count t') \<and>
    bytes_used (shared p') + of_nat (due_bytes t') + of_nat (owed_bytes t) =
      bytes_used (shared p) + of_nat (due_bytes t) + of_nat (owed_bytes t')"
  proof (cases t)
    case (Leaving out cid gs)
    then show ?thesis using assms(1) by (cases gs) (auto simp: due_defs)
  next
    case (Delete_remove cid n)
    then show ?thesis using assms(1) assms(3) [of cid n] by (auto simp: due_defs Let_def split: step_splits)
  qed (use assms in \<open>auto simp: due_defs Let_def drop_tmp_def split: step_splits\<close>)
  then show "chunk_count (shared p') + of_nat (due_count t') + of_nat (owed_count t) =
      chunk_count (shared p) + of_nat (due_count t) + of_nat (owed_count t')"
    "bytes_used (shared p') + of_nat (due_bytes t') + of_nat (owed_bytes t) =
      bytes_used (shared p) + of_nat (due_bytes t) + of_nat (owed_bytes t')"
    by blast+
qed

lemma renamed_files:
  assumes "disk_ok s" "ChunkId_wf cid" "tmp_of s cid q" "map_of (disk s) (FinalPathFor s cid) = None"
  shows "chunk_files (data_root s) (AList.update (FinalPathFor s cid) (File data) (AList.delete q (disk s))) =
    chunk_files (data_root s) (disk s) @ [(FinalPathFor s cid, data)]"
proof -
  have "q \<noteq> FinalPathFor s cid"
    using tmp_of_facts(1) [OF assms(3)] is_chunk_path_final [OF assms(2), of s] by metis
  then have "map_of (AList.delete q (disk s)) (FinalPathFor s cid) = None"
    using assms(4) by (simp add: delete_conv')
  moreover have "chunk_files (data_root s) (AList.delete q (disk s)) = chunk_files (data_root s) (disk s)"
    using same_chunks_delete [OF tmp_of_facts(1,2) [OF assms(3)], of "disk s"] by (simp add: same_chunks_def)
  ultimately show ?thesis
    using chunk_files_update_new [OF is_chunk_path_final [OF assms(2)], of _ s data] by simp
qed

lemma removed_files:
  assumes "disk_ok s" "ChunkId_wf cid" "file_at s (FinalPathFor s cid) b"
  shows "Suc (length (chunk_files (data_root s) (AList.delete (FinalPathFor s cid) (disk s)))) = file_count s"
    and "length b + total_bytes (chunk_files (data_root s) (AList.delete (FinalPathFor s cid) (disk s))) = file_bytes s"
proof -
  have dist: "distinct (map fst (disk s))" using assms(1) by (simp add: disk_ok_def)
  have "(FinalPathFor s cid, b) \<in> set (chunk_files (data_root s) (disk s))"
    using assms(3) is_chunk_path_final [OF assms(2), of s] by (simp add: in_chunk_files map_of_SomeD)
  note counts = filter_other_keys [OF distinct_chunk_files [OF dist] this]
  then show "Suc (length (chunk_files (data_root s) (AList.delete (FinalPathFor s cid) (disk s)))) = file_count s"
    "length b + total_bytes (chunk_files (data_root s) (AList.delete (FinalPathFor s cid) (disk s))) = file_bytes s"
    by (simp_all add: chunk_files_delete file_count_def file_bytes_def)
qed

lemma step_balance:
  assumes "thread_step evp t p = Some (t', p')" "thread_ok evp (shared p) t" "disk_ok (shared p)"
  shows "chunk_count (shared p') + of_nat (due_count t') + (of_nat (file_count (shared p)) + of_nat (owed_count t)) =
      chunk_count (shared p) + of_nat (due_count t) + (of_nat (file_count (shared p')) + of_nat (owed_count t'))"
    and "bytes_used (shared p') + of_nat (due_bytes t') + (of_nat (file_bytes (shared p)) + of_nat (owed_bytes t)) =
      bytes_used (shared p) + of_nat (due_bytes t) + (of_nat (file_bytes (shared p')) + of_nat (owed_bytes t'))"
proof -
  note root = conjunct1 [OF step_constants [OF assms(1)]]
  have "chunk_count (shared p') + of_nat (due_count t') + (of_nat (file_count (shared p)) + of_nat (owed_count t)) =
      chunk_count (shared p) + of_nat (due_count t) + (of_nat (file_count (shared p')) + of_nat (owed_count t')) \<and>
    bytes_used (shared p') + of_nat (due_bytes t') + (of_nat (file_bytes (shared p)) + of_nat (owed_bytes t)) =
      bytes_used (shared p) + of_nat (due_bytes t) + (of_nat (file_bytes (shared p')) + of_nat (owed_bytes t'))"
    using assms
  proof (cases rule: step_chunks)
    case same
    then have f: "file_count (shared p') = file_count (shared p)" "file_bytes (shared p') = file_bytes (shared p)"
      using root by (simp_all add: same_chunks_def file_count_def file_bytes_def)
    have "chunk_count (shared p') + of_nat (due_count t') + of_nat (owed_count t) =
        chunk_count (shared p) + of_nat (due_count t) + of_nat (owed_count t')"
      "bytes_used (shared p') + of_nat (due_bytes t') + of_nat (owed_bytes t) =
        bytes_used (shared p) + of_nat (due_bytes t) + of_nat (owed_bytes t')"
      using counter_steps [OF assms(1)] same(2,3) by blast+
    from this [THEN balance_shift] show ?thesis unfolding f by (intro conjI)
  next
    case (renamed cid data q g)
    have f: "chunk_files (data_root (shared p')) (disk (shared p')) =
        chunk_files (data_root (shared p)) (disk (shared p)) @ [(FinalPathFor (shared p) cid, data)]"
      using renamed_files [OF assms(3), of cid q data] assms(2) renamed root by (simp add: thread_defs)
    have "chunk_count (shared p') = chunk_count (shared p)" "bytes_used (shared p') = bytes_used (shared p)"
      using assms(1) renamed(1) by (auto simp: Let_def split: prod.splits if_splits)
    then show ?thesis using f renamed(1,2) by (simp add: due_defs file_count_def file_bytes_def)
  next
    case (removed cid b)
    have wf: "ChunkId_wf cid" using assms(2) removed(1) by (simp add: thread_defs)
    have "chunk_count (shared p') = chunk_count (shared p)" "bytes_used (shared p') = bytes_used (shared p)"
      using assms(1) removed(1) by (auto simp: Let_def split: prod.splits if_splits)
    moreover have "of_nat (file_count (shared p)) = (of_nat (Suc (file_count (shared p'))) :: uint64)"
      "of_nat (file_bytes (shared p)) = (of_nat (length b + file_bytes (shared p')) :: uint64)"
      using removed_files [OF assms(3) wf removed(3)] removed(4) root by (simp_all add: file_count_def file_bytes_def)
    ultimately show ?thesis using removed(1,2) by (simp add: due_defs)
  qed
  then show "chunk_count (shared p') + of_nat (due_count t') + (of_nat (file_count (shared p)) + of_nat (owed_count t)) =
      chunk_count (shared p) + of_nat (due_count t) + (of_nat (file_count (shared p')) + of_nat (owed_count t'))"
    "bytes_used (shared p') + of_nat (due_bytes t') + (of_nat (file_bytes (shared p)) + of_nat (owed_bytes t)) =
      bytes_used (shared p) + of_nat (due_bytes t) + (of_nat (file_bytes (shared p')) + of_nat (owed_bytes t'))"
    by blast+
qed

end
