(* ===== verification/Disk_Solo.thy ===== *)
theory Disk_Solo
  imports Disk_Threads Local_Disk_Theorems
begin

text \<open>
  The step-by-step operations of \<open>Disk_Steps\<close> against the operations of \<open>Local_Disk\<close>. Every step
  brings a thread closer to its end, so a thread that runs on its own, \<open>solo\<close>, stops; and it stops
  with the result and the store that \<open>LocalDisk_Put\<close>, \<open>LocalDisk_Get\<close>, \<open>LocalDisk_Delete\<close> and
  \<open>LocalDisk_Exists\<close> compute in one go, its stripe released and its descriptors closed.
\<close>

section \<open>Every operation is a bounded number of steps\<close>

fun steps_left :: "disk_thread \<Rightarrow> nat" where
  "steps_left At_rest = 0"
| "steps_left (Put_start cid data) = 20"
| "steps_left (Put_lock cid data) = 19"
| "steps_left (Put_relock cid data) = 18"
| "steps_left (Put_exists cid data) = 17"
| "steps_left (Put_mkdir cid data) = 16"
| "steps_left (Put_open cid data) = 15"
| "steps_left (Put_fill cid data q g) = 14"
| "steps_left (Put_fsync cid data q g) = 13"
| "steps_left (Put_close cid data q g) = 12"
| "steps_left (Put_rename cid data q g) = 11"
| "steps_left (Put_open_dir cid data g) = 8"
| "steps_left (Put_fsync_dir cid data h g) = 7"
| "steps_left (Put_count cid data h g) = 6"
| "steps_left (Put_bytes cid data h g) = 5"
| "steps_left (Put_log cid h g) = 4"
| "steps_left (Put_discard cid q g m) = 3"
| "steps_left (Get_lock cid) = 7"
| "steps_left (Get_size cid) = 6"
| "steps_left (Get_open cid n) = 5"
| "steps_left (Get_read cid n g) = 4"
| "steps_left (Get_verify cid data g) = 3"
| "steps_left (Delete_lock cid) = 6"
| "steps_left (Delete_size cid) = 5"
| "steps_left (Delete_remove cid n) = 4"
| "steps_left (Delete_count cid n) = 3"
| "steps_left (Delete_bytes cid n) = 2"
| "steps_left (Exists_lock cid) = 3"
| "steps_left (Exists_stat cid) = 2"
| "steps_left (Leaving out cid gs) = Suc (length gs)"
| "steps_left (Op_finished out cid) = 0"

lemma step_decreases: "thread_step evp t p = Some (t', p') \<Longrightarrow> steps_left t' < steps_left t"
proof (cases t)
  case (Leaving out cid gs)
  then show "thread_step evp t p = Some (t', p') \<Longrightarrow> steps_left t' < steps_left t" by (cases gs) auto
qed (auto simp: Let_def split: step_splits)

text \<open>A thread that runs on its own until it is finished or has to wait.\<close>

function solo :: "'c EVP \<Rightarrow> disk_thread \<Rightarrow> disk_process \<Rightarrow> disk_thread \<times> disk_process" where
  "solo evp t p = (case thread_step evp t p of None \<Rightarrow> (t, p) | Some (t', p') \<Rightarrow> solo evp t' p')"
  by auto
termination
  by (relation "measure (\<lambda>(evp, t, p). steps_left t)") (auto dest: step_decreases)

declare solo.simps [simp del]

lemma solo_stop [simp]: "thread_step evp t p = None \<Longrightarrow> solo evp t p = (t, p)"
  by (simp add: solo.simps)

lemma solo_go: "thread_step evp t p = Some (t', p') \<Longrightarrow> solo evp t p = solo evp t' p'"
  by (simp add: solo.simps)

lemma solo_leaving [simp]:
  "solo evp (Leaving out cid gs) p = (Op_finished out cid, unlock_stripe cid p\<lparr>fds := fold ScopedFd_dtor gs (fds p)\<rparr>)"
proof (induction gs arbitrary: p)
  case Nil
  have "solo evp (Leaving out cid []) p = solo evp (Op_finished out cid) (unlock_stripe cid p)" by (rule solo_go) simp
  then show ?case by simp
next
  case (Cons g gs)
  have "solo evp (Leaving out cid (g # gs)) p = solo evp (Leaving out cid gs) (p\<lparr>fds := ScopedFd_dtor g (fds p)\<rparr>)"
    by (rule solo_go) simp
  then show ?case using Cons by simp
qed

lemma close_opened [simp]:
  "ScopedFd_dtor (ScopedFd_new (lowest_free tab)) (lowest_free tab # tab) = tab"
  "posix_close (lowest_free tab) (lowest_free tab # tab) = tab"
  "ScopedFd_dtor (ScopedFd_new (- 1)) tab = tab" "ScopedFd_dtor (snd (ScopedFd_release g)) tab = tab"
  using lowest_free_fresh(2) [of tab] by (simp_all add: ScopedFd_dtor_def posix_close_def)

lemma lowest_free_not_neg [simp]: "\<not> lowest_free tab < 0" "0 \<le> lowest_free tab"
  using lowest_free_fresh(2) [of tab] by simp_all

section \<open>The operations, alone\<close>

text \<open>One unfolding of \<open>solo\<close> at each place of the short operations.\<close>

lemmas get_steps =
  solo.simps [of _ "Get_lock a" for a]
  solo.simps [of _ "Get_open a b" for a b]
  solo.simps [of _ "Get_read a b c" for a b c]
  solo.simps [of _ "Get_size a" for a]
  solo.simps [of _ "Get_verify a b c" for a b c]

lemmas delete_steps =
  solo.simps [of _ "Delete_bytes a b" for a b]
  solo.simps [of _ "Delete_count a b" for a b]
  solo.simps [of _ "Delete_lock a" for a]
  solo.simps [of _ "Delete_remove a b" for a b]
  solo.simps [of _ "Delete_size a" for a]

lemmas exists_steps =
  solo.simps [of _ "Exists_lock a" for a]
  solo.simps [of _ "Exists_stat a" for a]

lemma solo_exists:
  assumes "LocalDisk_Exists [] cid s = (r, s')" "LockFor cid \<notin> stripe_locks s"
  shows "solo evp (Exists_lock cid) \<lparr>shared = s, fds = tab\<rparr> = (Op_finished (Exists_outcome r) cid, \<lparr>shared = s', fds = tab\<rparr>)"
  using assms by (auto simp: exists_steps LocalDisk_Exists_def with_stripe_def Let_def FinalPathFor_def ShardDirFor_def split: prod.splits)

lemma solo_delete:
  assumes "LocalDisk_Delete cid s = (r, s')" "LockFor cid \<notin> stripe_locks s"
  shows "solo evp (Delete_lock cid) \<lparr>shared = s, fds = tab\<rparr> = (Op_finished (Delete_outcome r) cid, \<lparr>shared = s', fds = tab\<rparr>)"
  using assms by (auto simp: delete_steps LocalDisk_Delete_def Delete_locked_def with_stripe_def Let_def FinalPathFor_def ShardDirFor_def split: prod.splits option.splits if_splits)

lemma HashBytes_not_Blocks: "HashBytes evp d \<noteq> Blocks"
  by (auto simp: HashBytes_def Sha256_new_def Sha256_Update_def Sha256_Finalize_def run_bind_def Let_def
      split: if_splits option.splits run.splits prod.splits)

abbreviation unlocked :: "ChunkId \<Rightarrow> LocalDisk \<Rightarrow> LocalDisk" where
  "unlocked cid s \<equiv> s\<lparr>stripe_locks := stripe_locks s - {LockFor cid}\<rparr>"

lemma solo_get_verify:
  assumes "ScopedFd_dtor g tab' = tab"
  shows "solo evp (Get_verify cid data g) \<lparr>shared = s, fds = tab'\<rparr> =
    (let (r, s') = run_bind (HashBytes evp data, s) (\<lambda>actual_hash s.
                        if actual_hash \<noteq> id_digest cid then
                          (store_err ChunkStoreError_CorruptionDetected
                             ''Chunk data on disk does not match its ID'',
                           log_with (Logger_Error (''CorruptionDetected for chunk '' @ id_hex cid)) s)
                        else
                          (Returns (Ok data),
                           log_with (Logger_Debug (''Successfully read chunk '' @ id_hex cid)) s))
     in (Op_finished (Get_outcome r) cid, \<lparr>shared = unlocked cid s', fds = tab\<rparr>))"
proof (cases "HashBytes evp data")
  case Blocks
  then show ?thesis using HashBytes_not_Blocks [of evp data] by simp
qed (simp_all add: get_steps run_bind_def assms)

lemma solo_get_read:
  assumes "ScopedFd_dtor g tab' = tab" "fs_file_size (os s) (FinalPathFor s cid) (disk s) = Some n"
    "posix_open_read (os s) (FinalPathFor s cid) (disk s)"
  shows "solo evp (Get_read cid n g) \<lparr>shared = s, fds = tab'\<rparr> =
    (let (r, s') = Get_locked evp cid held s
     in (Op_finished (Get_outcome r) cid, \<lparr>shared = unlocked cid s', fds = tab\<rparr>))"
proof (cases "if n > 0 then posix_read (os s) (FinalPathFor s cid) n (disk s) else Some []")
  case None
  then show ?thesis using assms
    by (simp add: get_steps Get_locked_def Let_def cong: if_cong split del: if_split)
next
  case (Some data)
  then show ?thesis using assms solo_get_verify [OF assms(1), of evp cid data s]
    by (cases "length data = n") (simp_all add: get_steps Get_locked_def Let_def cong: if_cong split del: if_split)
qed

lemma solo_get_locked:
  "solo evp (Get_size cid) \<lparr>shared = s, fds = tab\<rparr> =
    (let (r, s') = Get_locked evp cid held s
     in (Op_finished (Get_outcome r) cid, \<lparr>shared = unlocked cid s', fds = tab\<rparr>))"
proof (cases "fs_file_size (os s) (FinalPathFor s cid) (disk s)")
  case None
  then show ?thesis by (simp add: get_steps Get_locked_def)
next
  case (Some n)
  show ?thesis
  proof (cases "posix_open_read (os s) (FinalPathFor s cid) (disk s)")
    case True
    then show ?thesis
      using Some solo_get_read [OF _ Some True, of "ScopedFd_new (lowest_free tab)" "lowest_free tab # tab" tab evp]
      by (simp add: get_steps internal_open_def)
  next
    case False
    then show ?thesis using Some
      by (simp add: get_steps internal_open_def Get_locked_def)
  qed
qed

lemma solo_get:
  assumes "LocalDisk_Get evp cid s = (r, s')" "LockFor cid \<notin> stripe_locks s"
  shows "solo evp (Get_lock cid) \<lparr>shared = s, fds = tab\<rparr> = (Op_finished (Get_outcome r) cid, \<lparr>shared = s', fds = tab\<rparr>)"
proof -
  let ?s = "s\<lparr>stripe_locks := insert (LockFor cid) (stripe_locks s)\<rparr>"
  obtain r1 s1 where g: "Get_locked evp cid [LockFor cid] ?s = (r1, s1)" by fastforce
  have "r1 \<noteq> Blocks" using g HashBytes_not_Blocks [of evp]
    by (auto simp: Get_locked_def Let_def run_bind_def split: option.splits if_splits run.splits)
  then show ?thesis
    using assms g solo_get_locked [of evp cid ?s tab "[LockFor cid]"]
    by (cases r1) (auto simp: get_steps LocalDisk_Get_def with_stripe_def)
qed

lemma solo_put_discard:
  "solo evp (Put_discard cid q g m) \<lparr>shared = s, fds = tab\<rparr> =
    (Op_finished (put_io_error m) cid, \<lparr>shared = unlocked cid (drop_tmp q s), fds = ScopedFd_dtor g tab\<rparr>)"
  by (simp add: solo.simps [of _ "Put_discard _ _ _ _"] drop_tmp_def)

lemma solo_put_renamed:
  "solo evp (Put_open_dir cid data (snd (ScopedFd_release g))) \<lparr>shared = s, fds = tab\<rparr> =
    (Op_finished (Put_outcome (Returns (Ok ()))) cid,
     \<lparr>shared = unlocked cid
       (let s5 = (if os_open_dir_ok (os s) then
                  (if \<not> os_fsync_dir_ok (os s)
                   then log_with (Logger_Warn (''Failed to fsync directory '' @ concat (map (\<lambda>c. ''/'' @ c) (ShardDirFor s cid)))) s
                   else s)
                else log_with (Logger_Warn (''Failed to open directory for fsync '' @ concat (map (\<lambda>c. ''/'' @ c) (ShardDirFor s cid)))) s);
          s6 = s5\<lparr>chunk_count := chunk_count s5 + 1,
                   bytes_used := bytes_used s5 + of_nat (length data)\<rparr>
      in log_with (Logger_Debug (''Successfully wrote chunk '' @ id_hex cid)) s6), fds = tab\<rparr>)"
  by (simp add: solo.simps [of _ "Put_open_dir _ _ _"] solo.simps [of _ "Put_fsync_dir _ _ _ _"]
      solo.simps [of _ "Put_count _ _ _ _"] solo.simps [of _ "Put_bytes _ _ _ _"] solo.simps [of _ "Put_log _ _ _"]
      internal_open_def internal_fsync_def Let_def)

lemma solo_put_write:
  "solo evp (Put_mkdir cid data) \<lparr>shared = s, fds = tab\<rparr> =
    (let (r, s') = Put_write cid data s
     in (Op_finished (Put_outcome r) cid, \<lparr>shared = unlocked cid s', fds = tab\<rparr>))"
proof -
  let ?shard = "ShardDirFor s cid" and ?tmp = "tmp_path_for s cid" and ?final = "FinalPathFor s cid"
  obtain made d1 where c1: "fs_create_directories (os s) ?shard (disk s) = (made, d1)" by fastforce
  obtain opened d2 where c2: "posix_open_write (os s) ?tmp d1 = (opened, d2)" by fastforce
  obtain w d3 where c3: "(if data \<noteq> [] then posix_write (os s) ?tmp data d2 else (0, d2)) = (w, d3)" by fastforce
  obtain renamed d4 where c4: "fs_rename (os s) ?tmp ?final d3 = (renamed, d4)" by fastforce
  note big = Put_write_def [of cid data s, unfolded tmp_path_for_def [symmetric] Let_def c1 prod.case c2 c3 c4]
  have paths: "FinalPathFor (s\<lparr>disk := d\<rparr>) cid = ?final" "ShardDirFor (s\<lparr>disk := d\<rparr>) cid = ?shard"
    "tmp_path_for (s\<lparr>disk := d\<rparr>) cid = ?tmp" for d
    by (simp_all add: FinalPathFor_def ShardDirFor_def tmp_path_for_def)
  let ?g = "ScopedFd_new (lowest_free tab)" and ?tab = "lowest_free tab # tab"
  have rename: "solo evp (Put_rename cid data ?tmp (snd (ScopedFd_release ?g))) \<lparr>shared = s\<lparr>disk := d3\<rparr>, fds = tab\<rparr> =
    (let (r, s') = Put_write cid data s in (Op_finished (Put_outcome r) cid, \<lparr>shared = unlocked cid s', fds = tab\<rparr>))"
    if "made" "opened" "\<not> (data \<noteq> [] \<and> (w < 0 \<or> nat w \<noteq> length data))" "os_fsync_ok (os s)"
    using that by (simp add: big solo.simps [of _ "Put_rename _ _ _ _"] paths c4 solo_put_discard solo_put_renamed Let_def)
  have fsync: "solo evp (Put_fsync cid data ?tmp ?g) \<lparr>shared = s\<lparr>disk := d3\<rparr>, fds = ?tab\<rparr> =
    (let (r, s') = Put_write cid data s in (Op_finished (Put_outcome r) cid, \<lparr>shared = unlocked cid s', fds = tab\<rparr>))"
    if "made" "opened" "\<not> (data \<noteq> [] \<and> (w < 0 \<or> nat w \<noteq> length data))"
  proof (cases "os_fsync_ok (os s)")
    case True
    then show ?thesis using rename [OF that True]
      by (simp add: solo.simps [of _ "Put_fsync _ _ _ _"] solo.simps [of _ "Put_close _ _ _ _"] internal_fsync_def split_beta)
  next
    case False
    then show ?thesis using that by (simp add: big solo.simps [of _ "Put_fsync _ _ _ _"] internal_fsync_def solo_put_discard)
  qed
  have fill: "solo evp (Put_fill cid data ?tmp ?g) \<lparr>shared = s\<lparr>disk := d2\<rparr>, fds = ?tab\<rparr> =
    (let (r, s') = Put_write cid data s in (Op_finished (Put_outcome r) cid, \<lparr>shared = unlocked cid s', fds = tab\<rparr>))"
    if "made" "opened"
  proof (cases "data \<noteq> [] \<and> (w < 0 \<or> nat w \<noteq> length data)")
    case True
    then show ?thesis using that c3 by (simp add: big solo.simps [of _ "Put_fill _ _ _ _"] solo_put_discard)
  next
    case False
    then show ?thesis using fsync [OF that False] c3 
      by (cases "data = []") (auto simp: solo.simps [of _ "Put_fill _ _ _ _"])
  qed
  show ?thesis
  proof (cases "made \<and> opened")
    case True
    then show ?thesis using fill c1 c2 
      by (simp add: solo.simps [of _ "Put_mkdir _ _"] solo.simps [of _ "Put_open _ _"] paths internal_open_def)
  next
    case False
    then show ?thesis using c1 c2 
      by (auto simp: big solo.simps [of _ "Put_mkdir _ _"] solo.simps [of _ "Put_open _ _"] paths internal_open_def)
  qed
qed

lemma solo_put:
  assumes "LocalDisk_Put evp cid data s = (r, s')" "LockFor cid \<notin> stripe_locks s" "relock s \<noteq> Relock_blocks"
  shows "solo evp (Put_start cid data) \<lparr>shared = s, fds = tab\<rparr> = (Op_finished (Put_outcome r) cid, \<lparr>shared = s', fds = tab\<rparr>)"
proof (cases "HashBytes evp data")
  case Blocks
  then show ?thesis using HashBytes_not_Blocks [of evp data] by simp
next
  case (Throws e)
  then show ?thesis using assms(1) by (simp add: solo.simps [of _ "Put_start _ _"] LocalDisk_Put_def run_bind_def)
next
  case (Returns h)
  let ?s = "s\<lparr>stripe_locks := insert (LockFor cid) (stripe_locks s)\<rparr>"
  obtain r1 s1 where w: "Put_write cid data ?s = (r1, s1)" by fastforce
  have "r1 \<noteq> Blocks" "r1 \<noteq> Throws e" for e using w by (auto simp: Put_write_def Let_def split: if_splits prod.splits)
  then obtain a where a: "r1 = Returns a" by (cases r1) auto
  show ?thesis
    using assms Returns w a solo_put_write [of evp cid data ?s tab]
    by (cases "relock s") (auto simp: solo.simps [of _ "Put_start _ _"] solo.simps [of _ "Put_lock _ _"] solo.simps [of _ "Put_relock _ _"]
      solo.simps [of _ "Put_exists _ _"] LocalDisk_Put_def run_bind_def with_stripe_def Put_locked_def LocalDisk_Exists_def
      FinalPathFor_def ShardDirFor_def split: prod.splits if_splits)
qed

section \<open>Theorems\<close>

text \<open>
  C12: A thread that runs alone through the system calls, lock operations and counter updates of
  \<open>Put\<close>, \<open>Get\<close>, \<open>Delete\<close> or \<open>Exists\<close>, from a state where its stripe is free and relocking does not
  hang, ends with the result and the store that the one-step operation computes on every branch,
  errors included; the descriptor table is the one it started with.
\<close>

theorem thread_alone_is_operation:
  assumes "LockFor cid \<notin> stripe_locks s" "relock s \<noteq> Relock_blocks"
  shows "solo evp (Put_start cid data) \<lparr>shared = s, fds = tab\<rparr> =
      (let (r, s') = LocalDisk_Put evp cid data s in (Op_finished (Put_outcome r) cid, \<lparr>shared = s', fds = tab\<rparr>)) \<and>
    solo evp (Get_lock cid) \<lparr>shared = s, fds = tab\<rparr> =
      (let (r, s') = LocalDisk_Get evp cid s in (Op_finished (Get_outcome r) cid, \<lparr>shared = s', fds = tab\<rparr>)) \<and>
    solo evp (Delete_lock cid) \<lparr>shared = s, fds = tab\<rparr> =
      (let (r, s') = LocalDisk_Delete cid s in (Op_finished (Delete_outcome r) cid, \<lparr>shared = s', fds = tab\<rparr>)) \<and>
    solo evp (Exists_lock cid) \<lparr>shared = s, fds = tab\<rparr> =
      (let (r, s') = LocalDisk_Exists [] cid s in (Op_finished (Exists_outcome r) cid, \<lparr>shared = s', fds = tab\<rparr>))"
  using assms solo_put [of evp cid data s] solo_get [of evp cid s] solo_delete [of cid s _ _ evp] solo_exists [of cid s _ _ evp]
  by (simp add: split_beta)

theorem thread_alone_is_operation_witness:
  "LockFor demo_id \<notin> stripe_locks (demo_empty Relock_counts) \<and> relock (demo_empty Relock_counts) \<noteq> Relock_blocks \<and>
   solo demo_evp (Get_lock demo_id) \<lparr>shared = demo_empty Relock_counts, fds = [0, 1, 2]\<rparr> =
     (let (r, s') = LocalDisk_Get demo_evp demo_id (demo_empty Relock_counts)
      in (Op_finished (Get_outcome r) demo_id, \<lparr>shared = s', fds = [0, 1, 2]\<rparr>))"
  using thread_alone_is_operation [of demo_id "demo_empty Relock_counts" demo_evp "[]" "[0, 1, 2]"] by simp

end
