(* ===== verification/Disk_Concurrent.thy ===== *)
theory Disk_Concurrent
  imports Disk_Solo
begin

text \<open>
  Any number of threads inside one \<^verbatim>\<open>LocalDiskChunkStore\<close>. A system is the process (store and
  descriptor table) and the place each thread is at; its steps are one step of one thread, the start
  of an operation by a thread at rest, and a change of the operating system's answers, in any order.
  The invariant combines what \<open>Disk_Threads\<close> shows of one step: who holds which stripe, which
  descriptors are open, what each thread may rely on, and by how much the two counters are behind
  the disk.
\<close>

section \<open>Many threads\<close>

text \<open>
  \<open>called\<close> records, for the theorems only, the operations that were started.
\<close>

record disk_system =
  process :: disk_process
  pool :: "disk_thread list"
  called :: "disk_thread list"

fun starts :: "disk_thread \<Rightarrow> bool" where
  "starts (Put_start cid data) = ChunkId_wf cid"
| "starts (Get_lock cid) = ChunkId_wf cid"
| "starts (Delete_lock cid) = ChunkId_wf cid"
| "starts (Exists_lock cid) = ChunkId_wf cid"
| "starts t = False"

fun resting :: "disk_thread \<Rightarrow> bool" where
  "resting At_rest = True"
| "resting (Op_finished out cid) = True"
| "resting t = False"

inductive system_step :: "'c EVP \<Rightarrow> disk_system \<Rightarrow> disk_system \<Rightarrow> bool" for evp where
  advance: "i < length (pool y) \<Longrightarrow> thread_step evp (pool y ! i) (process y) = Some (t, p) \<Longrightarrow>
     system_step evp y (y\<lparr>process := p, pool := (pool y)[i := t]\<rparr>)"
| call: "i < length (pool y) \<Longrightarrow> resting (pool y ! i) \<Longrightarrow> starts t \<Longrightarrow>
     system_step evp y (y\<lparr>pool := (pool y)[i := t], called := t # called y\<rparr>)"
| os_answers: "uuid_wf (os_uuid osa) \<Longrightarrow> os_stat_ok osa \<Longrightarrow>
     system_step evp y (y\<lparr>process := (process y)\<lparr>shared := (shared (process y))\<lparr>os := osa\<rparr>\<rparr>\<rparr>)"

inductive_cases system_stepE: "system_step evp y y'"

definition system_start :: "nat \<Rightarrow> LocalDisk \<Rightarrow> disk_system" where
  "system_start n s = \<lparr>process = \<lparr>shared = s, fds = []\<rparr>, pool = replicate n At_rest, called = []\<rparr>"

section \<open>The invariant\<close>

abbreviation store_of :: "disk_system \<Rightarrow> LocalDisk" where
  "store_of y \<equiv> shared (process y)"

definition locked_by :: "disk_thread \<Rightarrow> nat multiset" where
  "locked_by t = (case holds t of None \<Rightarrow> {#} | Some cid \<Rightarrow> {#LockFor cid#})"

definition lock_inv :: "disk_system \<Rightarrow> bool" where
  "lock_inv y \<longleftrightarrow> finite (stripe_locks (store_of y)) \<and>
     sum_list (map locked_by (pool y)) = mset_set (stripe_locks (store_of y))"

definition counter_inv :: "disk_system \<Rightarrow> bool" where
  "counter_inv y \<longleftrightarrow>
     chunk_count (store_of y) + of_nat (sum_list (map due_count (pool y))) =
       of_nat (file_count (store_of y)) + of_nat (sum_list (map owed_count (pool y))) \<and>
     bytes_used (store_of y) + of_nat (sum_list (map due_bytes (pool y))) =
       of_nat (file_bytes (store_of y)) + of_nat (sum_list (map owed_bytes (pool y)))"

definition fd_inv :: "disk_system \<Rightarrow> bool" where
  "fd_inv y \<longleftrightarrow> table_ok (fds (process y)) \<and>
     mset (fds (process y)) = sum_list (map (\<lambda>t. guarded (guards t)) (pool y))"

definition system_inv :: "'c EVP \<Rightarrow> disk_system \<Rightarrow> bool" where
  "system_inv evp y \<longleftrightarrow> disk_ok (store_of y) \<and> (\<forall>t \<in> set (pool y). thread_ok evp (store_of y) t) \<and>
     lock_inv y \<and> counter_inv y \<and> fd_inv y"

text \<open>A thread at rest holds nothing and owes nothing.\<close>

lemma resting_facts:
  assumes "resting t"
  shows "holds t = None" "guards t = []" "due_count t = 0" "due_bytes t = 0" "owed_count t = 0" "owed_bytes t = 0"
  using assms by (cases t; simp add: holds_def guards_def due_defs)+

lemma starts_facts:
  assumes "starts t"
  shows "holds t = None" "guards t = []" "due_count t = 0" "due_bytes t = 0" "owed_count t = 0" "owed_bytes t = 0"
    "thread_ok evp s t" "\<not> resting t"
  using assms by (cases t; simp add: thread_defs guards_def due_defs)+

lemma sum_list_member:
  fixes f :: "'a \<Rightarrow> 'b multiset"
  shows "t \<in> set xs \<Longrightarrow> f t \<subseteq># sum_list (map f xs)"
  by (induction xs) (auto intro: subset_mset.add_increasing subset_mset.add_increasing2)

lemma sum_list_two_members:
  fixes f :: "'a \<Rightarrow> 'b multiset"
  assumes "i < length xs" "j < length xs" "i \<noteq> j"
  shows "f (xs ! i) + f (xs ! j) \<subseteq># sum_list (map f xs)"
proof -
  have "xs ! j \<in> set (take i xs) \<or> xs ! j \<in> set (drop (Suc i) xs)"
  proof (cases "j < i")
    case True
    then show ?thesis using assms by (auto simp: in_set_conv_nth)
  next
    case False
    then have "xs ! j = drop (Suc i) xs ! (j - Suc i)" "j - Suc i < length (drop (Suc i) xs)"
      using assms by auto
    then show ?thesis by (metis nth_mem)
  qed
  then have "f (xs ! j) \<subseteq># sum_list (map f (take i xs @ drop (Suc i) xs))"
    by (intro sum_list_member) auto
  moreover have "sum_list (map f xs) = f (xs ! i) + sum_list (map f (take i xs @ drop (Suc i) xs))"
    by (subst id_take_nth_drop [OF assms(1)]) (simp add: ac_simps)
  ultimately show ?thesis by simp
qed

lemma lock_inv_advance:
  assumes "lock_inv y" "i < length (pool y)" "thread_step evp (pool y ! i) (process y) = Some (t, p)"
  shows "lock_inv (y\<lparr>process := p, pool := (pool y)[i := t]\<rparr>)"
proof -
  let ?L = "stripe_locks (store_of y)" and ?old = "pool y ! i"
  note fin = assms(1) [unfolded lock_inv_def]
  have sum: "sum_list (map locked_by ((pool y)[i := t])) + locked_by ?old = mset_set ?L + locked_by t"
    using sum_list_update_add [OF assms(2), of locked_by t] fin by simp
  from step_locks [OF assms(3)] show ?thesis
  proof (elim disjE exE conjE)
    assume "holds t = holds ?old" "stripe_locks (shared p) = ?L"
    then show ?thesis using sum fin by (simp add: lock_inv_def locked_by_def)
  next
    fix cid
    assume "holds ?old = None" "holds t = Some cid" "LockFor cid \<notin> ?L"
      "stripe_locks (shared p) = insert (LockFor cid) ?L"
    then show ?thesis using sum fin by (simp add: lock_inv_def locked_by_def)
  next
    fix cid
    assume l: "holds ?old = Some cid" "holds t = None" "stripe_locks (shared p) = ?L - {LockFor cid}"
    then have "add_mset (LockFor cid) (sum_list (map locked_by ((pool y)[i := t]))) = mset_set ?L"
      using sum by (simp add: locked_by_def)
    then have "sum_list (map locked_by ((pool y)[i := t])) = mset_set ?L - {#LockFor cid#}" "LockFor cid \<in> ?L"
      using fin by (metis add_mset_remove_trivial, metis elem_mset_set union_single_eq_member)
    then show ?thesis using l(3) fin by (simp add: lock_inv_def mset_set_Diff)
  qed
qed

lemma counter_inv_advance:
  assumes "counter_inv y" "i < length (pool y)" "thread_step evp (pool y ! i) (process y) = Some (t, p)"
    "thread_ok evp (store_of y) (pool y ! i)" "disk_ok (store_of y)"
  shows "counter_inv (y\<lparr>process := p, pool := (pool y)[i := t]\<rparr>)"
proof -
  have sum: "of_nat (sum_list (map f ((pool y)[i := t]))) + of_nat (f (pool y ! i)) =
      of_nat (sum_list (map f (pool y))) + (of_nat (f t) :: uint64)" for f
    using arg_cong [OF sum_list_update_add [OF assms(2), of f t], of "of_nat :: nat \<Rightarrow> uint64"] by simp
  note balance = step_balance [OF assms(3-5)]
  show ?thesis
    using balance_update [OF conjunct1 [OF assms(1) [unfolded counter_inv_def]] sum sum balance(1)]
      balance_update [OF conjunct2 [OF assms(1) [unfolded counter_inv_def]] sum sum balance(2)]
    by (simp add: counter_inv_def)
qed

lemma fd_inv_advance:
  assumes "fd_inv y" "i < length (pool y)" "thread_step evp (pool y ! i) (process y) = Some (t, p)"
  shows "fd_inv (y\<lparr>process := p, pool := (pool y)[i := t]\<rparr>)"
proof -
  let ?f = "\<lambda>t. guarded (guards t)"
  have "?f (pool y ! i) \<subseteq># mset (fds (process y))"
    using assms(1,2) sum_list_member [of "pool y ! i" "pool y" ?f] by (simp add: fd_inv_def)
  then have step: "table_ok (fds p)" "mset (fds p) + ?f (pool y ! i) = mset (fds (process y)) + ?f t"
    using step_fds [OF assms(3)] assms(1) by (simp_all add: fd_inv_def)
  have "sum_list (map ?f ((pool y)[i := t])) + ?f (pool y ! i) = mset (fds (process y)) + ?f t"
    using sum_list_update_add [OF assms(2), of ?f t] assms(1) by (simp add: fd_inv_def)
  then show ?thesis using step by (simp add: fd_inv_def) (metis add_right_cancel)
qed

lemma lock_exclusion:
  assumes "lock_inv y" "i < length (pool y)" "j < length (pool y)" "i \<noteq> j"
    "holds (pool y ! i) = Some a" "holds (pool y ! j) = Some b"
  shows "LockFor a \<noteq> LockFor b"
proof
  assume "LockFor a = LockFor b"
  then have "{#LockFor a, LockFor a#} \<subseteq># mset_set (stripe_locks (store_of y))"
    using sum_list_two_members [OF assms(2-4), of locked_by] assms(1,5,6) by (simp add: lock_inv_def locked_by_def)
  then have "2 \<le> count (mset_set (stripe_locks (store_of y))) (LockFor a)"
    by (metis (no_types) count_add_mset count_empty mset_subset_eq_count numeral_2_eq_2)
  moreover have "count (mset_set (stripe_locks (store_of y))) (LockFor a) \<le> 1"
    by (simp add: count_mset_set')
  ultimately show False by simp
qed

lemma holds_wf: "thread_ok evp s t \<Longrightarrow> holds t = Some cid \<Longrightarrow> ChunkId_wf cid"
  by (cases t) (auto simp: thread_defs)

lemma own_path_long: "own_path s cid q \<Longrightarrow> length (data_root s) + 2 < length q"
  using length_FinalPathFor [of s cid] tmp_of_facts(3) [of s cid q] by (auto simp: own_path_def)

lemma foreign_path_unchanged:
  assumes "lock_inv y" "disk_ok (store_of y)" "thread_ok evp (store_of y) (pool y ! i)" "thread_ok evp (store_of y) (pool y ! j)"
    "i < length (pool y)" "j < length (pool y)" "i \<noteq> j" "thread_step evp (pool y ! i) (process y) = Some (t, p)"
    "holds (pool y ! j) = Some cid" "own_path (store_of y) cid q"
  shows "map_of (disk (shared p)) q = map_of (disk (store_of y)) q"
proof (rule step_frame [OF assms(8,3,2) own_path_long [OF assms(10)]])
  fix c
  assume c: "holds (pool y ! i) = Some c"
  have "LockFor c \<noteq> LockFor cid" by (rule lock_exclusion [OF assms(1,5,6,7) c assms(9)])
  then show "\<not> own_path (store_of y) c q"
    using own_path_disjoint [OF holds_wf [OF assms(3) c] holds_wf [OF assms(4,9)] _ assms(10)] by blast
qed

lemma threads_ok_advance:
  assumes "\<forall>t \<in> set (pool y). thread_ok evp (store_of y) t" "lock_inv y" "disk_ok (store_of y)"
    "i < length (pool y)" "thread_step evp (pool y ! i) (process y) = Some (t, p)" "u \<in> set ((pool y)[i := t])"
  shows "thread_ok evp (shared p) u"
proof -
  have mine: "thread_ok evp (store_of y) (pool y ! i)" using assms(1,4) by simp
  from assms(6) obtain j where j: "j < length (pool y)" "u = (pool y)[i := t] ! j"
    by (auto simp: in_set_conv_nth)
  show ?thesis
  proof (cases "j = i")
    case True
    then show ?thesis using step_thread_ok [OF assms(5) mine assms(3)] j by simp
  next
    case False
    then have u: "u = pool y ! j" "thread_ok evp (store_of y) u" using j assms(1) by simp_all
    show ?thesis
    proof (rule thread_ok_frame [OF u(2)])
      show "data_root (shared p) = data_root (store_of y)" using step_constants [OF assms(5)] by simp
      show "map_of (disk (shared p)) q = map_of (disk (store_of y)) q"
        if "holds u = Some cid" "own_path (store_of y) cid q" for cid q
        using foreign_path_unchanged [OF assms(2,3) mine _ assms(4) j(1) _ assms(5) _ that(2)] that(1) u False by simp
    qed
  qed
qed

lemma system_inv_step:
  assumes "system_step evp y y'" "system_inv evp y"
  shows "system_inv evp y'"
  using assms(1)
proof (cases rule: system_step.cases)
  case (advance i t p)
  have ok: "thread_ok evp (store_of y) (pool y ! i)" using assms(2) advance(2) by (simp add: system_inv_def)
  show ?thesis
    using assms(2) advance ok threads_ok_advance [of y evp i t p] step_disk_ok [OF advance(3) ok]
      lock_inv_advance [of y i evp t p] counter_inv_advance [of y i evp t p] fd_inv_advance [of y i evp t p]
    by (simp add: system_inv_def)
next
  case (call i t)
  have sum: "sum_list (map f ((pool y)[i := t])) = sum_list (map f (pool y))"
    if "f t = 0" "f (pool y ! i) = 0" for f :: "disk_thread \<Rightarrow> 'b :: comm_monoid_add"
    using sum_list_update_add [OF call(2), of f t] that by simp
  have msum: "sum_list (map f ((pool y)[i := t])) = sum_list (map f (pool y))"
    if "f t = {#}" "f (pool y ! i) = {#}" for f :: "disk_thread \<Rightarrow> 'b multiset"
    using sum_list_update_add [OF call(2), of f t] that by simp
  have ok: "\<forall>u \<in> set ((pool y)[i := t]). thread_ok evp (store_of y) u"
    using assms(2) starts_facts(7) [OF call(4), of evp "store_of y"] set_update_subset_insert [of "pool y" i t]
    by (auto simp: system_inv_def)
  note facts = starts_facts [OF call(4)] resting_facts [OF call(3)]
  have "lock_inv y'" "counter_inv y'" "fd_inv y'"
    using assms(2) call(1) facts by (simp_all add: system_inv_def lock_inv_def counter_inv_def fd_inv_def
        locked_by_def sum msum)
  then show ?thesis using assms(2) call(1) ok by (simp add: system_inv_def)
next
  case (os_answers osa)
  have "thread_ok evp (store_of y') t" if "t \<in> set (pool y)" for t
    by (rule thread_ok_frame [of evp "store_of y"]) (use that assms(2) os_answers in \<open>auto simp: system_inv_def\<close>)
  moreover have "file_count (store_of y') = file_count (store_of y)" "file_bytes (store_of y') = file_bytes (store_of y)"
    using os_answers(1) by (simp_all add: file_count_def file_bytes_def)
  ultimately show ?thesis
    using assms(2) os_answers by (simp add: system_inv_def disk_ok_def lock_inv_def counter_inv_def fd_inv_def
        FinalPathFor_def ShardDirFor_def del: map_of_eq_Some_iff)
qed

lemma sum_list_all_empty:
  fixes f :: "'a \<Rightarrow> 'b multiset"
  shows "(\<And>t. t \<in> set xs \<Longrightarrow> f t = {#}) \<Longrightarrow> sum_list (map f xs) = {#}"
  by (induction xs) simp_all

lemma sum_list_no_multiset: "sum_list (replicate n {#}) = {#}"
  by (induction n) simp_all

lemma system_inv_start:
  assumes "LocalDisk_inv s" "stripe_locks s = {}"
  shows "system_inv evp (system_start n s)"
  using assms
  by (simp add: system_inv_def system_start_def disk_ok_def LocalDisk_inv_def thread_defs lock_inv_def
      counter_inv_def fd_inv_def locked_by_def sum_list_replicate due_defs file_count_def file_bytes_def guards_def table_ok_def
      sum_list_no_multiset del: map_of_eq_Some_iff)

interpretation system_run: step_invariant "system_step evp" "system_inv evp" for evp
  by unfold_locales (rule system_inv_step)

lemma reachable_inv:
  assumes "LocalDisk_inv s" "stripe_locks s = {}" "(system_step evp)\<^sup>*\<^sup>* (system_start n s) y"
  shows "system_inv evp y"
  using system_run.run_keeps [OF assms(3)] system_inv_start [OF assms(1,2)] by blast

section \<open>Progress\<close>

definition advances :: "'c EVP \<Rightarrow> disk_system \<Rightarrow> disk_system \<Rightarrow> bool" where
  "advances evp y y' \<longleftrightarrow> (\<exists>i < length (pool y). \<exists>t p.
     thread_step evp (pool y ! i) (process y) = Some (t, p) \<and> y' = y\<lparr>process := p, pool := (pool y)[i := t]\<rparr>)"

lemma advances_step: "advances evp y y' \<Longrightarrow> system_step evp y y'"
  by (auto simp: advances_def intro: system_step.advance)

abbreviation work_left :: "disk_system \<Rightarrow> nat" where
  "work_left y \<equiv> sum_list (map steps_left (pool y))"

interpretation disk_advance: step_measure "advances evp" "system_inv evp" work_left for evp
proof unfold_locales
  fix y y' assume a: "advances evp y y'"
  then show "system_inv evp y \<Longrightarrow> system_inv evp y'" by (auto dest: advances_step system_inv_step)
  from a obtain i t p where s: "i < length (pool y)" "thread_step evp (pool y ! i) (process y) = Some (t, p)"
    "pool y' = (pool y)[i := t]" by (auto simp: advances_def)
  show "work_left y' < work_left y"
    using sum_list_update_add [OF s(1), of steps_left t] step_decreases [OF s(2)] s(3) by simp
qed

lemma holder_steps:
  assumes "holds t \<noteq> None" "relock (shared p) \<noteq> Relock_blocks"
  shows "thread_step evp t p \<noteq> None"
proof (cases t)
  case (Leaving out cid gs)
  then show ?thesis by (cases gs) auto
next
  case (Put_relock cid data)
  then show ?thesis using assms(2) by (cases "relock (shared p)") auto
next
  case (Get_verify cid data g)
  then show ?thesis using HashBytes_not_Blocks [of evp data] by (auto split: run.splits)
qed (use assms(1) in \<open>auto simp: holds_def Let_def split: prod.splits option.splits\<close>)

lemma free_steps:
  assumes "stripe_locks (shared p) = {}" "relock (shared p) \<noteq> Relock_blocks" "\<not> resting t"
  shows "thread_step evp t p \<noteq> None"
proof (cases "holds t")
  case None
  then show ?thesis using assms HashBytes_not_Blocks [of evp] by (cases t) (auto simp: holds_def split: run.splits)
qed (use holder_steps [of t p evp] assms(2) in auto)

lemma system_progress:
  assumes "system_inv evp y" "relock (store_of y) \<noteq> Relock_blocks" "t \<in> set (pool y)" "\<not> resting t"
  shows "\<exists>y'. advances evp y y'"
proof -
  have "\<exists>u \<in> set (pool y). thread_step evp u (process y) \<noteq> None"
  proof (cases "\<exists>u \<in> set (pool y). holds u \<noteq> None")
    case False
    then have "map locked_by (pool y) = replicate (length (pool y)) {#}"
      by (intro replicate_eqI) (auto simp: locked_by_def)
    then have "sum_list (map locked_by (pool y)) = {#}" by (simp add: sum_list_no_multiset)
    then have "stripe_locks (store_of y) = {}"
      using assms(1) by (auto simp: system_inv_def lock_inv_def mset_set_empty_iff)
    then show ?thesis using free_steps assms(2-4) by blast
  qed (use holder_steps assms(2) in blast)
  then show ?thesis by (fastforce simp: advances_def in_set_conv_nth)
qed

lemma system_relock: "(system_step evp)\<^sup>*\<^sup>* y y' \<Longrightarrow> relock (store_of y') = relock (store_of y)"
proof (induction rule: rtranclp_induct)
  case (step x z)
  from step.hyps(2) have "relock (store_of z) = relock (store_of x)"
    by (cases rule: system_step.cases) (auto dest: step_constants)
  then show ?case using step.IH by simp
qed simp


section \<open>History\<close>

fun origin :: "disk_thread \<Rightarrow> disk_thread option" where
  "origin (Put_lock cid data) = Some (Put_start cid data)"
| "origin (Put_start cid data) = Some (Put_start cid data)"
| "origin (Put_relock cid data) = Some (Put_start cid data)"
| "origin (Put_exists cid data) = Some (Put_start cid data)"
| "origin (Put_mkdir cid data) = Some (Put_start cid data)"
| "origin (Put_open cid data) = Some (Put_start cid data)"
| "origin (Put_fill cid data q g) = Some (Put_start cid data)"
| "origin (Put_fsync cid data q g) = Some (Put_start cid data)"
| "origin (Put_close cid data q g) = Some (Put_start cid data)"
| "origin (Put_rename cid data q g) = Some (Put_start cid data)"
| "origin (Delete_lock cid) = Some (Delete_lock cid)"
| "origin (Delete_size cid) = Some (Delete_lock cid)"
| "origin (Delete_remove cid n) = Some (Delete_lock cid)"
| "origin t = None"

definition from_calls :: "disk_system \<Rightarrow> bool" where
  "from_calls y \<longleftrightarrow> (\<forall>t \<in> set (pool y). \<forall>c. origin t = Some c \<longrightarrow> c \<in> set (called y))"

lemma step_origin: "thread_step evp t p = Some (t', p') \<Longrightarrow> origin t' = origin t \<or> origin t' = None"
proof (cases t)
  case (Leaving out cid gs)
  then show "thread_step evp t p = Some (t', p') \<Longrightarrow> origin t' = origin t \<or> origin t' = None" by (cases gs) auto
qed (auto simp: Let_def split: step_splits)

lemma starts_origin: "starts t \<Longrightarrow> origin t = Some t \<or> origin t = None"
  by (cases t) auto

lemma from_calls_step:
  assumes "system_step evp y y'" "from_calls y"
  shows "from_calls y'"
  using assms(1)
proof (cases rule: system_step.cases)
  case (advance i t p)
  have "c \<in> set (called y)" if "origin t = Some c" for c
    using that step_origin [OF advance(3)] assms(2) nth_mem [OF advance(2)]
    by (metis from_calls_def option.distinct(1))
  then show ?thesis using assms(2) advance(1) set_update_subset_insert [of "pool y" i t]
    by (auto simp: from_calls_def)
next
  case (call i t)
  then show ?thesis using assms(2) starts_origin [OF call(4)] set_update_subset_insert [of "pool y" i t]
    by (auto simp: from_calls_def)
qed (use assms(2) in \<open>auto simp: from_calls_def\<close>)

definition history_inv :: "'c EVP \<Rightarrow> disk_system \<Rightarrow> bool" where
  "history_inv evp y \<longleftrightarrow> system_inv evp y \<and> from_calls y"

interpretation history: step_invariant "system_step evp" "history_inv evp" for evp
  by unfold_locales (auto simp: history_inv_def intro: system_inv_step from_calls_step)

lemma history_inv_start: "LocalDisk_inv s \<Longrightarrow> stripe_locks s = {} \<Longrightarrow> history_inv evp (system_start n s)"
  using system_inv_start [of s evp n] by (simp add: history_inv_def from_calls_def system_start_def)

text \<open>What one step of the system does to the stored chunks.\<close>

lemma stored_step:
  assumes "system_step evp y y'" "history_inv evp y" "ChunkId_wf x"
  obtains (same) "stored (store_of y') x = stored (store_of y) x"
  | (added) data where "stored (store_of y) x = None" "stored (store_of y') x = Some data"
      "Put_start x data \<in> set (called y)" "hashes_to evp data x"
  | (deleted) "stored (store_of y') x = None" "Delete_lock x \<in> set (called y)"
  using assms(1)
proof (cases rule: system_step.cases)
  case (advance i t p)
  have mine: "pool y ! i \<in> set (pool y)" using advance(2) by simp
  have ok: "thread_ok evp (store_of y) (pool y ! i)" "disk_ok (store_of y)"
    and calls: "\<And>c. origin (pool y ! i) = Some c \<Longrightarrow> c \<in> set (called y)"
    using assms(2) mine by (auto simp: history_inv_def system_inv_def from_calls_def)
  show ?thesis
    using step_stored [OF advance(3) ok assms(3)] ok(1) calls advance(1) that
    by (auto simp: thread_ok_def stored_def [of "store_of y"] split: disk_thread.splits if_splits)
qed (use same in \<open>auto simp: stored_def\<close>)

lemma called_grows: "(system_step evp)\<^sup>*\<^sup>* y y' \<Longrightarrow> set (called y) \<subseteq> set (called y')"
proof (induction rule: rtranclp_induct)
  case (step x z)
  from step.hyps(2) have "set (called x) \<subseteq> set (called z)" by (cases rule: system_step.cases) auto
  then show ?case using step.IH by simp
qed simp

lemma stored_stays:
  assumes "(system_step evp)\<^sup>*\<^sup>* y y'" "history_inv evp y" "ChunkId_wf x" "stored (store_of y) x = Some b"
    "Delete_lock x \<notin> set (called y')"
  shows "stored (store_of y') x = Some b"
  using assms(1,5)
proof (induction rule: rtranclp_induct)
  case (step u v)
  have inv: "history_inv evp u" using history.run_keeps [OF step.hyps(1) assms(2)] .
  have "Delete_lock x \<notin> set (called u)" using step.prems called_grows [of evp u v] step.hyps(2) by blast
  with step.IH stored_step [OF step.hyps(2) inv assms(3)] show ?case by fastforce
qed (use assms(4) in simp)

lemma stored_from:
  assumes "(system_step evp)\<^sup>*\<^sup>* y y'" "history_inv evp y" "ChunkId_wf x" "stored (store_of y') x = Some b"
  shows "stored (store_of y) x = Some b \<or> Put_start x b \<in> set (called y') \<and> hashes_to evp b x"
  using assms(1,4)
proof (induction rule: rtranclp_induct)
  case (step u v)
  have inv: "history_inv evp u" using history.run_keeps [OF step.hyps(1) assms(2)] .
  have mono: "set (called u) \<subseteq> set (called v)" using called_grows [of evp u v] step.hyps(2) by blast
  from step.hyps(2) inv assms(3) show ?case
  proof (cases rule: stored_step)
    case same
    then show ?thesis using step.IH step.prems mono by auto
  next
    case (added data)
    then show ?thesis using step.prems mono by auto
  next
    case deleted
    then show ?thesis using step.prems by simp
  qed
qed simp


text \<open>A finished \<open>Put\<close> that reported success.\<close>

abbreviation put_ok :: "ChunkId \<Rightarrow> disk_thread" where
  "put_ok cid \<equiv> Op_finished (Put_outcome (Returns (Ok ()))) cid"

definition acked_inv :: "'c EVP \<Rightarrow> disk_system \<Rightarrow> bool" where
  "acked_inv evp y \<longleftrightarrow> history_inv evp y \<and>
     (\<forall>cid. put_ok cid \<in> set (pool y) \<longrightarrow> Delete_lock cid \<notin> set (called y) \<longrightarrow> stored (store_of y) cid \<noteq> None)"

lemma put_ok_step:
  assumes "thread_step evp t p = Some (put_ok cid, p')"
  shows "t = Leaving (Put_outcome (Returns (Ok ()))) cid []"
proof (cases t)
  case (Leaving out c gs)
  then show ?thesis using assms by (cases gs) auto
qed (use assms in \<open>auto simp: Let_def split: step_splits\<close>)

lemma acked_step:
  assumes "system_step evp y y'" "acked_inv evp y"
  shows "acked_inv evp y'"
proof -
  have inv: "history_inv evp y" "history_inv evp y'"
    using assms history.step_keeps by (auto simp: acked_inv_def)
  have "stored (store_of y') cid \<noteq> None"
    if ack: "put_ok cid \<in> set (pool y')" and del: "Delete_lock cid \<notin> set (called y')" for cid
  proof -
    have wf: "ChunkId_wf cid" using inv(2) ack by (force simp: history_inv_def system_inv_def thread_defs)
    have del': "Delete_lock cid \<notin> set (called y)" using del called_grows [of evp y y'] assms(1) by blast
    have "stored (store_of y) cid \<noteq> None"
      using assms(1)
    proof (cases rule: system_step.cases)
      case (advance i t p)
      show ?thesis
      proof (cases "t = put_ok cid")
        case True
        then have "pool y ! i = Leaving (Put_outcome (Returns (Ok ()))) cid []"
          using put_ok_step advance(3) by blast
        then have "Leaving (Put_outcome (Returns (Ok ()))) cid [] \<in> set (pool y)" using advance(2) nth_mem by metis
        then have "map_of (disk (store_of y)) (FinalPathFor (store_of y) cid) \<noteq> None" "disk_ok (store_of y)"
          using inv(1) by (force simp: history_inv_def system_inv_def thread_defs)+
        then show ?thesis using wf by (auto simp: disk_ok_def stored_def split: option.splits node.splits)
      next
        case False
        then show ?thesis using ack del' advance(1) assms(2) set_update_subset_insert [of "pool y" i t]
          by (auto simp: acked_inv_def)
      qed
    next
      case (call i t)
      then show ?thesis using ack del' assms(2) set_update_subset_insert [of "pool y" i t]
        by (auto simp: acked_inv_def)
    qed (use ack del' assms(2) in \<open>auto simp: acked_inv_def\<close>)
    with assms(1) inv(1) wf del' show ?thesis by (cases rule: stored_step) auto
  qed
  then show ?thesis using inv(2) by (simp add: acked_inv_def)
qed

interpretation acked: step_invariant "system_step evp" "acked_inv evp" for evp
  by unfold_locales (rule acked_step)

lemma acked_inv_start: "LocalDisk_inv s \<Longrightarrow> stripe_locks s = {} \<Longrightarrow> acked_inv evp (system_start n s)"
  using history_inv_start [of s evp n] by (simp add: acked_inv_def system_start_def)

section \<open>Restart\<close>

lemma restart_inv:
  assumes "disk_ok s" "os_stat_ok osa" "uuid_wf (os_uuid osa)" "os_iterate_ok osa"
  shows "\<exists>s'. LocalDisk_new rl osa (disk s) (data_root s) lg = Returns s' \<and> LocalDisk_inv s' \<and>
    stripe_locks s' = {} \<and> stored s' = stored s"
  using assms
  by (auto simp: LocalDisk_new_def Let_def fs_exists_def fs_iterate_def count_loop_eq disk_ok_def LocalDisk_inv_def stored_def FinalPathFor_def ShardDirFor_def
    fun_eq_iff)

lemma solo_advances:
  "pool y = [t] \<Longrightarrow> (system_step evp)\<^sup>*\<^sup>* y (y\<lparr>process := snd (solo evp t (process y)), pool := [fst (solo evp t (process y))]\<rparr>)"
proof (induction evp t "process y" arbitrary: y rule: solo.induct)
  case (1 evp t)
  show ?case
  proof (cases "thread_step evp t (process y)")
    case None
    then show ?thesis using 1(2) by (cases y) simp
  next
    case (Some tp)
    obtain t' p' where s: "thread_step evp t (process y) = Some (t', p')" using Some by (cases tp) auto
    let ?y = "y\<lparr>process := p', pool := [t']\<rparr>"
    have "system_step evp y ?y" using system_step.advance [of 0 y evp t' p'] 1(2) s by simp
    moreover have "(system_step evp)\<^sup>*\<^sup>* ?y (?y\<lparr>process := snd (solo evp t' p'), pool := [fst (solo evp t' p')]\<rparr>)"
      using 1(1) [OF s, of t' ?y] by simp
    ultimately show ?thesis using solo_go [OF s] by simp
  qed
qed

lemma acked_chunk:
  assumes "LocalDisk_inv s" "stripe_locks s = {}" "verified evp s"
    "(system_step evp)\<^sup>*\<^sup>* (system_start n s) y" "put_ok cid \<in> set (pool y)"
    "(system_step evp)\<^sup>*\<^sup>* y z" "Delete_lock cid \<notin> set (called z)"
  shows "\<exists>b. hashes_to evp b cid \<and> stored (store_of z) cid = Some b \<and> disk_ok (store_of z)"
proof -
  have acked: "acked_inv evp y" using acked.run_keeps [OF assms(4)] acked_inv_start [OF assms(1,2)] by blast
  then have inv: "history_inv evp y" by (simp add: acked_inv_def)
  then have wf: "ChunkId_wf cid" using assms(5) by (force simp: history_inv_def system_inv_def thread_defs)
  have "Delete_lock cid \<notin> set (called y)" using called_grows [OF assms(6)] assms(7) by blast
  then obtain b where b: "stored (store_of y) cid = Some b" using acked assms(5) by (auto simp: acked_inv_def)
  have z: "stored (store_of z) cid = Some b" by (rule stored_stays [OF assms(6) inv wf b assms(7)])
  have "hashes_to evp b cid"
    using stored_from [OF assms(4) history_inv_start [OF assms(1,2)] wf b] assms(3) wf
    by (auto simp: verified_def system_start_def)
  moreover have "disk_ok (store_of z)"
    using history.run_keeps [OF assms(6) inv] by (simp add: history_inv_def system_inv_def)
  ultimately show ?thesis using z by blast
qed

section \<open>A concrete run\<close>

lemma demo_concurrent:
  obtains y where "(system_step demo_evp)\<^sup>*\<^sup>* (system_start 1 (demo_empty Relock_counts)) y"
    "pool y = [put_ok demo_id]" "stored (store_of y) demo_id = Some demo_data" "called y = [Put_start demo_id demo_data]"
    "os (store_of y) = demo_os"
proof -
  let ?s = "demo_empty Relock_counts" and ?t = "Put_start demo_id demo_data"
  let ?y = "system_start 1 ?s"
  let ?c = "?y\<lparr>pool := [?t], called := [?t]\<rparr>"
  obtain s' where put: "LocalDisk_Put demo_evp demo_id demo_data ?s = (Returns (Ok ()), s')" "stored s' demo_id = Some demo_data" "os s' = demo_os"
    by (rule demo_put) (simp add: stored_def)
  have call: "system_step demo_evp ?y ?c"
    using system_step.call [of 0 ?y ?t demo_evp] by (simp add: system_start_def)
  have "solo demo_evp ?t \<lparr>shared = ?s, fds = []\<rparr> = (put_ok demo_id, \<lparr>shared = s', fds = []\<rparr>)"
    using solo_put [OF put(1)] by simp
  then have "(system_step demo_evp)\<^sup>*\<^sup>* ?c (?c\<lparr>process := \<lparr>shared = s', fds = []\<rparr>, pool := [put_ok demo_id]\<rparr>)"
    using solo_advances [of ?c ?t demo_evp] by (simp add: system_start_def)
  with call have "(system_step demo_evp)\<^sup>*\<^sup>* ?y (?c\<lparr>process := \<lparr>shared = s', fds = []\<rparr>, pool := [put_ok demo_id]\<rparr>)"
    by (rule converse_rtranclp_into_rtranclp)
  from that [OF this] put(2,3) show ?thesis by simp
qed

section \<open>Theorems\<close>

lemma demo_verified: "verified demo_evp (demo_empty rl)"
  by (simp add: verified_def stored_def demo_empty_def)

lemma demo_iterate: "os_iterate_ok demo_os"
  by (simp add: demo_os_def)

text \<open>
  Whatever calls run side by side, and wherever they are interrupted: once a \<open>Put\<close> has reported
  success, the chunk's bytes stay on the disk until a \<open>Delete\<close> of the same chunk is called, they hash
  to the address, and a store that is opened on that disk (after the process died between two system
  calls, say) has them too.
\<close>

theorem acknowledged_put_survives:
  assumes "LocalDisk_inv s" "stripe_locks s = {}" "verified evp s"
    "(system_step evp)\<^sup>*\<^sup>* (system_start n s) y" "put_ok cid \<in> set (pool y)"
    "(system_step evp)\<^sup>*\<^sup>* y z" "Delete_lock cid \<notin> set (called z)"
    "os_stat_ok osa" "uuid_wf (os_uuid osa)" "os_iterate_ok osa"
  shows "\<exists>b s'. HashBytes evp b = Returns (id_digest cid) \<and> stored (store_of z) cid = Some b \<and>
    LocalDisk_new rl osa (disk (store_of z)) (data_root (store_of z)) lg = Returns s' \<and> LocalDisk_inv s' \<and>
    stored s' cid = Some b"
  using acked_chunk [OF assms(1-7)] restart_inv [OF _ assms(8-10), of "store_of z" rl lg] by metis

theorem acknowledged_put_survives_witness:
  "\<exists>y b. (system_step demo_evp)\<^sup>*\<^sup>* (system_start 1 (demo_empty Relock_counts)) y \<and> put_ok demo_id \<in> set (pool y) \<and>
     HashBytes demo_evp b = Returns (id_digest demo_id) \<and> stored (store_of y) demo_id = Some b"
proof -
  obtain y where y: "(system_step demo_evp)\<^sup>*\<^sup>* (system_start 1 (demo_empty Relock_counts)) y"
    "pool y = [put_ok demo_id]" "called y = [Put_start demo_id demo_data]" "os (store_of y) = demo_os"
    by (rule demo_concurrent)
  show ?thesis
    using acknowledged_put_survives [where rl = Relock_counts and lg = demo_logger and cid = demo_id,
        OF demo_empty_inv demo_empty_simps(1) demo_verified y(1) _ rtranclp.rtrancl_refl
        _ demo_stat(1) demo_os_uuid demo_iterate] y by auto
qed

text \<open>
  At every moment of every interleaving: a chunk that was there at the start and has no \<open>Delete\<close>
  called for it is there unchanged, and a chunk that is there was there at the start or was brought by
  a \<open>Put\<close> of just these bytes, which hash to its address.
\<close>

theorem contents_come_from_calls:
  assumes "LocalDisk_inv s" "stripe_locks s = {}" "(system_step evp)\<^sup>*\<^sup>* (system_start n s) y" "ChunkId_wf cid"
  shows "(stored s cid = Some b \<longrightarrow> Delete_lock cid \<notin> set (called y) \<longrightarrow> stored (store_of y) cid = Some b) \<and>
    (stored (store_of y) cid = Some b \<longrightarrow>
       stored s cid = Some b \<or> Put_start cid b \<in> set (called y) \<and> HashBytes evp b = Returns (id_digest cid))"
  using stored_stays [OF assms(3) history_inv_start [OF assms(1,2)] assms(4), of b]
    stored_from [OF assms(3) history_inv_start [OF assms(1,2)] assms(4), of b]
  by (simp add: system_start_def)

theorem contents_come_from_calls_witness:
  "\<exists>y. (system_step demo_evp)\<^sup>*\<^sup>* (system_start 1 (demo_empty Relock_counts)) y \<and>
     stored (store_of y) demo_id = Some demo_data \<and> Put_start demo_id demo_data \<in> set (called y)"
proof -
  obtain y where y: "(system_step demo_evp)\<^sup>*\<^sup>* (system_start 1 (demo_empty Relock_counts)) y"
    "stored (store_of y) demo_id = Some demo_data"
    by (rule demo_concurrent)
  have "stored (demo_empty Relock_counts) demo_id = None" by (simp add: stored_def demo_empty_def)
  then show ?thesis
    using contents_come_from_calls [OF demo_empty_inv demo_empty_simps(1) y(1) demo_id_wf, of demo_data] y by auto
qed

text \<open>
  C16: No two threads are inside operations on the same stripe, and every open descriptor belongs to
  exactly one guard of one thread: none is closed twice and none is left open.
\<close>

theorem stripes_and_descriptors_have_one_owner:
  assumes "LocalDisk_inv s" "stripe_locks s = {}" "(system_step evp)\<^sup>*\<^sup>* (system_start n s) y"
  shows "(\<forall>i j a b. i < length (pool y) \<and> j < length (pool y) \<and> holds (pool y ! i) = Some a \<and>
      holds (pool y ! j) = Some b \<and> LockFor a = LockFor b \<longrightarrow> i = j) \<and>
    distinct (fds (process y)) \<and> mset (fds (process y)) = sum_list (map (\<lambda>t. guarded (guards t)) (pool y))"
proof -
  have inv: "lock_inv y" "fd_inv y" using reachable_inv [OF assms] by (simp_all add: system_inv_def)
  then show ?thesis using lock_exclusion [OF inv(1)] by (auto simp: fd_inv_def table_ok_def)
qed

theorem stripes_and_descriptors_have_one_owner_witness:
  "\<exists>y. (system_step demo_evp)\<^sup>*\<^sup>* (system_start 1 (demo_empty Relock_counts)) y \<and> fds (process y) = []"
proof -
  obtain y where y: "(system_step demo_evp)\<^sup>*\<^sup>* (system_start 1 (demo_empty Relock_counts)) y" "pool y = [put_ok demo_id]"
    by (rule demo_concurrent)
  then show ?thesis using stripes_and_descriptors_have_one_owner [OF demo_empty_inv demo_empty_simps(1) y(1)]
    by (auto simp: guards_def)
qed

text \<open>
  A result is true when its thread lets go of the stripe: after a successful \<open>Put\<close> the chunk file
  is there, after a successful \<open>Delete\<close> it is not, \<open>Exists\<close> says which of the two, and \<open>Get\<close> returns
  the file's bytes. Bytes handed to a caller hash to the address, whatever else runs.
\<close>

theorem concurrent_results_are_true:
  assumes "LocalDisk_inv s" "stripe_locks s = {}" "(system_step evp)\<^sup>*\<^sup>* (system_start n s) y" "t \<in> set (pool y)"
  shows "(t = Leaving out cid gs \<longrightarrow> outcome_true evp (store_of y) out cid) \<and>
    (t = Op_finished (Get_outcome (Returns (Ok d))) cid \<longrightarrow> HashBytes evp d = Returns (id_digest cid))"
  using reachable_inv [OF assms(1-3)] assms(4) by (auto simp: system_inv_def thread_ok_def outcome_sound_def)

theorem concurrent_results_are_true_witness:
  "\<exists>y. (system_step demo_evp)\<^sup>*\<^sup>* (system_start 1 (demo_empty Relock_counts)) y \<and>
     Leaving (Exists_outcome (Returns False)) demo_id [] \<in> set (pool y) \<and>
     outcome_true demo_evp (store_of y) (Exists_outcome (Returns False)) demo_id"
proof -
  let ?s = "demo_empty Relock_counts"
  let ?y = "system_start 1 ?s"
  let ?c = "?y\<lparr>pool := [Exists_lock demo_id], called := [Exists_lock demo_id]\<rparr>"
  let ?d = "?c\<lparr>process := lock_stripe demo_id (process ?c), pool := [Exists_stat demo_id]\<rparr>"
  let ?e = "?d\<lparr>pool := [Leaving (Exists_outcome (Returns False)) demo_id []]\<rparr>"
  have "system_step demo_evp ?y ?c"
    using system_step.call [of 0 ?y "Exists_lock demo_id" demo_evp] by (simp add: system_start_def)
  moreover have "system_step demo_evp ?c ?d"
    using system_step.advance [of 0 ?c demo_evp "Exists_stat demo_id" "lock_stripe demo_id (process ?c)"]
    by (simp add: system_start_def)
  moreover have "system_step demo_evp ?d ?e"
    using system_step.advance [of 0 ?d demo_evp "Leaving (Exists_outcome (Returns False)) demo_id []" "process ?d"]
    by (simp add: system_start_def fs_exists_def demo_empty_def FinalPathFor_def ShardDirFor_def)
  ultimately have "(system_step demo_evp)\<^sup>*\<^sup>* ?y ?e" by (meson rtranclp.intros)
  from concurrent_results_are_true [OF demo_empty_inv demo_empty_simps(1) this,
      of _ "Exists_outcome (Returns False)" demo_id "[]"] this
  show ?thesis by (intro exI [of _ ?e]) simp
qed



text \<open>
  Calls that have started all return, unless relocking a mutex hangs: from every reachable state
  the threads can take only so many steps without a new call, and where none can take a step, all are
  at rest.
\<close>

theorem every_call_returns:
  assumes "LocalDisk_inv s" "stripe_locks s = {}" "relock s \<noteq> Relock_blocks"
    "(system_step evp)\<^sup>*\<^sup>* (system_start n s) y"
  shows "(\<forall>k y'. (advances evp ^^ k) y y' \<longrightarrow> k \<le> sum_list (map steps_left (pool y))) \<and>
    (\<exists>y'. (advances evp)\<^sup>*\<^sup>* y y' \<and> (\<forall>t \<in> set (pool y'). resting t)) \<and>
    (\<forall>y'. (advances evp)\<^sup>*\<^sup>* y y' \<and> (\<forall>z. \<not> advances evp y' z) \<longrightarrow> (\<forall>t \<in> set (pool y'). resting t))"
proof -
  have inv: "system_inv evp y" by (rule reachable_inv [OF assms(1,2,4)])
  have rl: "relock (store_of y) \<noteq> Relock_blocks" using system_relock [OF assms(4)] assms(3) by (simp add: system_start_def)
  have stuck: "\<forall>t \<in> set (pool y'). resting t" if r: "(advances evp)\<^sup>*\<^sup>* y y'" and no: "\<forall>z. \<not> advances evp y' z" for y'
  proof -
    have "(system_step evp)\<^sup>*\<^sup>* y y'" using r by (rule rtranclp_mono [THEN predicate2D, rotated]) (auto intro: advances_step)
    then have "relock (store_of y') \<noteq> Relock_blocks" using rl system_relock by metis
    then show ?thesis using system_progress [OF disk_advance.run_keeps [OF r inv]] no by blast
  qed
  have "k \<le> work_left y" if "(advances evp ^^ k) y y'" for k y'
    using disk_advance.run_bounded [OF that inv] by simp
  then show ?thesis using disk_advance.run_ends [OF inv] stuck by blast
qed

theorem every_call_returns_witness:
  "\<exists>y y'. (system_step demo_evp)\<^sup>*\<^sup>* (system_start 2 (demo_empty Relock_counts)) y \<and> Get_lock demo_id \<in> set (pool y) \<and>
     (advances demo_evp)\<^sup>*\<^sup>* y y' \<and> (\<forall>t \<in> set (pool y'). resting t)"
proof -
  let ?y = "system_start 2 (demo_empty Relock_counts)" and ?t = "Get_lock demo_id"
  let ?c = "?y\<lparr>pool := [?t, At_rest], called := [?t]\<rparr>"
  have "system_step demo_evp ?y ?c"
    using system_step.call [of 0 ?y ?t demo_evp] by (simp add: system_start_def numeral_2_eq_2)
  then have run: "(system_step demo_evp)\<^sup>*\<^sup>* ?y ?c" by (rule r_into_rtranclp)
  then obtain y' where "(advances demo_evp)\<^sup>*\<^sup>* ?c y'" "\<forall>t \<in> set (pool y'). resting t"
    using every_call_returns [OF demo_empty_inv demo_empty_simps(1) _ run] by auto
  moreover have "?t \<in> set (pool ?c)" by simp
  ultimately show ?thesis using run by blast
qed

text \<open>
  C22: Where relocking hangs, a \<open>Put\<close> that has taken its stripe stands still for good: whatever the
  other threads do, it never takes another step and its stripe stays locked.
\<close>

theorem put_waits_for_itself:
  assumes "LocalDisk_inv s" "stripe_locks s = {}" "relock s = Relock_blocks"
    "(system_step evp)\<^sup>*\<^sup>* (system_start n s) y" "i < length (pool y)" "pool y ! i = Put_relock cid data"
    "(system_step evp)\<^sup>*\<^sup>* y z"
  shows "pool z ! i = Put_relock cid data \<and> LockFor cid \<in> stripe_locks (store_of z)"
proof -
  have "i < length (pool z) \<and> pool z ! i = Put_relock cid data"
    using assms(7)
  proof (induction rule: rtranclp_induct)
    case (step u v)
    have rl: "relock (store_of u) = Relock_blocks" using system_relock [OF rtranclp_trans [OF assms(4) step.hyps(1)]] assms(3)
      by (simp add: system_start_def)
    from step.hyps(2) show ?case
      by (cases rule: system_step.cases) (use step.IH rl in \<open>auto simp: nth_list_update\<close>)
  qed (use assms(5,6) in simp)
  then have at: "i < length (pool z)" "pool z ! i = Put_relock cid data" by simp_all
  have inv: "lock_inv z" using reachable_inv [OF assms(1,2) rtranclp_trans [OF assms(4,7)]] by (simp add: system_inv_def)
  have "locked_by (pool z ! i) \<subseteq># mset_set (stripe_locks (store_of z))"
    using sum_list_member [of "pool z ! i" "pool z" locked_by] nth_mem [OF at(1)] inv by (simp add: lock_inv_def)
  then show ?thesis using at inv by (simp add: locked_by_def holds_def lock_inv_def)
qed

theorem put_waits_for_itself_witness:
  "\<exists>y. (system_step demo_evp)\<^sup>*\<^sup>* (system_start 1 (demo_empty Relock_blocks)) y \<and>
     pool y ! 0 = Put_relock demo_id demo_data \<and> LockFor demo_id \<in> stripe_locks (store_of y)"
proof -
  let ?s = "demo_empty Relock_blocks" and ?t = "Put_start demo_id demo_data"
  let ?y = "system_start 1 ?s"
  let ?c = "?y\<lparr>pool := [?t], called := [?t]\<rparr>"
  have call: "system_step demo_evp ?y ?c"
    using system_step.call [of 0 ?y ?t demo_evp] by (simp add: system_start_def)
  let ?z = "?c\<lparr>process := snd (solo demo_evp ?t (process ?c)), pool := [fst (solo demo_evp ?t (process ?c))]\<rparr>"
  have "pool ?z = [Put_relock demo_id demo_data]"
    by (simp add: solo.simps [of _ "Put_start _ _"] solo.simps [of _ "Put_lock _ _"] system_start_def)
  moreover have "(system_step demo_evp)\<^sup>*\<^sup>* ?c ?z" by (rule solo_advances) simp
  ultimately obtain y where "(system_step demo_evp)\<^sup>*\<^sup>* ?c y" and at: "pool y = [Put_relock demo_id demo_data]" by blast
  then have y: "(system_step demo_evp)\<^sup>*\<^sup>* ?y y" using call by (blast intro: converse_rtranclp_into_rtranclp)
  then show ?thesis
    using put_waits_for_itself [OF demo_empty_inv demo_empty_simps(1,3) y, of 0 demo_id demo_data y] y at by auto
qed

end
