(* ===== verification/Node_Workers.thy ===== *)
theory Node_Workers
  imports Storage_Node_Theorems Disk_Concurrent
begin

text \<open>
  The storage node with the worker threads of its gRPC server
  (\<^verbatim>\<open>services/storage_node/src/storage_node_service_impl.cpp\<close> over
  \<^verbatim>\<open>local_disk_chunk_store.cpp\<close> and \<^verbatim>\<open>libs/common/src/logger.cpp\<close>): any number of RPCs run at the same
  time, each on its own thread, and inside the chunk store they take turns system call by system
  call, as in \<open>Disk_Steps\<close>.

  A handler is the definition of \<open>Storage_Service\<close> itself. Every handler calls the store at most
  once; it is run against \<open>waiting_store\<close>, where that call stops it until the store has answered.
  The part before the call and the part after it are then one step each: they touch nothing that
  threads share except the logger, to which they only append.

  \<^verbatim>\<open>t_correlation_id\<close> is \<^verbatim>\<open>thread_local\<close>: every worker has its own, and before a worker takes a step
  inside the store the logger is switched to it.
\<close>

section \<open>Requests and replies\<close>

datatype rpc =
    Rpc_PutChunk ServerContext "PutChunkRequest list"
  | Rpc_GetChunk ServerContext GetChunkRequest "nat \<Rightarrow> bool"
  | Rpc_VerifyChunk ServerContext VerifyChunkRequest
  | Rpc_DeleteChunk ServerContext DeleteChunkRequest
  | Rpc_ReplicateChunk peer_node ServerContext ReplicateChunkRequest
  | Rpc_GetNodeStats ServerContext GetNodeStatsRequest

datatype rpc_reply =
    Reply_PutChunk grpc_Status PutChunkResponse
  | Reply_GetChunk grpc_Status "GetChunkResponse list"
  | Reply_VerifyChunk grpc_Status VerifyChunkResponse
  | Reply_DeleteChunk grpc_Status DeleteChunkResponse
  | Reply_ReplicateChunk grpc_Status ReplicateChunkResponse
  | Reply_GetNodeStats grpc_Status GetNodeStatsResponse

fun rpc_context :: "rpc \<Rightarrow> ServerContext" where
  "rpc_context (Rpc_PutChunk sctx reader) = sctx"
| "rpc_context (Rpc_GetChunk sctx request write_ok) = sctx"
| "rpc_context (Rpc_VerifyChunk sctx request) = sctx"
| "rpc_context (Rpc_DeleteChunk sctx request) = sctx"
| "rpc_context (Rpc_ReplicateChunk peer sctx request) = sctx"
| "rpc_context (Rpc_GetNodeStats sctx request) = sctx"

abbreviation rpc_correlation_id :: "rpc \<Rightarrow> string" where
  "rpc_correlation_id r \<equiv> GetCorrelationId (rpc_context r) 0"

fun serve :: "'s StorageNodeService \<Rightarrow> rpc \<Rightarrow> 's \<Rightarrow> rpc_reply run \<times> 's" where
  "serve svc (Rpc_PutChunk sctx reader) s = apfst (run_map (case_prod Reply_PutChunk)) (PutChunk svc sctx reader s)"
| "serve svc (Rpc_GetChunk sctx request write_ok) s =
     apfst (run_map (case_prod Reply_GetChunk)) (GetChunk svc sctx request write_ok s)"
| "serve svc (Rpc_VerifyChunk sctx request) s =
     apfst (run_map (case_prod Reply_VerifyChunk)) (VerifyChunk svc sctx request s)"
| "serve svc (Rpc_DeleteChunk sctx request) s =
     apfst (run_map (case_prod Reply_DeleteChunk)) (DeleteChunk svc sctx request s)"
| "serve svc (Rpc_ReplicateChunk peer sctx request) s =
     apfst (run_map (case_prod Reply_ReplicateChunk)) (ReplicateChunk svc peer sctx request s)"
| "serve svc (Rpc_GetNodeStats sctx request) s =
     apfst (run_map (case_prod Reply_GetNodeStats)) (GetNodeStats svc sctx request s)"

section \<open>A handler that waits for the store\<close>

datatype store_call =
    Call_Put ChunkId "byte list"
  | Call_Get ChunkId
  | Call_VerifyOnly ChunkId
  | Call_Delete ChunkId
  | Call_Exists ChunkId
  | Call_GetStats

datatype store_answer =
    Put_answer "unit store_result"
  | Get_answer "byte list store_result"
  | VerifyOnly_answer "unit store_result"
  | Delete_answer "unit store_result"
  | Exists_answer "bool run"
  | GetStats_answer "ChunkStoreStats run"

record waiting =
  waiting_logger :: Logger
  waiting_answer :: "store_answer option"
  waiting_for :: "store_call option"

definition await :: "store_call \<Rightarrow> (store_answer \<Rightarrow> 'a run option) \<Rightarrow> waiting \<Rightarrow> 'a run \<times> waiting" where
  "await call select w =
     (case Option.bind (waiting_answer w) select of
        Some r \<Rightarrow> (r, w)
      | None \<Rightarrow> (Blocks, w\<lparr>waiting_for := Some call\<rparr>))"

text \<open>No handler lists the chunks.\<close>

definition waiting_store :: "waiting IChunkStore" where
  "waiting_store =
     \<lparr>Put = \<lambda>cid data. await (Call_Put cid data) (\<lambda>a. case a of Put_answer r \<Rightarrow> Some r | _ \<Rightarrow> None),
      Get = \<lambda>cid. await (Call_Get cid) (\<lambda>a. case a of Get_answer r \<Rightarrow> Some r | _ \<Rightarrow> None),
      VerifyOnly = \<lambda>cid. await (Call_VerifyOnly cid) (\<lambda>a. case a of VerifyOnly_answer r \<Rightarrow> Some r | _ \<Rightarrow> None),
      Delete = \<lambda>cid. await (Call_Delete cid) (\<lambda>a. case a of Delete_answer r \<Rightarrow> Some r | _ \<Rightarrow> None),
      Exists = \<lambda>cid. await (Call_Exists cid) (\<lambda>a. case a of Exists_answer r \<Rightarrow> Some r | _ \<Rightarrow> None),
      GetStats = await Call_GetStats (\<lambda>a. case a of GetStats_answer r \<Rightarrow> Some r | _ \<Rightarrow> None),
      ListAllChunkIds = \<lambda>w. (Blocks, w)\<rparr>"

definition waiting_service :: "uint64 \<Rightarrow> waiting StorageNodeService" where
  "waiting_service limit =
     \<lparr>svc_store = waiting_store,
      service_logger = \<lparr>deref = waiting_logger, modify = waiting_logger_update\<rparr>, max_chunk_bytes = limit\<rparr>"

section \<open>What is written to the log\<close>

type_synonym log_line = "spd_level \<times> string"

definition written :: "Logger \<Rightarrow> log_line list" where
  "written lg = (case op_logger lg of None \<Rightarrow> [] | Some l \<Rightarrow> spd_messages l)"

definition append_log :: "log_line list \<Rightarrow> Logger \<Rightarrow> Logger" where
  "append_log ls lg = lg\<lparr>op_logger := map_option (\<lambda>l. l\<lparr>spd_messages := spd_messages l @ ls\<rparr>) (op_logger lg)\<rparr>"

text \<open>The logger as a thread sees it that has written nothing yet.\<close>

definition own_view :: "string \<Rightarrow> Logger \<Rightarrow> Logger" where
  "own_view corr lg =
     lg\<lparr>op_logger := map_option (\<lambda>l. l\<lparr>spd_messages := []\<rparr>) (op_logger lg), t_correlation_id := corr\<rparr>"

text \<open>
  A handler with the answer of the store (or none yet), on a thread whose correlation id is
  \<open>corr\<close>: how it ends, what it has written, its correlation id, and what it waits for.
\<close>

definition run_handler ::
  "uint64 \<Rightarrow> rpc \<Rightarrow> store_answer option \<Rightarrow> string \<Rightarrow> Logger \<Rightarrow>
   rpc_reply run \<times> log_line list \<times> string \<times> store_call option" where
  "run_handler limit r answer corr lg =
     (let (reply, w) = serve (waiting_service limit) r
            \<lparr>waiting_logger = own_view corr lg, waiting_answer = answer, waiting_for = None\<rparr>
      in (reply, written (waiting_logger w), t_correlation_id (waiting_logger w), waiting_for w))"

section \<open>Workers\<close>

text \<open>
  A suspended handler: the request, how many lines it has written, and the correlation id its scope
  guard will restore.
\<close>

record handler_frame =
  frame_rpc :: rpc
  frame_written :: nat
  frame_previous :: string

datatype worker_state =
    Waiting_for_rpc
  | In_store handler_frame store_call
  | Stats_space handler_frame
  | Stats_count handler_frame uint64
  | Stats_bytes handler_frame uint64 uint64
  | Replied rpc "rpc_reply run"

record worker =
  thread_correlation_id :: string
  worker_state :: worker_state

text \<open>
  \<open>authors\<close> and \<open>arrived\<close> are for the theorems only: for every line of the log the correlation id
  of the request it was written for, and the requests that came in.
\<close>

record node_system =
  store_threads :: disk_system
  workers :: "worker list"
  authors :: "string list"
  arrived :: "rpc list"

abbreviation node_store :: "node_system \<Rightarrow> LocalDisk" where
  "node_store y \<equiv> store_of (store_threads y)"

abbreviation map_process :: "(disk_process \<Rightarrow> disk_process) \<Rightarrow> node_system \<Rightarrow> node_system" where
  "map_process f y \<equiv> y\<lparr>store_threads := (store_threads y)\<lparr>process := f (process (store_threads y))\<rparr>\<rparr>"

definition log_lines :: "string \<Rightarrow> log_line list \<Rightarrow> node_system \<Rightarrow> node_system" where
  "log_lines author ls y =
     (map_process (\<lambda>p. p\<lparr>shared := log_with (append_log ls) (shared p)\<rparr>) y)
       \<lparr>authors := authors y @ (if op_logger (logger (node_store y)) = None then [] else map (\<lambda>_. author) ls)\<rparr>"

abbreviation set_worker :: "nat \<Rightarrow> string \<Rightarrow> worker_state \<Rightarrow> node_system \<Rightarrow> node_system" where
  "set_worker i corr st y \<equiv>
     y\<lparr>workers := (workers y)[i := \<lparr>thread_correlation_id = corr, worker_state = st\<rparr>]\<rparr>"

fun free :: "worker_state \<Rightarrow> bool" where
  "free Waiting_for_rpc = True"
| "free (Replied r reply) = True"
| "free st = False"

text \<open>The operation of the store's threads that a call starts; \<^verbatim>\<open>VerifyOnly\<close> calls \<^verbatim>\<open>Get\<close>.\<close>

fun disk_op :: "store_call \<Rightarrow> disk_thread" where
  "disk_op (Call_Put cid data) = Put_start cid data"
| "disk_op (Call_Get cid) = Get_lock cid"
| "disk_op (Call_VerifyOnly cid) = Get_lock cid"
| "disk_op (Call_Delete cid) = Delete_lock cid"
| "disk_op (Call_Exists cid) = Exists_lock cid"
| "disk_op Call_GetStats = At_rest"

text \<open>The rest of \<^verbatim>\<open>VerifyOnly\<close> after \<^verbatim>\<open>Get\<close> has come back.\<close>

definition VerifyOnly_result :: "byte list store_result \<Rightarrow> unit store_result" where
  "VerifyOnly_result = run_map (\<lambda>res. case res of Err e \<Rightarrow> Err e | Ok _ \<Rightarrow> Ok ())"

fun answer_of :: "store_call \<Rightarrow> disk_outcome \<Rightarrow> store_answer" where
  "answer_of call (Put_outcome r) = Put_answer r"
| "answer_of (Call_VerifyOnly cid) (Get_outcome r) = VerifyOnly_answer (VerifyOnly_result r)"
| "answer_of call (Get_outcome r) = Get_answer r"
| "answer_of call (Delete_outcome r) = Delete_answer r"
| "answer_of call (Exists_outcome r) = Exists_answer r"

definition enter_store :: "nat \<Rightarrow> handler_frame \<Rightarrow> string \<Rightarrow> store_call \<Rightarrow> node_system \<Rightarrow> node_system" where
  "enter_store i fr corr call y =
     (if call = Call_GetStats then set_worker i corr (Stats_space fr) y
      else (set_worker i corr (In_store fr call) y)
        \<lparr>store_threads := (store_threads y)\<lparr>pool := (pool (store_threads y))[i := disk_op call],
           called := disk_op call # called (store_threads y)\<rparr>\<rparr>)"

definition rpc_arrives :: "uint64 \<Rightarrow> nat \<Rightarrow> rpc \<Rightarrow> node_system \<Rightarrow> node_system" where
  "rpc_arrives limit i r y =
     (let previous = thread_correlation_id (workers y ! i);
          (reply, ls, corr, call) = run_handler limit r None previous (logger (node_store y));
          y1 = (log_lines (rpc_correlation_id r) ls y)\<lparr>arrived := r # arrived y\<rparr>
      in case (reply, call) of
           (Blocks, Some c) \<Rightarrow>
             enter_store i \<lparr>frame_rpc = r, frame_written = length ls, frame_previous = previous\<rparr> corr c y1
         | _ \<Rightarrow> set_worker i corr (Replied r reply) y1)"

definition store_answers :: "uint64 \<Rightarrow> nat \<Rightarrow> handler_frame \<Rightarrow> store_answer \<Rightarrow> node_system \<Rightarrow> node_system" where
  "store_answers limit i fr answer y =
     (let (reply, ls, corr, call) =
            run_handler limit (frame_rpc fr) (Some answer) (frame_previous fr) (logger (node_store y))
      in set_worker i corr (Replied (frame_rpc fr) reply)
           (log_lines (rpc_correlation_id (frame_rpc fr)) (drop (frame_written fr) ls) y))"

definition switch_log :: "string \<Rightarrow> disk_process \<Rightarrow> disk_process" where
  "switch_log corr p = plog (\<lambda>lg. lg\<lparr>t_correlation_id := corr\<rparr>) p"

definition store_steps :: "'c EVP \<Rightarrow> nat \<Rightarrow> handler_frame \<Rightarrow> node_system \<Rightarrow> node_system option" where
  "store_steps evp i fr y =
     (let corr = thread_correlation_id (workers y ! i); p = switch_log corr (process (store_threads y))
      in case thread_step evp (pool (store_threads y) ! i) p of
           None \<Rightarrow> None
         | Some (t, p') \<Rightarrow> Some
             (y\<lparr>store_threads := (store_threads y)\<lparr>process := p', pool := (pool (store_threads y))[i := t]\<rparr>,
                authors := authors y @ replicate
                  (length (written (logger (shared p'))) - length (written (logger (shared p))))
                  (rpc_correlation_id (frame_rpc fr))\<rparr>))"

text \<open>The steps of workers that are busy, and all the steps of the node.\<close>

inductive serving_step :: "'c EVP \<Rightarrow> uint64 \<Rightarrow> node_system \<Rightarrow> node_system \<Rightarrow> bool" for evp limit where
  in_store: "i < length (workers y) \<Longrightarrow> worker_state (workers y ! i) = In_store fr call \<Longrightarrow>
     store_steps evp i fr y = Some y' \<Longrightarrow> serving_step evp limit y y'"
| answered: "i < length (workers y) \<Longrightarrow> worker_state (workers y ! i) = In_store fr call \<Longrightarrow>
     pool (store_threads y) ! i = Op_finished out cid \<Longrightarrow>
     serving_step evp limit y (store_answers limit i fr (answer_of call out) y)"
| space: "i < length (workers y) \<Longrightarrow> workers y ! i = \<lparr>thread_correlation_id = corr, worker_state = Stats_space fr\<rparr> \<Longrightarrow>
     serving_step evp limit y (set_worker i corr
       (Stats_count fr (case os_space (os (node_store y)) of None \<Rightarrow> 0 | Some a \<Rightarrow> a)) y)"
| load_count: "i < length (workers y) \<Longrightarrow> workers y ! i = \<lparr>thread_correlation_id = corr, worker_state = Stats_count fr avail\<rparr> \<Longrightarrow>
     serving_step evp limit y (set_worker i corr (Stats_bytes fr avail (chunk_count (node_store y))) y)"
| load_bytes: "i < length (workers y) \<Longrightarrow> worker_state (workers y ! i) = Stats_bytes fr avail chunks \<Longrightarrow>
     serving_step evp limit y (store_answers limit i fr (GetStats_answer (Returns
       \<lparr>stats_chunk_count = chunks, stats_bytes_used = bytes_used (node_store y), stats_bytes_free = avail\<rparr>)) y)"

inductive node_step :: "'c EVP \<Rightarrow> uint64 \<Rightarrow> node_system \<Rightarrow> node_system \<Rightarrow> bool" for evp limit where
  arrival: "i < length (workers y) \<Longrightarrow> free (worker_state (workers y ! i)) \<Longrightarrow>
     node_step evp limit y (rpc_arrives limit i r y)"
| serving: "serving_step evp limit y y' \<Longrightarrow> node_step evp limit y y'"
| os_changes: "uuid_wf (os_uuid osa) \<Longrightarrow> os_stat_ok osa \<Longrightarrow>
     node_step evp limit y (map_process (\<lambda>p. p\<lparr>shared := (shared p)\<lparr>os := osa\<rparr>\<rparr>) y)"

inductive_cases serving_stepE: "serving_step evp limit y y'"
inductive_cases node_stepE: "node_step evp limit y y'"

definition node_start :: "nat \<Rightarrow> LocalDisk \<Rightarrow> node_system" where
  "node_start n s = \<lparr>store_threads = system_start n s,
     workers = replicate n \<lparr>thread_correlation_id = [], worker_state = Waiting_for_rpc\<rparr>,
     authors = replicate (length (written (logger s))) [], arrived = []\<rparr>"

end
