(* ===== verification/Node_Handlers.thy ===== *)
theory Node_Handlers
  imports Node_Workers
begin

text \<open>
  What a handler does up to its call of the store and after it: it only appends lines to the log,
  each under the correlation id of its request; it waits for at most one call, on a well-formed
  chunk id; and its reply is a function of the answer.
\<close>

section \<open>Lines under a correlation id\<close>

definition sent_as :: "string \<Rightarrow> log_line \<Rightarrow> bool" where
  "sent_as c l \<longleftrightarrow> (\<exists>text flds. snd l = FormatOpMessage c text flds)"

lemma sent_as_nobody [simp]: "sent_as [] l"
  unfolding sent_as_def by (rule exI [of _ "snd l"], rule exI [of _ "[]"]) (simp add: FormatOpMessage_def FormatFields_def)

lemma append_log_simps [simp]:
  "append_log [] lg = lg"
  "append_log ks (append_log ls lg) = append_log (ls @ ks) lg"
  "t_correlation_id (append_log ls lg) = t_correlation_id lg"
  "op_logger (append_log ls lg) = None \<longleftrightarrow> op_logger lg = None"
  "(append_log ls lg)\<lparr>t_correlation_id := c\<rparr> = append_log ls (lg\<lparr>t_correlation_id := c\<rparr>)"
  by (cases "op_logger lg"; cases lg; simp add: append_log_def)+

lemma Logger_log_append:
  "Logger_log l m flds lg = append_log [(ToSpdlogLevel l, FormatOpMessage (t_correlation_id lg) m flds)] lg"
  by (simp add: Logger_log_def append_log_def spd_log_def [abs_def])

lemma written_append [simp]: "op_logger lg \<noteq> None \<Longrightarrow> written (append_log ls lg) = written lg @ ls"
  "op_logger lg = None \<Longrightarrow> written (append_log ls lg) = []"
  by (auto simp: written_def append_log_def)

lemma own_view_simps [simp]:
  "written (own_view c lg) = []" "t_correlation_id (own_view c lg) = c"
  "op_logger (own_view c lg) = None \<longleftrightarrow> op_logger lg = None"
  by (cases "op_logger lg"; simp add: own_view_def written_def)+

text \<open>Two states of a logger between which lines were written under its correlation id.\<close>

definition spoke :: "Logger \<Rightarrow> Logger \<Rightarrow> bool" where
  "spoke lg lg' \<longleftrightarrow> (\<exists>ls. lg' = append_log ls lg \<and> list_all (sent_as (t_correlation_id lg)) ls)"

lemma spoke_refl [simp, intro]: "spoke lg lg"
  unfolding spoke_def by (rule exI [of _ "[]"]) simp

lemma spoke_trans: "spoke lg lg' \<Longrightarrow> spoke lg' lg'' \<Longrightarrow> spoke lg lg''"
  unfolding spoke_def by (elim exE) (rule_tac x = "ls @ lsa" in exI, simp)

lemma spoke_line [intro!]: "spoke lg lg' \<Longrightarrow> spoke lg (Logger_log l m flds lg')"
proof (erule spoke_trans, unfold spoke_def)
  show "\<exists>ls. Logger_log l m flds lg' = append_log ls lg' \<and> list_all (sent_as (t_correlation_id lg')) ls"
    by (rule exI [of _ "[(ToSpdlogLevel l, FormatOpMessage (t_correlation_id lg') m flds)]"])
       (auto simp: Logger_log_append sent_as_def)
qed

abbreviation wrote :: "waiting \<Rightarrow> waiting \<Rightarrow> bool" where
  "wrote w w' \<equiv> spoke (waiting_logger w) (waiting_logger w')"

abbreviation waiting_log :: "waiting logger_ref" where
  "waiting_log \<equiv> \<lparr>deref = waiting_logger, modify = waiting_logger_update\<rparr>"

lemma waiting_service_simps [simp]:
  "svc_store (waiting_service limit) = waiting_store" "service_logger (waiting_service limit) = waiting_log"
  "max_chunk_bytes (waiting_service limit) = limit"
  by (simp_all add: waiting_service_def)

lemma wrote_line [intro]: "wrote u v \<Longrightarrow> wrote u (waiting_logger_update (Logger_log l m flds) v)"
  by auto

lemma await_wrote: "await call select w = (r, w') \<Longrightarrow> wrote u w \<Longrightarrow> wrote u w'"
  by (auto simp: await_def split: option.splits)

lemma waiting_store_wrote:
  "Put waiting_store cid data w = (r1, w') \<Longrightarrow> wrote u w \<Longrightarrow> wrote u w'"
  "Get waiting_store cid w = (r2, w') \<Longrightarrow> wrote u w \<Longrightarrow> wrote u w'"
  "VerifyOnly waiting_store cid w = (r3, w') \<Longrightarrow> wrote u w \<Longrightarrow> wrote u w'"
  "Delete waiting_store cid w = (r4, w') \<Longrightarrow> wrote u w \<Longrightarrow> wrote u w'"
  "GetStats waiting_store w = (r5, w') \<Longrightarrow> wrote u w \<Longrightarrow> wrote u w'"
  by (auto simp: waiting_store_def dest: await_wrote)

lemma run_bind_wrote:
  assumes "run_bind m k = (r, w')" "\<And>a u. m = (a, u) \<Longrightarrow> wrote w u"
    "\<And>a u. m = (Returns a, u) \<Longrightarrow> k a u = (r, w') \<Longrightarrow> wrote u w'"
  shows "wrote w w'"
proof -
  obtain a u where m: "m = (a, u)" by fastforce
  then show ?thesis using assms by (cases a) (auto intro: spoke_trans)
qed

definition scoped_writing :: "string \<Rightarrow> 'a run \<Rightarrow> waiting \<Rightarrow> waiting \<Rightarrow> bool" where
  "scoped_writing c r w w' \<longleftrightarrow> (\<exists>ls. list_all (sent_as c) ls \<and>
     waiting_logger w' = (append_log ls (waiting_logger w))
       \<lparr>t_correlation_id := if r = Blocks then c else t_correlation_id (waiting_logger w)\<rparr>)"

lemma scope_writes:
  assumes "correlation_scope waiting_log c block w = (r, w')"
    "\<And>u r u'. block u = (r, u') \<Longrightarrow> wrote u u'"
  shows "scoped_writing c r w w'"
proof -
  let ?u = "waiting_logger_update (\<lambda>lg. lg\<lparr>t_correlation_id := c\<rparr>) w"
  obtain r1 u' where b: "block ?u = (r1, u')" by fastforce
  obtain ls where "waiting_logger u' = append_log ls (waiting_logger ?u)" "list_all (sent_as c) ls"
    using assms(2) [OF b] by (auto simp: spoke_def)
  then show ?thesis
    using assms(1) b unfolding scoped_writing_def
    by (intro exI [of _ ls])
       (auto simp: correlation_scope_def WithCorrelationId_def ScopedCorrelationId_dtor_def split: run.splits)
qed

lemmas handler_splits = list.splits option.splits PutPayload.splits Result.splits if_splits prod.splits

lemmas handler_defs = PutChunk_def PutChunk_store_def GetChunk_def VerifyChunk_def DeleteChunk_def
  ReplicateChunk_def ReplicateChunk_store_def GetNodeStats_def

lemma handler_writes:
  "PutChunk (waiting_service limit) sctx reader w = (r1, w') \<Longrightarrow> scoped_writing (GetCorrelationId sctx 0) r1 w w'"
  "GetChunk (waiting_service limit) sctx greq write_ok w = (r2, w') \<Longrightarrow> scoped_writing (GetCorrelationId sctx 0) r2 w w'"
  "VerifyChunk (waiting_service limit) sctx vreq w = (r3, w') \<Longrightarrow> scoped_writing (GetCorrelationId sctx 0) r3 w w'"
  "DeleteChunk (waiting_service limit) sctx dreq w = (r4, w') \<Longrightarrow> scoped_writing (GetCorrelationId sctx 0) r4 w w'"
  "ReplicateChunk (waiting_service limit) peer sctx rreq w = (r5, w') \<Longrightarrow> scoped_writing (GetCorrelationId sctx 0) r5 w w'"
  "GetNodeStats (waiting_service limit) sctx sreq w = (r6, w') \<Longrightarrow> scoped_writing (GetCorrelationId sctx 0) r6 w w'"
  unfolding handler_defs waiting_service_simps
  by (erule scope_writes, auto simp: Let_def split: handler_splits elim!: run_bind_wrote intro: waiting_store_wrote)+

lemma run_map_Blocks [simp]: "run_map f m = Blocks \<longleftrightarrow> m = Blocks"
  by (cases m) simp_all

lemma scoped_writing_map [simp]: "scoped_writing c (run_map f m) w w' = scoped_writing c m w w'"
  by (simp add: scoped_writing_def)

lemma serve_writes:
  assumes "serve (waiting_service limit) r w = (reply, w')"
  shows "scoped_writing (rpc_correlation_id r) reply w w'"
  using assms by (cases r) (auto simp: apfst_def map_prod_def split: prod.splits dest: handler_writes)

lemma run_handler_writes:
  assumes "run_handler limit r answer corr lg = (reply, ls, corr', call)"
  shows "list_all (sent_as (rpc_correlation_id r)) ls"
    and "corr' = (if reply = Blocks then rpc_correlation_id r else corr)"
    and "op_logger lg = None \<Longrightarrow> ls = []"
proof -
  let ?w = "\<lparr>waiting_logger = own_view corr lg, waiting_answer = answer, waiting_for = None\<rparr>"
  obtain w where w: "serve (waiting_service limit) r ?w = (reply, w)" "ls = written (waiting_logger w)"
      "corr' = t_correlation_id (waiting_logger w)"
    using assms by (auto simp: run_handler_def split: prod.splits)
  from serve_writes [OF w(1)] obtain ks where ks: "list_all (sent_as (rpc_correlation_id r)) ks"
      "waiting_logger w = append_log ks (own_view (if reply = Blocks then rpc_correlation_id r else corr) lg)"
    by (auto simp: scoped_writing_def own_view_def)
  then have "ls = (if op_logger lg = None then [] else ks)" using w(2) by (cases "op_logger lg") simp_all
  then show "list_all (sent_as (rpc_correlation_id r)) ls" "op_logger lg = None \<Longrightarrow> ls = []"
    using ks(1) by simp_all
  show "corr' = (if reply = Blocks then rpc_correlation_id r else corr)" using ks(2) w(3) by simp
qed

section \<open>What a handler asks of the store\<close>

fun asks :: "uint64 \<Rightarrow> rpc \<Rightarrow> store_call \<Rightarrow> bool" where
  "asks limit (Rpc_PutChunk sctx reader) call \<longleftrightarrow>
     (\<exists>cid payload. put_accepts (waiting_service limit) reader cid payload \<and> call = Call_Put cid payload)"
| "asks limit (Rpc_GetChunk sctx request write_ok) call \<longleftrightarrow> get_protocol_version request = 1 \<and>
     (\<exists>cid. Parse (get_chunk_id request) = Ok cid \<and> call = Call_Get cid)"
| "asks limit (Rpc_VerifyChunk sctx request) call \<longleftrightarrow> ver_protocol_version request = 1 \<and>
     (\<exists>cid. Parse (ver_chunk_id request) = Ok cid \<and> call = Call_VerifyOnly cid)"
| "asks limit (Rpc_DeleteChunk sctx request) call \<longleftrightarrow> del_protocol_version request = 1 \<and>
     (\<exists>cid. Parse (del_chunk_id request) = Ok cid \<and> call = Call_Delete cid)"
| "asks limit (Rpc_ReplicateChunk peer sctx request) call \<longleftrightarrow> rep_protocol_version request = 1 \<and>
     (\<exists>cid payload. Parse (rep_chunk_id request) = Ok cid \<and> call = Call_Put cid payload \<and>
        replicate_accepts (waiting_service limit) (peer (rep_source_node_address request)
          [(kCorrelationIdMetadataKey, GetCorrelationId sctx 1)]
          \<lparr>get_protocol_version = kCurrentProtocolVersion, get_chunk_id = id_hex cid\<rparr>) payload)"
| "asks limit (Rpc_GetNodeStats sctx request) call \<longleftrightarrow> stat_protocol_version request = 1 \<and> call = Call_GetStats"

lemma asks_unique: "asks limit r a \<Longrightarrow> asks limit r b \<Longrightarrow> a = b"
  by (cases r) (auto simp: put_accepts_def replicate_accepts_def)

lemma accepts_limit:
  "put_accepts (waiting_service (max_chunk_bytes svc)) reader cid payload = put_accepts svc reader cid payload"
  "replicate_accepts (waiting_service (max_chunk_bytes svc)) answer payload = replicate_accepts svc answer payload"
  by (simp_all add: put_accepts_def replicate_accepts_def)

lemma logged_waiting:
  assumes "logged waiting_log w w'"
  shows "waiting_for w' = waiting_for w \<and> waiting_answer w' = waiting_answer w"
  using assms by (induction rule: logged_induct) simp_all

lemma apfst_eq_iff: "apfst f x = (r, w) \<longleftrightarrow> (\<exists>m. x = (m, w) \<and> r = f m)"
  by (cases x) auto

fun call_store :: "'s IChunkStore \<Rightarrow> store_call \<Rightarrow> 's \<Rightarrow> store_answer \<times> 's" where
  "call_store store (Call_Put cid data) s = apfst Put_answer (Put store cid data s)"
| "call_store store (Call_Get cid) s = apfst Get_answer (Get store cid s)"
| "call_store store (Call_VerifyOnly cid) s = apfst VerifyOnly_answer (VerifyOnly store cid s)"
| "call_store store (Call_Delete cid) s = apfst Delete_answer (Delete store cid s)"
| "call_store store (Call_Exists cid) s = apfst Exists_answer (Exists store cid s)"
| "call_store store Call_GetStats s = apfst GetStats_answer (GetStats store s)"

fun answer_blocks :: "store_answer \<Rightarrow> bool" where
  "answer_blocks (Put_answer m) = (m = Blocks)"
| "answer_blocks (Get_answer g) = (g = Blocks)"
| "answer_blocks (VerifyOnly_answer m) = (m = Blocks)"
| "answer_blocks (Delete_answer m) = (m = Blocks)"
| "answer_blocks (Exists_answer b) = (b = Blocks)"
| "answer_blocks (GetStats_answer q) = (q = Blocks)"

fun fits :: "store_call \<Rightarrow> store_answer \<Rightarrow> bool" where
  "fits (Call_Put cid data) (Put_answer m) = True"
| "fits (Call_Get cid) (Get_answer g) = True"
| "fits (Call_VerifyOnly cid) (VerifyOnly_answer m) = True"
| "fits (Call_Delete cid) (Delete_answer m) = True"
| "fits (Call_Exists cid) (Exists_answer b) = True"
| "fits Call_GetStats (GetStats_answer q) = True"
| "fits call a = False"

lemma waiting_store_asks:
  assumes "waiting_answer w = None" "call_store waiting_store call w = (a, w')"
  shows "answer_blocks a" "fits call a" "waiting_for w' = Some call"
  using assms by (cases call; auto simp: waiting_store_def await_def)+

lemma waiting_store_answers:
  "waiting_answer w = Some a \<Longrightarrow> fits call a \<Longrightarrow> call_store waiting_store call w = (a, w)"
  by (cases call; cases a) (simp_all add: waiting_store_def await_def)

lemma call_store_fits: "call_store store call s = (a, s') \<Longrightarrow> fits call a"
  by (cases call) (auto simp: apfst_eq_iff)

lemma Parse_wf: "Parse h = Ok cid \<Longrightarrow> ChunkId_wf cid"
  by (auto dest: Parse_OkD)

lemma asks_wf: "asks limit r call \<Longrightarrow> call = Call_GetStats \<or> starts (disk_op call)"
  by (cases r) (auto dest: Parse_wf put_accepts_wf)

text \<open>Replies that a handler gives without asking the store, and what a reply owes to the answer.\<close>

fun refused :: "rpc_reply \<Rightarrow> bool" where
  "refused (Reply_PutChunk st resp) \<longleftrightarrow> error_code st \<noteq> GRPC_OK"
| "refused (Reply_GetChunk st frames) \<longleftrightarrow> error_code st \<noteq> GRPC_OK \<and> frames = []"
| "refused (Reply_VerifyChunk st resp) \<longleftrightarrow> error_code st \<noteq> GRPC_OK \<and> \<not> verr_is_valid resp"
| "refused (Reply_DeleteChunk st resp) \<longleftrightarrow> error_code st \<noteq> GRPC_OK"
| "refused (Reply_ReplicateChunk st resp) \<longleftrightarrow> (error_code st = GRPC_OK \<longrightarrow> repr_status resp \<noteq> CS_OK)"
| "refused (Reply_GetNodeStats st resp) \<longleftrightarrow> error_code st \<noteq> GRPC_OK"

definition status_of :: "(unit, ChunkStoreErrorDetail) Result \<Rightarrow> ChunkStatus" where
  "status_of res = (case res of Ok _ \<Rightarrow> CS_OK | Err e \<Rightarrow> MapStoreError (err_kind e))"

fun reply_to :: "rpc \<Rightarrow> store_answer \<Rightarrow> rpc_reply run" where
  "reply_to (Rpc_PutChunk sctx reader) (Put_answer m) =
     run_map (\<lambda>res. Reply_PutChunk Status_OK (put_response res)) m"
| "reply_to (Rpc_GetChunk sctx request write_ok) (Get_answer g) =
     run_map (\<lambda>res. Reply_GetChunk Status_OK (get_frames write_ok res)) g"
| "reply_to (Rpc_VerifyChunk sctx request) (VerifyOnly_answer m) =
     run_map (\<lambda>res. Reply_VerifyChunk Status_OK \<lparr>verr_protocol_version = 1, verr_is_valid = IsOk res,
       verr_status = status_of res\<rparr>) m"
| "reply_to (Rpc_DeleteChunk sctx request) (Delete_answer m) =
     run_map (\<lambda>res. Reply_DeleteChunk Status_OK \<lparr>delr_protocol_version = 1, delr_status = status_of res\<rparr>) m"
| "reply_to (Rpc_ReplicateChunk peer sctx request) (Put_answer m) =
     run_map (\<lambda>res. Reply_ReplicateChunk Status_OK \<lparr>repr_protocol_version = 1, repr_status = status_of res\<rparr>) m"
| "reply_to (Rpc_GetNodeStats sctx request) (GetStats_answer m) =
     run_map (\<lambda>stats. Reply_GetNodeStats Status_OK \<lparr>statr_protocol_version = 1,
       statr_chunk_count = stats_chunk_count stats, statr_bytes_used = stats_bytes_used stats,
       statr_bytes_free = stats_bytes_free stats\<rparr>) m"
| "reply_to r a = Blocks"

lemma run_map_comp [simp]: "run_map f (run_map g m) = run_map (\<lambda>x. f (g x)) m"
  by (cases m) simp_all

text \<open>A handler over any store: it refuses, or it asks the store once and replies to the answer.\<close>

lemma serve_cases:
  assumes "serve svc r s = (reply, s')"
  obtains (rejected) q where "reply = Returns q" "refused q" "logged (service_logger svc) s s'"
      "\<And>call. \<not> asks (max_chunk_bytes svc) r call"
  | (asked) call s1 a s2 where "asks (max_chunk_bytes svc) r call" "logged (service_logger svc) s s1"
      "call_store (svc_store svc) call s1 = (a, s2)" "logged (service_logger svc) s2 s'" "reply = reply_to r a"
proof (cases r)
  case (Rpc_PutChunk sctx reader)
  then obtain m where "PutChunk svc sctx reader s = (m, s')" "reply = run_map (case_prod Reply_PutChunk) m"
    using assms by (auto simp: apfst_eq_iff)
  then show thesis using rejected asked [of "Call_Put _ _"] Rpc_PutChunk
    by (cases rule: PutChunk_cases) (auto simp: accepts_limit)
next
  case (Rpc_GetChunk sctx request write_ok)
  then obtain m where "GetChunk svc sctx request write_ok s = (m, s')" "reply = run_map (case_prod Reply_GetChunk) m"
    using assms by (auto simp: apfst_eq_iff)
  then show thesis using rejected asked [of "Call_Get _"] Rpc_GetChunk
    by (cases rule: GetChunk_cases) (auto simp: IsOk_iff)
next
  case (Rpc_VerifyChunk sctx request)
  then obtain m where "VerifyChunk svc sctx request s = (m, s')" "reply = run_map (case_prod Reply_VerifyChunk) m"
    using assms by (auto simp: apfst_eq_iff)
  then show thesis using rejected asked [of "Call_VerifyOnly _"] Rpc_VerifyChunk
    by (cases rule: VerifyChunk_cases) (auto simp: status_of_def IsOk_iff)
next
  case (Rpc_DeleteChunk sctx request)
  then obtain m where "DeleteChunk svc sctx request s = (m, s')" "reply = run_map (case_prod Reply_DeleteChunk) m"
    using assms by (auto simp: apfst_eq_iff)
  then show thesis using rejected asked [of "Call_Delete _"] Rpc_DeleteChunk
    by (cases rule: DeleteChunk_cases) (auto simp: status_of_def IsOk_iff)
next
  case (Rpc_ReplicateChunk peer sctx request)
  then obtain m where "ReplicateChunk svc peer sctx request s = (m, s')" "reply = run_map (case_prod Reply_ReplicateChunk) m"
    using assms by (auto simp: apfst_eq_iff)
  then show thesis using rejected asked [of "Call_Put _ _"] Rpc_ReplicateChunk
    by (cases rule: ReplicateChunk_cases) (auto simp: status_of_def accepts_limit)
next
  case (Rpc_GetNodeStats sctx request)
  then obtain m where "GetNodeStats svc sctx request s = (m, s')" "reply = run_map (case_prod Reply_GetNodeStats) m"
    using assms by (auto simp: apfst_eq_iff)
  then show thesis using rejected asked [of Call_GetStats] Rpc_GetNodeStats by (cases rule: GetNodeStats_cases) auto
qed

lemma reply_blocks: "asks limit r call \<Longrightarrow> fits call a \<Longrightarrow> reply_to r a = Blocks \<longleftrightarrow> answer_blocks a"
  by (cases r; cases a) auto

lemma run_handler_asks:
  assumes "run_handler limit r None corr lg = (reply, ls, corr', call)"
  shows "(\<exists>q. reply = Returns q \<and> refused q \<and> call = None) \<or> (\<exists>c. reply = Blocks \<and> call = Some c \<and> asks limit r c)"
proof -
  let ?w = "\<lparr>waiting_logger = own_view corr lg, waiting_answer = None, waiting_for = None\<rparr>"
  obtain w where w: "serve (waiting_service limit) r ?w = (reply, w)" "call = waiting_for w"
    using assms by (auto simp: run_handler_def split: prod.splits)
  from w(1) show ?thesis
  proof (cases rule: serve_cases)
    case (rejected q)
    then show ?thesis using w(2) logged_waiting [of ?w w] by simp
  next
    case (asked c s1 a s2)
    then have "waiting_answer s1 = None" "waiting_for w = waiting_for s2"
      using logged_waiting [of ?w s1] logged_waiting [of s2 w] by simp_all
    with waiting_store_asks [of s1 c a s2] reply_blocks [of limit r c a] asked w(2) show ?thesis by simp
  qed
qed

lemma run_handler_answers:
  assumes "run_handler limit r (Some a) corr lg = (reply, ls, corr', call)" "asks limit r c" "fits c a"
  shows "reply = reply_to r a"
proof -
  let ?w = "\<lparr>waiting_logger = own_view corr lg, waiting_answer = Some a, waiting_for = None\<rparr>"
  obtain w where "serve (waiting_service limit) r ?w = (reply, w)"
    using assms(1) by (auto simp: run_handler_def split: prod.splits)
  then show ?thesis
  proof (cases rule: serve_cases)
    case (rejected q)
    then show ?thesis using assms(2) by simp
  next
    case (asked c' s1 b s2)
    then have "c' = c" using asks_unique assms(2) by simp
    with asked waiting_store_answers [of s1 a c] logged_waiting [of ?w s1] assms(3) show ?thesis by simp
  qed
qed

end
