(* ===== verification/Node_Concurrent.thy ===== *)
theory Node_Concurrent
  imports Node_Handlers
begin

text \<open>
  The invariant of a node with many workers, and that the node is a refinement of the threads in its
  store: with the logger left out, every step of a worker is a step of \<open>Disk_Concurrent\<close> or none at
  all. What was shown of the store with any interleaving of threads thereby holds for the store
  behind the service.
\<close>

section \<open>Threads do not read the log\<close>

definition mute :: Logger where
  "mute = \<lparr>op_logger = None, audit_logger = None, component_name = [], t_correlation_id = []\<rparr>"

definition hush :: "disk_process \<Rightarrow> disk_process" where
  "hush p = p\<lparr>shared := (shared p)\<lparr>logger := mute\<rparr>\<rparr>"

lemma mute_logs [simp]: "Logger_log l m flds mute = mute"
  by (simp add: Logger_log_def mute_def)

lemma logger_free [simp]:
  "FinalPathFor (s\<lparr>logger := lg\<rparr>) cid = FinalPathFor s cid"
  "ShardDirFor (s\<lparr>logger := lg\<rparr>) cid = ShardDirFor s cid"
  "tmp_path_for (s\<lparr>logger := lg\<rparr>) cid = tmp_path_for s cid"
  by (simp_all add: FinalPathFor_def ShardDirFor_def tmp_path_for_def)

lemma thread_step_hush: "thread_step evp t (hush p) = map_option (apsnd hush) (thread_step evp t p)"
proof (cases t)
  case (Leaving out cid gs)
  then show ?thesis by (cases gs) (simp_all add: hush_def)
qed (auto simp: hush_def Let_def drop_tmp_def split: run.splits relock_behaviour.splits prod.splits option.splits)

lemma step_writes:
  assumes "thread_step evp t p = Some (t', p')"
  shows "spoke (logger (shared p)) (logger (shared p'))"
proof (cases t)
  case (Leaving out cid gs)
  then show ?thesis using assms by (cases gs) auto
qed (use assms in \<open>auto simp: Let_def drop_tmp_def split: step_splits\<close>)

section \<open>The operation a thread is at\<close>

datatype disk_kind = Kind_Put | Kind_Get | Kind_Delete | Kind_Exists

definition outcome_kind :: "disk_outcome \<Rightarrow> disk_kind" where
  "outcome_kind out = (case out of Put_outcome _ \<Rightarrow> Kind_Put | Get_outcome _ \<Rightarrow> Kind_Get
     | Delete_outcome _ \<Rightarrow> Kind_Delete | Exists_outcome _ \<Rightarrow> Kind_Exists)"

definition thread_kind :: "disk_thread \<Rightarrow> disk_kind option" where
  "thread_kind t = (case t of
      At_rest \<Rightarrow> None
    | Get_lock _ \<Rightarrow> Some Kind_Get | Get_size _ \<Rightarrow> Some Kind_Get | Get_open _ _ \<Rightarrow> Some Kind_Get
    | Get_read _ _ _ \<Rightarrow> Some Kind_Get | Get_verify _ _ _ \<Rightarrow> Some Kind_Get
    | Delete_lock _ \<Rightarrow> Some Kind_Delete | Delete_size _ \<Rightarrow> Some Kind_Delete | Delete_remove _ _ \<Rightarrow> Some Kind_Delete
    | Delete_count _ _ \<Rightarrow> Some Kind_Delete | Delete_bytes _ _ \<Rightarrow> Some Kind_Delete
    | Exists_lock _ \<Rightarrow> Some Kind_Exists | Exists_stat _ \<Rightarrow> Some Kind_Exists
    | Leaving out _ _ \<Rightarrow> Some (outcome_kind out) | Op_finished out _ \<Rightarrow> Some (outcome_kind out)
    | _ \<Rightarrow> Some Kind_Put)"

lemma step_kind:
  assumes "thread_step evp t p = Some (t', p')"
  shows "thread_kind t' = thread_kind t \<and> about_chunk t' = about_chunk t"
proof (cases t)
  case (Leaving out cid gs)
  then show ?thesis using assms by (cases gs) (auto simp: thread_kind_def about_chunk_def holds_def)
qed (use assms in \<open>auto simp: thread_kind_def about_chunk_def holds_def outcome_kind_def Let_def split: step_splits\<close>)

lemma step_not_resting: "thread_step evp t p = Some (t', p') \<Longrightarrow> \<not> resting t"
  by (cases t) auto

text \<open>A thread that carries out a call of a handler, and what its result means to the handler.\<close>

definition carries_out :: "disk_thread \<Rightarrow> store_call \<Rightarrow> bool" where
  "carries_out t call \<longleftrightarrow> call \<noteq> Call_GetStats \<and> thread_kind t = thread_kind (disk_op call) \<and>
     about_chunk t = about_chunk (disk_op call)"

lemma carries_out_step: "thread_step evp t p = Some (t', p') \<Longrightarrow> carries_out t call \<Longrightarrow> carries_out t' call"
  using step_kind [of evp t p t' p'] by (simp add: carries_out_def)

lemma carries_out_fits: "carries_out (Op_finished out cid) call \<Longrightarrow> fits call (answer_of call out)"
  by (cases call; cases out) (auto simp: carries_out_def thread_kind_def outcome_kind_def)

section \<open>What a worker knows\<close>

text \<open>
  A reply that says something about the store is backed by the result with which the worker's last
  operation on the store ended.
\<close>

definition backed :: "uint64 \<Rightarrow> rpc \<Rightarrow> rpc_reply run \<Rightarrow> disk_thread \<Rightarrow> bool" where
  "backed limit r reply t \<longleftrightarrow> (\<forall>q. reply = Returns q \<longrightarrow> refused q \<or>
     (\<exists>call a. asks limit r call \<and> fits call a \<and> reply_to r a = Returns q \<and>
        (call = Call_GetStats \<or> (\<exists>out cid. t = Op_finished out cid \<and> carries_out t call \<and> a = answer_of call out))))"

definition worker_ok :: "uint64 \<Rightarrow> worker \<Rightarrow> disk_thread \<Rightarrow> bool" where
  "worker_ok limit w t = (case worker_state w of
      Waiting_for_rpc \<Rightarrow> resting t
    | In_store fr call \<Rightarrow> asks limit (frame_rpc fr) call \<and> carries_out t call \<and>
        thread_correlation_id w = rpc_correlation_id (frame_rpc fr)
    | Stats_space fr \<Rightarrow> asks limit (frame_rpc fr) Call_GetStats \<and> resting t
    | Stats_count fr _ \<Rightarrow> asks limit (frame_rpc fr) Call_GetStats \<and> resting t
    | Stats_bytes fr _ _ \<Rightarrow> asks limit (frame_rpc fr) Call_GetStats \<and> resting t
    | Replied r reply \<Rightarrow> resting t \<and> backed limit r reply t)"

text \<open>Every operation of the store was asked for by a request that came in.\<close>

definition calls_arrived :: "uint64 \<Rightarrow> node_system \<Rightarrow> bool" where
  "calls_arrived limit y \<longleftrightarrow> (\<forall>t \<in> set (called (store_threads y)).
     \<exists>r \<in> set (arrived y). \<exists>call. asks limit r call \<and> call \<noteq> Call_GetStats \<and> t = disk_op call)"

definition lines_sent :: "node_system \<Rightarrow> bool" where
  "lines_sent y \<longleftrightarrow> list_all2 sent_as (authors y) (written (logger (node_store y)))"

definition node_inv :: "uint64 \<Rightarrow> node_system \<Rightarrow> bool" where
  "node_inv limit y \<longleftrightarrow> list_all2 (worker_ok limit) (workers y) (pool (store_threads y)) \<and>
     calls_arrived limit y \<and> lines_sent y"

lemma worker_okD:
  assumes "node_inv limit y" "i < length (workers y)"
  shows "worker_ok limit (workers y ! i) (pool (store_threads y) ! i)" "i < length (pool (store_threads y))"
  using assms by (auto simp: node_inv_def list_all2_conv_all_nth)

lemma list_all2_update_one:
  "list_all2 P xs ys \<Longrightarrow> P x (ys ! i) \<Longrightarrow> list_all2 P (xs[i := x]) ys"
  "list_all2 P xs ys \<Longrightarrow> P (xs ! i) y \<Longrightarrow> list_all2 P xs (ys[i := y])"
  using list_all2_update_cong [of P xs ys x "ys ! i" i] list_all2_update_cong [of P xs ys "xs ! i" y i] by simp_all

lemma starts_carries_out: "starts (disk_op call) \<Longrightarrow> call \<noteq> Call_GetStats \<and> carries_out (disk_op call) call"
  by (cases call) (auto simp: carries_out_def)

lemma log_lines_simps [simp]:
  "workers (log_lines c ls y) = workers y" "arrived (log_lines c ls y) = arrived y"
  "pool (store_threads (log_lines c ls y)) = pool (store_threads y)"
  "called (store_threads (log_lines c ls y)) = called (store_threads y)"
  "logger (node_store (log_lines c ls y)) = append_log ls (logger (node_store y))"
  by (simp_all add: log_lines_def)

lemma log_lines_sent:
  assumes "lines_sent y" "list_all (sent_as c) ls"
  shows "lines_sent (log_lines c ls y)"
proof (cases "op_logger (logger (node_store y)) = None")
  case True
  then show ?thesis using assms(1) by (simp add: lines_sent_def log_lines_def written_def append_log_def)
next
  case False
  have "list_all2 sent_as (map (\<lambda>_. c) ls) ls"
    using assms(2) by (simp add: list_all2_conv_all_nth list_all_length)
  then show ?thesis using assms(1) False by (auto simp: lines_sent_def log_lines_def list_all2_appendI)
qed

lemma list_all2_replicate_sent: "list_all (sent_as c) ls \<Longrightarrow> list_all2 sent_as (replicate (length ls) c) ls"
  by (simp add: list_all2_conv_all_nth list_all_length)

section \<open>Every step keeps it\<close>

lemma arrival_inv:
  assumes "node_inv limit y" "i < length (workers y)" "free (worker_state (workers y ! i))"
  shows "node_inv limit (rpc_arrives limit i r y)"
proof -
  let ?w = "workers y ! i"
  obtain reply ls corr call where h: "run_handler limit r None (thread_correlation_id ?w) (logger (node_store y)) = (reply, ls, corr, call)"
    using prod_cases4 by blast
  have rest: "resting (pool (store_threads y) ! i)"
    using worker_okD(1) [OF assms(1,2)] assms(3) by (cases "worker_state ?w") (auto simp: worker_ok_def)
  let ?y = "(log_lines (rpc_correlation_id r) ls y)\<lparr>arrived := r # arrived y\<rparr>"
  have lines: "lines_sent ?y"
    using log_lines_sent [OF _ run_handler_writes(1) [OF h]] assms(1) by (simp add: node_inv_def lines_sent_def)
  have calls: "calls_arrived limit ?y" and ok: "list_all2 (worker_ok limit) (workers y) (pool (store_threads y))"
    using assms(1) by (auto simp: node_inv_def calls_arrived_def)
  from run_handler_asks [OF h] show ?thesis
  proof (elim disjE exE conjE)
    fix q assume q: "reply = Returns q" "refused q" "call = None"
    then show ?thesis using h lines calls ok rest
      by (simp add: rpc_arrives_def node_inv_def calls_arrived_def lines_sent_def list_all2_update_one worker_ok_def
          backed_def)
  next
    fix c assume c: "reply = Blocks" "call = Some c" "asks limit r c"
    have corr: "corr = rpc_correlation_id r" using run_handler_writes(2) [OF h] c(1) by simp
    show ?thesis
    proof (cases "c = Call_GetStats")
      case True
      then show ?thesis using h c lines calls ok rest
        by (simp add: rpc_arrives_def enter_store_def node_inv_def calls_arrived_def lines_sent_def
            list_all2_update_one worker_ok_def)
    next
      case False
      then have "starts (disk_op c)" using asks_wf [OF c(3)] by simp
      then show ?thesis using False h c lines calls ok starts_carries_out [of c] corr
        by (auto simp: rpc_arrives_def enter_store_def node_inv_def calls_arrived_def lines_sent_def
            list_all2_update_cong worker_ok_def)
    qed
  qed
qed

lemma store_steps_inv:
  assumes "node_inv limit y" "i < length (workers y)" "worker_state (workers y ! i) = In_store fr call"
    "store_steps evp i fr y = Some y'"
  shows "node_inv limit y'"
proof -
  let ?c = "thread_correlation_id (workers y ! i)" and ?t = "pool (store_threads y) ! i"
  let ?p = "switch_log ?c (process (store_threads y))"
  obtain t p where s: "thread_step evp ?t ?p = Some (t, p)"
    and y': "y' = y\<lparr>store_threads := (store_threads y)\<lparr>process := p, pool := (pool (store_threads y))[i := t]\<rparr>,
        authors := authors y @ replicate (length (written (logger (shared p))) - length (written (logger (shared ?p))))
          (rpc_correlation_id (frame_rpc fr))\<rparr>"
    using assms(4) by (auto simp: store_steps_def Let_def split: option.splits)
  note w = worker_okD(1) [OF assms(1,2), unfolded worker_ok_def assms(3), simplified]
  have "worker_ok limit (workers y ! i) t"
    using w carries_out_step [OF s] assms(3) by (simp add: worker_ok_def)
  then have "list_all2 (worker_ok limit) (workers y') (pool (store_threads y'))"
    using assms(1) y' by (simp add: node_inv_def list_all2_update_one)
  moreover obtain ls where ls: "logger (shared p) = append_log ls (logger (shared ?p))" "list_all (sent_as ?c) ls"
    using step_writes [OF s] by (auto simp: spoke_def switch_log_def)
  have "lines_sent y'"
  proof (cases "op_logger (logger (node_store y)) = None")
    case True
    then show ?thesis using assms(1) y' ls(1)
      by (simp add: node_inv_def lines_sent_def switch_log_def append_log_def written_def)
  next
    case False
    have "written (logger (shared ?p)) = written (logger (node_store y))" by (simp add: switch_log_def written_def)
    moreover have "written (logger (shared p)) = written (logger (shared ?p)) @ ls"
      using False ls(1) by (simp add: switch_log_def)
    ultimately show ?thesis
      using assms(1) y' ls(2) w by (simp add: node_inv_def lines_sent_def list_all2_appendI list_all2_replicate_sent)
  qed
  ultimately show ?thesis using assms(1) y' by (simp add: node_inv_def calls_arrived_def)
qed

lemma list_all_drop: "list_all P xs \<Longrightarrow> list_all P (drop n xs)"
  by (auto simp: list_all_iff dest: in_set_dropD)

lemma answers_inv:
  assumes "node_inv limit y" "i < length (workers y)" "asks limit (frame_rpc fr) call" "fits call a"
    "resting (pool (store_threads y) ! i)"
    "call = Call_GetStats \<or> (\<exists>out cid. pool (store_threads y) ! i = Op_finished out cid \<and>
       carries_out (Op_finished out cid) call \<and> a = answer_of call out)"
  shows "node_inv limit (store_answers limit i fr a y)"
proof -
  obtain reply ls corr c where h: "run_handler limit (frame_rpc fr) (Some a) (frame_previous fr) (logger (node_store y)) =
      (reply, ls, corr, c)"
    using prod_cases4 by blast
  let ?y = "log_lines (rpc_correlation_id (frame_rpc fr)) (drop (frame_written fr) ls) y"
  have "lines_sent ?y"
    using assms(1) by (intro log_lines_sent list_all_drop run_handler_writes(1) [OF h]) (simp add: node_inv_def)
  moreover have "backed limit (frame_rpc fr) reply (pool (store_threads y) ! i)"
    using run_handler_answers [OF h assms(3,4)] assms(3,4,6) unfolding backed_def by metis
  ultimately show ?thesis
    using assms(1,5) h
    by (simp add: store_answers_def node_inv_def calls_arrived_def lines_sent_def list_all2_update_one worker_ok_def)
qed

lemma serving_inv:
  assumes "serving_step evp limit y y'" "node_inv limit y"
  shows "node_inv limit y'"
  using assms(1)
proof (cases rule: serving_step.cases)
  case (in_store i fr call)
  then show ?thesis using store_steps_inv assms(2) by blast
next
  case (answered i fr call out cid)
  note w = worker_okD(1) [OF assms(2) answered(2), unfolded worker_ok_def answered(3), simplified]
  show ?thesis unfolding answered(1)
    by (rule answers_inv [OF assms(2) answered(2)]) (use w answered(4) carries_out_fits [of out cid call] in auto)
next
  case (space i corr fr)
  then show ?thesis using worker_okD(1) [OF assms(2) space(2)] assms(2)
    by (simp add: node_inv_def calls_arrived_def lines_sent_def list_all2_update_one worker_ok_def)
next
  case (load_count i corr fr avail)
  then show ?thesis using worker_okD(1) [OF assms(2) load_count(2)] assms(2)
    by (simp add: node_inv_def calls_arrived_def lines_sent_def list_all2_update_one worker_ok_def)
next
  case (load_bytes i fr avail chunks)
  note w = worker_okD(1) [OF assms(2) load_bytes(2), unfolded worker_ok_def load_bytes(3), simplified]
  show ?thesis unfolding load_bytes(1)
    by (rule answers_inv [OF assms(2) load_bytes(2)]) (use w in auto)
qed

lemma node_inv_step: "node_step evp limit y y' \<Longrightarrow> node_inv limit y \<Longrightarrow> node_inv limit y'"
  by (erule node_step.cases) (auto intro: arrival_inv serving_inv, simp add: node_inv_def calls_arrived_def lines_sent_def)

lemma node_inv_start: "node_inv limit (node_start n s)"
  by (simp add: node_inv_def node_start_def system_start_def worker_ok_def calls_arrived_def lines_sent_def
      list_all2_conv_all_nth)

section \<open>The node is a refinement of the threads in its store\<close>

definition silent :: "node_system \<Rightarrow> disk_system" where
  "silent y = (store_threads y)\<lparr>process := hush (process (store_threads y))\<rparr>"

lemma hush_simps [simp]:
  "hush (plog f p) = hush p" "hush (switch_log c p) = hush p" "hush (hush p) = hush p"
  by (simp_all add: hush_def switch_log_def)

lemma silent_log_lines [simp]:
  "silent (log_lines c ls y) = silent y" "silent (y\<lparr>workers := ws\<rparr>) = silent y" "silent (y\<lparr>arrived := rs\<rparr>) = silent y"
  by (simp_all add: silent_def log_lines_def hush_def)

lemma silent_answers [simp]: "silent (store_answers limit i fr a y) = silent y"
  by (simp add: store_answers_def split: prod.splits)

lemma arrival_refines:
  assumes "node_inv limit y" "i < length (workers y)" "free (worker_state (workers y ! i))"
  shows "(system_step evp)\<^sup>=\<^sup>= (silent y) (silent (rpc_arrives limit i r y))"
proof -
  let ?w = "workers y ! i"
  obtain reply ls corr call where h: "run_handler limit r None (thread_correlation_id ?w) (logger (node_store y)) = (reply, ls, corr, call)"
    using prod_cases4 by blast
  have rest: "resting (pool (store_threads y) ! i)"
    using worker_okD(1) [OF assms(1,2)] assms(3) by (cases "worker_state ?w") (auto simp: worker_ok_def)
  from run_handler_asks [OF h] show ?thesis
  proof (elim disjE exE conjE)
    fix q assume "reply = Returns q" "call = None"
    then show ?thesis using h by (simp add: rpc_arrives_def)
  next
    fix c assume c: "reply = Blocks" "call = Some c" "asks limit r c"
    show ?thesis
    proof (cases "c = Call_GetStats")
      case True
      then show ?thesis using h c by (simp add: rpc_arrives_def enter_store_def)
    next
      case False
      then have "starts (disk_op c)" using asks_wf [OF c(3)] by simp
      then have "system_step evp (silent y) ((silent y)\<lparr>pool := (pool (silent y))[i := disk_op c],
          called := disk_op c # called (silent y)\<rparr>)"
        using rest worker_okD(2) [OF assms(1,2)] by (intro system_step.call) (simp_all add: silent_def)
      moreover have "silent (rpc_arrives limit i r y) = (silent y)\<lparr>pool := (pool (silent y))[i := disk_op c],
          called := disk_op c # called (silent y)\<rparr>"
        using False h c by (simp add: rpc_arrives_def enter_store_def silent_def log_lines_def hush_def)
      ultimately show ?thesis by auto
    qed
  qed
qed

lemma store_steps_refines:
  assumes "store_steps evp i fr y = Some y'" "i < length (pool (store_threads y))"
  shows "system_step evp (silent y) (silent y')"
proof -
  let ?p = "switch_log (thread_correlation_id (workers y ! i)) (process (store_threads y))"
  obtain t p where s: "thread_step evp (pool (store_threads y) ! i) ?p = Some (t, p)"
    and y': "silent y' = (silent y)\<lparr>process := hush p, pool := (pool (silent y))[i := t]\<rparr>"
    using assms(1) by (auto simp: store_steps_def silent_def Let_def split: option.splits)
  have "thread_step evp (pool (silent y) ! i) (process (silent y)) = Some (t, hush p)"
    using thread_step_hush [of evp "pool (store_threads y) ! i" ?p] s by (simp add: silent_def)
  then show ?thesis unfolding y' using assms(2) by (intro system_step.advance) (simp_all add: silent_def)
qed

lemma serving_refines:
  assumes "serving_step evp limit y y'" "node_inv limit y"
  shows "(system_step evp)\<^sup>=\<^sup>= (silent y) (silent y')"
  using assms(1)
proof (cases rule: serving_step.cases)
  case (in_store i fr call)
  then show ?thesis using store_steps_refines worker_okD(2) [OF assms(2)] by blast
qed simp_all

lemma node_step_refines:
  assumes "node_step evp limit y y'" "node_inv limit y"
  shows "(system_step evp)\<^sup>=\<^sup>= (silent y) (silent y')"
  using assms(1)
proof (cases rule: node_step.cases)
  case (arrival i r)
  then show ?thesis using arrival_refines assms(2) by blast
next
  case serving
  then show ?thesis using serving_refines assms(2) by blast
next
  case (os_changes osa)
  then have "silent y' = (silent y)\<lparr>process := (process (silent y))\<lparr>shared := (shared (process (silent y)))\<lparr>os := osa\<rparr>\<rparr>\<rparr>"
    by (simp add: silent_def hush_def)
  then show ?thesis using system_step.os_answers [OF os_changes(2,3), of evp "silent y"] by auto
qed

interpretation node_refines: step_refinement "node_step evp limit" "node_inv limit" "system_step evp" silent for evp limit
  by unfold_locales (fact node_inv_step, rule refl_run [OF node_step_refines])

section \<open>From the start\<close>

lemma muted_store [simp]:
  "LocalDisk_inv (s\<lparr>logger := lg\<rparr>) = LocalDisk_inv s" "stored (s\<lparr>logger := lg\<rparr>) = stored s"
  "verified evp (s\<lparr>logger := lg\<rparr>) = verified evp s"
  by (simp_all add: LocalDisk_inv_def stored_def verified_def fun_eq_iff)

lemma silent_start: "silent (node_start n s) = system_start n (s\<lparr>logger := mute\<rparr>)"
  by (simp add: silent_def node_start_def system_start_def hush_def)

lemma silent_store [simp]: "store_of (silent y) = (node_store y)\<lparr>logger := mute\<rparr>"
  "pool (silent y) = pool (store_threads y)" "called (silent y) = called (store_threads y)"
  by (simp_all add: silent_def hush_def)

lemma node_run:
  assumes "(node_step evp limit)\<^sup>*\<^sup>* (node_start n s) y"
  shows "node_inv limit y" "(system_step evp)\<^sup>*\<^sup>* (system_start n (s\<lparr>logger := mute\<rparr>)) (silent y)"
  using node_refines.run_keeps [OF assms node_inv_start] node_refines.run_refines [OF assms node_inv_start]
  by (simp_all add: silent_start)

end
