(* ===== verification/Node_Alone.thy ===== *)
theory Node_Alone
  imports Node_Concurrent
begin

text \<open>
  A worker that serves one request while no other worker runs does what the handler of
  \<open>Storage_Service\<close> does over the one-step store of \<open>Local_Disk\<close>: the same reply, the same store
  and the same lines in the log. This ties the two ways of running a handler together: stopped at
  its call of the store and resumed, or in one go.
\<close>

section \<open>The lines of a handler\<close>

type_synonym said = "(LogLevel \<times> string) list"

definition svc_logs :: "'s StorageNodeService \<Rightarrow> said \<Rightarrow> 's \<Rightarrow> 's" where
  "svc_logs svc ls s = fold (\<lambda>(l, m). svc_log svc l m) ls s"

lemma svc_logs_simps [simp]:
  "svc_logs svc [] s = s" "svc_logs svc ((l, m) # ls) s = svc_logs svc ls (svc_log svc l m s)"
  by (simp_all add: svc_logs_def)

fun before :: "rpc \<Rightarrow> store_call \<Rightarrow> said" where
  "before (Rpc_ReplicateChunk peer sctx request) (Call_Put cid payload) =
     [(LogLevel_Info, ''ReplicateChunk requested for '' @ id_hex cid @ '' from '' @ rep_source_node_address request)]"
| "before r call = []"

definition took :: "ServerContext \<Rightarrow> string" where
  "took sctx = '' in '' @ to_string (duration_ms sctx) @ ''ms''"

fun when_returned :: "('a \<Rightarrow> said) \<Rightarrow> 'a run \<Rightarrow> said" where
  "when_returned f (Returns a) = f a"
| "when_returned f m = []"

definition put_said :: "ServerContext \<Rightarrow> ChunkId \<Rightarrow> (unit, ChunkStoreErrorDetail) Result \<Rightarrow> said" where
  "put_said sctx cid res = (case res of
      Ok _ \<Rightarrow> [(LogLevel_Info, ''PutChunk successful for '' @ id_hex cid @ took sctx)]
    | Err e \<Rightarrow>
        if err_kind e = ChunkStoreError_IoError \<or> err_kind e = ChunkStoreError_CorruptionDetected
        then [(LogLevel_Error, ''PutChunk failed: '' @ err_message e)]
        else [(LogLevel_Warn, ''PutChunk domain error: '' @ err_message e)])"

definition get_said ::
  "ServerContext \<Rightarrow> (nat \<Rightarrow> bool) \<Rightarrow> ChunkId \<Rightarrow> (byte list, ChunkStoreErrorDetail) Result \<Rightarrow> said" where
  "get_said sctx write_ok cid res = (case res of
      Ok data \<Rightarrow>
        (if fst (GetChunk_send write_ok data 0 1 (if write_ok 0 then [meta_frame (length data) CS_OK] else []))
         then [(LogLevel_Warn, ''GetChunk stream broken by client'')] else []) @
        [(LogLevel_Info, ''GetChunk successful for '' @ id_hex cid @ took sctx)]
    | Err e \<Rightarrow>
        if MapStoreError (err_kind e) = CORRUPTION_DETECTED \<or> MapStoreError (err_kind e) = IO_ERROR
        then [(LogLevel_Error, ''GetChunk failed for '' @ id_hex cid @ '': '' @ err_message e)]
        else [(LogLevel_Info, ''GetChunk completed with '' @ err_message e)])"

definition verify_said :: "ChunkId \<Rightarrow> (unit, ChunkStoreErrorDetail) Result \<Rightarrow> said" where
  "verify_said cid res = (case res of
      Ok _ \<Rightarrow> [(LogLevel_Debug, ''VerifyChunk OK for '' @ id_hex cid)]
    | Err e \<Rightarrow> [(LogLevel_Debug, ''VerifyChunk failed for '' @ id_hex cid @ '': '' @ err_message e)])"

definition delete_said :: "ServerContext \<Rightarrow> ChunkId \<Rightarrow> (unit, ChunkStoreErrorDetail) Result \<Rightarrow> said" where
  "delete_said sctx cid res = (case res of
      Ok _ \<Rightarrow> [(LogLevel_Info, ''DeleteChunk successful for '' @ id_hex cid @ took sctx)]
    | Err e \<Rightarrow> [(LogLevel_Error, ''DeleteChunk failed for '' @ id_hex cid @ '': '' @ err_message e)])"

definition replicate_said :: "ServerContext \<Rightarrow> ChunkId \<Rightarrow> (unit, ChunkStoreErrorDetail) Result \<Rightarrow> said" where
  "replicate_said sctx cid res = (case res of
      Ok _ \<Rightarrow> [(LogLevel_Info, ''ReplicateChunk successful for '' @ id_hex cid @ took sctx)]
    | Err e \<Rightarrow> [(LogLevel_Error, ''ReplicateChunk Put failed: '' @ err_message e)])"

lemmas said_defs = put_said_def get_said_def verify_said_def delete_said_def replicate_said_def took_def

definition after :: "rpc \<Rightarrow> store_call \<Rightarrow> store_answer \<Rightarrow> said" where
  "after r call a = (case r of
      Rpc_PutChunk sctx _ \<Rightarrow>
        (case (call, a) of (Call_Put cid _, Put_answer m) \<Rightarrow> when_returned (put_said sctx cid) m | _ \<Rightarrow> [])
    | Rpc_GetChunk sctx _ write_ok \<Rightarrow>
        (case (call, a) of (Call_Get cid, Get_answer m) \<Rightarrow> when_returned (get_said sctx write_ok cid) m | _ \<Rightarrow> [])
    | Rpc_VerifyChunk sctx _ \<Rightarrow>
        (case (call, a) of (Call_VerifyOnly cid, VerifyOnly_answer m) \<Rightarrow> when_returned (verify_said cid) m | _ \<Rightarrow> [])
    | Rpc_DeleteChunk sctx _ \<Rightarrow>
        (case (call, a) of (Call_Delete cid, Delete_answer m) \<Rightarrow> when_returned (delete_said sctx cid) m | _ \<Rightarrow> [])
    | Rpc_ReplicateChunk _ sctx _ \<Rightarrow>
        (case (call, a) of (Call_Put cid _, Put_answer m) \<Rightarrow> when_returned (replicate_said sctx cid) m | _ \<Rightarrow> [])
    | Rpc_GetNodeStats sctx _ \<Rightarrow>
        (case a of GetStats_answer m \<Rightarrow> when_returned (\<lambda>_. [(LogLevel_Debug, ''GetNodeStats completed'')]) m | _ \<Rightarrow> []))"

definition planned :: "'s StorageNodeService \<Rightarrow> rpc \<Rightarrow> store_call \<Rightarrow> 's \<Rightarrow> rpc_reply run \<times> 's" where
  "planned svc r call = correlation_scope (service_logger svc) (rpc_correlation_id r) (\<lambda>s.
     let (a, s1) = call_store (svc_store svc) call (svc_logs svc (before r call) s)
     in (reply_to r a, svc_logs svc (after r call a) s1))"

lemma apfst_scope:
  "apfst (run_map f) (correlation_scope ref c block s) = correlation_scope ref c (\<lambda>s. apfst (run_map f) (block s)) s"
proof -
  obtain m s2 where b: "block (modify ref (\<lambda>lg. snd (WithCorrelationId c lg)) s) = (m, s2)" by fastforce
  then show ?thesis by (cases m) (simp_all add: correlation_scope_def WithCorrelationId_def)
qed

lemma scope_cong:
  "(\<And>s. block s = block' s) \<Longrightarrow> correlation_scope ref c block s = correlation_scope ref c block' s"
  by (metis ext)

lemma PutChunk_planned:
  assumes "put_accepts svc reader cid payload"
  shows "serve svc (Rpc_PutChunk sctx reader) s = planned svc (Rpc_PutChunk sctx reader) (Call_Put cid payload) s"
proof -
  obtain first md rest where p: "reader = first # rest" "put_payload first = Some (Put_metadata md)"
      "put_protocol_version first = 1" "Parse (put_chunk_id md) = Ok cid" "payload = put_stream_data rest"
      "\<not> max_chunk_bytes svc < put_total_size_bytes md" "length payload \<le> unat (max_chunk_bytes svc)"
    using assms by (auto simp: put_accepts_def not_less)
  have read: "PutChunk_read (max_chunk_bytes svc) rest [] = Some payload"
    using p(5,7) by (simp add: PutChunk_read_eq)
  show ?thesis unfolding serve.simps PutChunk_def apfst_scope planned_def rpc_context.simps
  proof (rule scope_cong, goal_cases)
    case (1 u)
    obtain m v where "Put (svc_store svc) cid payload u = (m, v)" by fastforce
    then show ?case using p(1-4,6) read
      by (cases m) (auto simp: PutChunk_store_def put_response_def PutChunkResponse_default_def kCurrentProtocolVersion_def
          after_def said_defs Let_def split: Result.splits)
  qed
qed

lemma GetChunk_planned:
  assumes "get_protocol_version request = 1" "Parse (get_chunk_id request) = Ok cid"
  shows "serve svc (Rpc_GetChunk sctx request write_ok) s = planned svc (Rpc_GetChunk sctx request write_ok) (Call_Get cid) s"
  unfolding serve.simps GetChunk_def apfst_scope planned_def rpc_context.simps
proof (rule scope_cong, goal_cases)
  case (1 u)
  obtain m v where "Get (svc_store svc) cid u = (m, v)" by fastforce
  then show ?case using assms
    by (cases m) (auto simp: after_def said_defs get_frames_def Let_def split: Result.splits prod.splits)
qed

lemma VerifyChunk_planned:
  assumes "ver_protocol_version request = 1" "Parse (ver_chunk_id request) = Ok cid"
  shows "serve svc (Rpc_VerifyChunk sctx request) s = planned svc (Rpc_VerifyChunk sctx request) (Call_VerifyOnly cid) s"
  unfolding serve.simps VerifyChunk_def apfst_scope planned_def rpc_context.simps
proof (rule scope_cong, goal_cases)
  case (1 u)
  obtain m v where "VerifyOnly (svc_store svc) cid u = (m, v)" by fastforce
  then show ?case using assms
    by (cases m) (auto simp: after_def said_defs status_of_def VerifyChunkResponse_default_def kCurrentProtocolVersion_def
        Let_def split: Result.splits)
qed

lemma DeleteChunk_planned:
  assumes "del_protocol_version request = 1" "Parse (del_chunk_id request) = Ok cid"
  shows "serve svc (Rpc_DeleteChunk sctx request) s = planned svc (Rpc_DeleteChunk sctx request) (Call_Delete cid) s"
  unfolding serve.simps DeleteChunk_def apfst_scope planned_def rpc_context.simps
proof (rule scope_cong, goal_cases)
  case (1 u)
  obtain m v where "Delete (svc_store svc) cid u = (m, v)" by fastforce
  then show ?case using assms
    by (cases m) (auto simp: after_def said_defs status_of_def DeleteChunkResponse_default_def kCurrentProtocolVersion_def
        Let_def split: Result.splits)
qed

lemma GetNodeStats_planned:
  assumes "stat_protocol_version request = 1"
  shows "serve svc (Rpc_GetNodeStats sctx request) s = planned svc (Rpc_GetNodeStats sctx request) Call_GetStats s"
  unfolding serve.simps GetNodeStats_def apfst_scope planned_def rpc_context.simps
proof (rule scope_cong, goal_cases)
  case (1 u)
  obtain m v where "GetStats (svc_store svc) u = (m, v)" by fastforce
  then show ?case using assms
    by (cases m) (auto simp: after_def GetNodeStatsResponse_default_def kCurrentProtocolVersion_def Let_def)
qed

lemma ReplicateChunk_planned:
  assumes "rep_protocol_version request = 1" "Parse (rep_chunk_id request) = Ok cid"
    "replicate_accepts svc (peer (rep_source_node_address request) [(kCorrelationIdMetadataKey, GetCorrelationId sctx 1)]
       \<lparr>get_protocol_version = kCurrentProtocolVersion, get_chunk_id = id_hex cid\<rparr>) payload"
  shows "serve svc (Rpc_ReplicateChunk peer sctx request) s =
    planned svc (Rpc_ReplicateChunk peer sctx request) (Call_Put cid payload) s"
proof -
  obtain first rest finish where p: "peer (rep_source_node_address request) [(kCorrelationIdMetadataKey, GetCorrelationId sctx 1)]
       \<lparr>get_protocol_version = kCurrentProtocolVersion, get_chunk_id = id_hex cid\<rparr> = (first # rest, finish)"
      "error_code finish = GRPC_OK" "get_status (GetChunkResponse_metadata first) = CS_OK"
      "\<not> max_chunk_bytes svc < get_total_size_bytes (GetChunkResponse_metadata first)" "payload = get_stream_data rest"
    using assms(3) by (auto simp: replicate_accepts_def not_less) (metis prod.collapse)
  show ?thesis unfolding serve.simps ReplicateChunk_def apfst_scope planned_def rpc_context.simps
  proof (rule scope_cong, goal_cases)
    case (1 u)
    let ?u = "svc_log svc LogLevel_Info (''ReplicateChunk requested for '' @ id_hex cid @ '' from '' @ rep_source_node_address request) u"
    obtain m v where "Put (svc_store svc) cid payload ?u = (m, v)" by fastforce
    then show ?case using assms(1,2) p
      by (cases m) (auto simp: ReplicateChunk_store_def ReplicateChunk_read_eq ReplicateChunkResponse_default_def
          kCurrentProtocolVersion_def after_def said_defs status_of_def Let_def split: Result.splits)
  qed
qed

lemma serve_planned:
  assumes "asks (max_chunk_bytes svc) r call"
  shows "serve svc r s = planned svc r call s"
  using assms PutChunk_planned GetChunk_planned VerifyChunk_planned DeleteChunk_planned GetNodeStats_planned ReplicateChunk_planned
  by (cases r) (auto simp: accepts_limit simp del: serve.simps)


section \<open>The two halves of a handler\<close>

definition lines_as :: "string \<Rightarrow> said \<Rightarrow> log_line list" where
  "lines_as c ls = map (\<lambda>(l, m). (ToSpdlogLevel l, FormatOpMessage c m [])) ls"

lemma lines_as_simps [simp]:
  "lines_as c [] = []" "lines_as c (ks @ ls) = lines_as c ks @ lines_as c ls" "length (lines_as c ls) = length ls"
  by (simp_all add: lines_as_def)

lemma logs_append:
  "fold (\<lambda>(l, m). Logger_log l m []) ls lg = append_log (lines_as (t_correlation_id lg) ls) lg"
  by (induction ls arbitrary: lg) (auto simp: lines_as_def Logger_log_append)

lemma waiting_logs:
  "svc_logs (waiting_service limit) ls w =
     w\<lparr>waiting_logger := append_log (lines_as (t_correlation_id (waiting_logger w)) ls) (waiting_logger w)\<rparr>"
proof -
  have "svc_logs (waiting_service limit) ls w =
      w\<lparr>waiting_logger := fold (\<lambda>(l, m). Logger_log l m []) ls (waiting_logger w)\<rparr>"
    by (induction ls arbitrary: w) auto
  then show ?thesis by (simp add: logs_append)
qed

definition disk_service :: "'c EVP \<Rightarrow> uint64 \<Rightarrow> LocalDisk StorageNodeService" where
  "disk_service evp limit =
     \<lparr>svc_store = LocalDisk_vtable evp, service_logger = LocalDisk_log, max_chunk_bytes = limit\<rparr>"

lemma disk_logs:
  "svc_logs (disk_service evp limit) ls s =
     log_with (append_log (lines_as (t_correlation_id (logger s)) ls)) s"
proof -
  have "svc_logs (disk_service evp limit) ls s = log_with (fold (\<lambda>(l, m). Logger_log l m []) ls) s"
    by (induction ls arbitrary: s) (auto simp: disk_service_def LocalDisk_log_def comp_def)
  then show ?thesis by (cases s) (simp add: logs_append)
qed

lemma written_own_view:
  "written (append_log ls (own_view c lg)) = (if op_logger lg = None then [] else ls)"
  "written (append_log ls ((own_view c lg)\<lparr>t_correlation_id := d\<rparr>)) = (if op_logger lg = None then [] else ls)"
  by (cases "op_logger lg"; simp add: written_def append_log_def own_view_def)+

lemma waiting_call:
  assumes "call_store waiting_store call w = (a, w')" "waiting_answer w = None"
  shows "w' = w\<lparr>waiting_for := Some call\<rparr>"
  using assms by (cases call) (auto simp: waiting_store_def await_def)

lemma after_blocks: "answer_blocks a \<Longrightarrow> after r call a = []"
  by (cases a) (auto simp: after_def split: rpc.splits store_call.splits)

lemma run_handler_first:
  assumes "asks limit r call"
  shows "run_handler limit r None corr lg =
    (Blocks, if op_logger lg = None then [] else lines_as (rpc_correlation_id r) (before r call), rpc_correlation_id r, Some call)"
proof -
  let ?w = "\<lparr>waiting_logger = (own_view corr lg)\<lparr>t_correlation_id := rpc_correlation_id r\<rparr>, waiting_answer = None, waiting_for = None\<rparr>"
  let ?v = "svc_logs (waiting_service limit) (before r call) ?w"
  have v: "waiting_answer ?v = None" by (simp add: waiting_logs)
  obtain a w where c: "call_store waiting_store call ?v = (a, w)" by fastforce
  note a = waiting_store_asks [OF v c]
  have "reply_to r a = Blocks" using reply_blocks [OF assms a(2)] a(1) by simp
  then show ?thesis using serve_planned [of "waiting_service limit" r call] assms c waiting_call [OF c v] after_blocks [OF a(1)]
    by (simp add: run_handler_def planned_def correlation_scope_def WithCorrelationId_def waiting_logs written_own_view)
qed

lemma run_handler_second:
  assumes "asks limit r call" "fits call a" "\<not> answer_blocks a"
  shows "run_handler limit r (Some a) corr lg =
    (reply_to r a, if op_logger lg = None then [] else lines_as (rpc_correlation_id r) (before r call @ after r call a), corr, None)"
proof -
  let ?w = "\<lparr>waiting_logger = (own_view corr lg)\<lparr>t_correlation_id := rpc_correlation_id r\<rparr>, waiting_answer = Some a, waiting_for = None\<rparr>"
  let ?v = "svc_logs (waiting_service limit) (before r call) ?w"
  have "call_store waiting_store call ?v = (a, ?v)" using waiting_store_answers [OF _ assms(2)] by (simp add: waiting_logs)
  moreover have "reply_to r a \<noteq> Blocks" using reply_blocks [OF assms(1,2)] assms(3) by simp
  ultimately show ?thesis using serve_planned [of "waiting_service limit" r call] assms(1)
    by (cases "reply_to r a")
       (simp_all add: run_handler_def planned_def correlation_scope_def WithCorrelationId_def ScopedCorrelationId_dtor_def
         waiting_logs written_own_view)
qed

section \<open>The whole handler over the disk store\<close>

lemma disk_service_simps [simp]:
  "max_chunk_bytes (disk_service evp limit) = limit" "svc_store (disk_service evp limit) = LocalDisk_vtable evp"
  "service_logger (disk_service evp limit) = LocalDisk_log"
  by (simp_all add: disk_service_def del: LocalDisk_vtable_def)

lemma serve_disk:
  fixes s :: LocalDisk
  defines "s1 \<equiv> \<lambda>r call. log_with (\<lambda>lg. append_log (lines_as (rpc_correlation_id r) (before r call))
      (lg\<lparr>t_correlation_id := rpc_correlation_id r\<rparr>)) s"
  assumes "asks limit r call" "call_store (LocalDisk_vtable evp) call (s1 r call) = (a, s2)"
  shows "fst (serve (disk_service evp limit) r s) = reply_to r a"
    and "\<not> answer_blocks a \<Longrightarrow> t_correlation_id (logger s2) = rpc_correlation_id r \<Longrightarrow>
      snd (serve (disk_service evp limit) r s) =
        log_with (\<lambda>lg. append_log (lines_as (rpc_correlation_id r) (after r call a))
          (lg\<lparr>t_correlation_id := t_correlation_id (logger s)\<rparr>)) s2"
proof -
  let ?svc = "disk_service evp limit"
  have first: "svc_logs ?svc (before r call) (log_with (\<lambda>lg. lg\<lparr>t_correlation_id := rpc_correlation_id r\<rparr>) s) = s1 r call"
    by (simp add: disk_logs s1_def comp_def del: LocalDisk_vtable_def)
  have whole: "serve ?svc r s = planned ?svc r call s" using serve_planned [of ?svc r call s] assms(2) by simp
  show "fst (serve ?svc r s) = reply_to r a"
    using assms(3) first unfolding whole planned_def disk_service_simps
    by (cases "reply_to r a")
       (simp_all add: correlation_scope_def WithCorrelationId_def LocalDisk_log_def del: LocalDisk_vtable_def)
  assume nb: "\<not> answer_blocks a" "t_correlation_id (logger s2) = rpc_correlation_id r"
  have "reply_to r a \<noteq> Blocks" using reply_blocks [OF assms(2) call_store_fits [OF assms(3)]] nb(1) by simp
  then show "snd (serve ?svc r s) = log_with (\<lambda>lg. append_log (lines_as (rpc_correlation_id r) (after r call a))
          (lg\<lparr>t_correlation_id := t_correlation_id (logger s)\<rparr>)) s2"
    using assms(3) first nb(2) unfolding whole planned_def disk_service_simps
    by (cases "reply_to r a")
       (simp_all add: correlation_scope_def WithCorrelationId_def ScopedCorrelationId_dtor_def LocalDisk_log_def disk_logs
         del: LocalDisk_vtable_def)
qed

lemma spoke_id: "spoke lg lg' \<Longrightarrow> t_correlation_id lg' = t_correlation_id lg"
  by (auto simp: spoke_def)

lemma solo_spoke: "spoke (logger (shared p)) (logger (shared (snd (solo evp t p))))"
proof (induction evp t p rule: solo.induct)
  case (1 evp t p)
  show ?case
  proof (cases "thread_step evp t p")
    case (Some tp)
    obtain t' p' where s: "thread_step evp t p = Some (t', p')" using Some by (cases tp) auto
    show ?thesis unfolding solo_go [OF s] using spoke_trans [OF step_writes [OF s]] 1 [OF s] by simp
  qed simp
qed

lemma VerifyOnly_result_eq:
  "LocalDisk_VerifyOnly evp cid s = (let (m, s') = LocalDisk_Get evp cid s in (VerifyOnly_result m, s'))"
  by (cases "fst (LocalDisk_Get evp cid s)"; cases "LocalDisk_Get evp cid s")
     (auto simp: LocalDisk_VerifyOnly_def VerifyOnly_result_def split: Result.splits)

lemma call_solo:
  assumes "call \<noteq> Call_GetStats" "stripe_locks s = {}" "relock s \<noteq> Relock_blocks"
    "call_store (LocalDisk_vtable evp) call s = (a, s2)"
  obtains out cid where "solo evp (disk_op call) \<lparr>shared = s, fds = tab\<rparr> = (Op_finished out cid, \<lparr>shared = s2, fds = tab\<rparr>)"
    "answer_of call out = a"
proof (cases call)
  case (Call_Put cid data)
  then show thesis using assms solo_put [of evp cid data s _ s2 tab] that by (auto simp: apfst_eq_iff)
next
  case (Call_Get cid)
  then show thesis using assms solo_get [of evp cid s _ s2 tab] that by (auto simp: apfst_eq_iff)
next
  case (Call_VerifyOnly cid)
  then show thesis using assms solo_get [of evp cid s _ s2 tab] that
    by (auto simp: apfst_eq_iff VerifyOnly_result_eq split: prod.splits)
next
  case (Call_Delete cid)
  then show thesis using assms solo_delete [of cid s _ s2 evp tab] that by (auto simp: apfst_eq_iff)
next
  case (Call_Exists cid)
  then show thesis using assms solo_exists [of cid s _ s2 evp tab] that by (auto simp: apfst_eq_iff)
qed (use assms(1) in simp)

section \<open>A worker alone\<close>

lemma append_nobody:
  "log_with (append_log (if op_logger (logger s) = None then [] else ls)) s = log_with (append_log ls) s"
  by (cases s; cases "op_logger (logger s)") (simp_all add: append_log_def)

abbreviation only_worker :: "string \<Rightarrow> worker_state \<Rightarrow> worker list" where
  "only_worker c st \<equiv> [\<lparr>thread_correlation_id = c, worker_state = st\<rparr>]"

lemma switch_log_same: "t_correlation_id (logger (shared p)) = c \<Longrightarrow> switch_log c p = p"
  by (auto simp: switch_log_def)

lemma switch_log_simps [simp]:
  "t_correlation_id (logger (shared (switch_log c p))) = c" "switch_log d (switch_log c p) = switch_log d p"
  "fds (switch_log c p) = fds p"
  by (simp_all add: switch_log_def comp_def)

lemma solo_serves:
  assumes "workers y = only_worker c (In_store fr call)" "pool (store_threads y) = [t]"
    "switch_log c (process (store_threads y)) = p"
  shows "\<exists>y'. (serving_step evp limit)\<^sup>*\<^sup>* y y' \<and> workers y' = workers y \<and>
    switch_log c (process (store_threads y')) = snd (solo evp t p) \<and> pool (store_threads y') = [fst (solo evp t p)]"
  using assms
proof (induction evp t p arbitrary: y rule: solo.induct)
  case (1 evp t p)
  show ?case
  proof (cases "thread_step evp t p")
    case None
    then show ?thesis using 1(2-4) by (intro exI [of _ y]) simp
  next
    case (Some tp)
    obtain t' p' where s: "thread_step evp t p = Some (t', p')" using Some by (cases tp) auto
    have "t_correlation_id (logger (shared p)) = c" using 1(4) by auto
    then have p': "switch_log c p' = p'" using spoke_id [OF step_writes [OF s]] by (simp add: switch_log_same)
    obtain z where z: "store_steps evp 0 fr y = Some z" "workers z = workers y"
        "process (store_threads z) = p'" "pool (store_threads z) = [t']"
      using 1(2-4) s by (auto simp: store_steps_def Let_def)
    have "serving_step evp limit y z" using serving_step.in_store [of 0 y fr call evp z] 1(2) z(1) by simp
    moreover obtain y' where "(serving_step evp limit)\<^sup>*\<^sup>* z y'" "workers y' = workers z"
        "switch_log c (process (store_threads y')) = snd (solo evp t' p')" "pool (store_threads y') = [fst (solo evp t' p')]"
      using 1(1) [OF s refl, of z] z 1(2) p' by auto
    ultimately show ?thesis using solo_go [OF s] z(2) by (auto intro: converse_rtranclp_into_rtranclp)
  qed
qed

lemma call_spoke:
  assumes "asks limit r call" "stripe_locks s = {}" "relock s \<noteq> Relock_blocks"
    "call_store (LocalDisk_vtable evp) call s = (a, s2)"
  shows "spoke (logger s) (logger s2)"
proof (cases "call = Call_GetStats")
  case True
  then show ?thesis using assms(4) by (auto simp: LocalDisk_GetStats_def)
next
  case False
  then obtain out cid where "solo evp (disk_op call) \<lparr>shared = s, fds = []\<rparr> = (Op_finished out cid, \<lparr>shared = s2, fds = []\<rparr>)"
    using call_solo [OF False assms(2-4)] by metis
  then show ?thesis using solo_spoke [of "\<lparr>shared = s, fds = []\<rparr>" evp "disk_op call"] by simp
qed

lemma serving_runs: "(serving_step evp limit)\<^sup>*\<^sup>* y z \<Longrightarrow> (node_step evp limit)\<^sup>*\<^sup>* y z"
  by (rule rtranclp_mono [THEN predicate2D, rotated]) (auto intro: node_step.serving)

text \<open>The part of the run inside the store, for an operation of the threads and for \<open>GetStats\<close>.\<close>

lemma alone_disk_op:
  assumes "asks limit (frame_rpc fr) call" "call \<noteq> Call_GetStats" "stripe_locks s = {}" "relock s \<noteq> Relock_blocks"
    "call_store (LocalDisk_vtable evp) call s = (a, s2)"
    "workers y = only_worker c (In_store fr call)" "pool (store_threads y) = [disk_op call]"
    "switch_log c (process (store_threads y)) = \<lparr>shared = s, fds = []\<rparr>"
  obtains z where "(serving_step evp limit)\<^sup>*\<^sup>* y (store_answers limit 0 fr a z)" "length (workers z) = 1"
    "switch_log c (process (store_threads z)) = \<lparr>shared = s2, fds = []\<rparr>"
proof -
  obtain out cid where so: "solo evp (disk_op call) \<lparr>shared = s, fds = []\<rparr> = (Op_finished out cid, \<lparr>shared = s2, fds = []\<rparr>)"
      "answer_of call out = a"
    using call_solo [OF assms(2-5)] .
  obtain z where z: "(serving_step evp limit)\<^sup>*\<^sup>* y z" "workers z = workers y"
      "switch_log c (process (store_threads z)) = \<lparr>shared = s2, fds = []\<rparr>" "pool (store_threads z) = [Op_finished out cid]"
    using solo_serves [OF assms(6-8), of evp limit] so(1) by auto
  have "serving_step evp limit z (store_answers limit 0 fr (answer_of call out) z)"
    by (rule serving_step.answered [where fr = fr]) (use z(2,4) assms(6) in auto)
  then have "(serving_step evp limit)\<^sup>*\<^sup>* y (store_answers limit 0 fr a z)" using z(1) so(2) by auto
  from that [OF this] show thesis using z(2,3) assms(6) by simp
qed

lemma alone_stats:
  assumes "call_store (LocalDisk_vtable evp) Call_GetStats s = (a, s2)" "workers y = only_worker c (Stats_space fr)"
    "switch_log c (process (store_threads y)) = \<lparr>shared = s, fds = []\<rparr>"
  obtains z where "(serving_step evp limit)\<^sup>*\<^sup>* y (store_answers limit 0 fr a z)" "length (workers z) = 1"
    "switch_log c (process (store_threads z)) = \<lparr>shared = s2, fds = []\<rparr>"
proof -
  let ?f = "case os_space (os (node_store y)) of None \<Rightarrow> 0 | Some x \<Rightarrow> x" and ?n = "chunk_count (node_store y)"
  let ?y1 = "y\<lparr>workers := only_worker c (Stats_count fr ?f)\<rparr>"
  let ?y2 = "y\<lparr>workers := only_worker c (Stats_bytes fr ?f ?n)\<rparr>"
  have s: "s = log_with (\<lambda>lg. lg\<lparr>t_correlation_id := c\<rparr>) (node_store y)"
    using arg_cong [OF assms(3), of shared] by (simp add: switch_log_def)
  then have a: "a = GetStats_answer (Returns \<lparr>stats_chunk_count = ?n, stats_bytes_used = bytes_used (node_store ?y2),
      stats_bytes_free = ?f\<rparr>)" "s2 = s"
    using assms(1) by (auto simp: LocalDisk_GetStats_def)
  have "serving_step evp limit y ?y1" using serving_step.space [of 0 y c fr evp limit] assms(2) by simp
  moreover have "serving_step evp limit ?y1 ?y2" using serving_step.load_count [of 0 ?y1 c fr ?f evp limit] by simp
  moreover have "serving_step evp limit ?y2 (store_answers limit 0 fr a ?y2)"
    using serving_step.load_bytes [of 0 ?y2 fr ?f ?n evp limit] a(1) by simp
  ultimately have "(serving_step evp limit)\<^sup>*\<^sup>* y (store_answers limit 0 fr a ?y2)" by (meson rtranclp.intros)
  from that [OF this] show thesis using assms(3) a(2) by simp
qed

lemma alone_reply:
  assumes "asks limit r call" "fits call a" "\<not> answer_blocks a" "length (workers z) = 1"
    "switch_log c (process (store_threads z)) = \<lparr>shared = s2, fds = []\<rparr>"
    "frame_rpc fr = r" "frame_previous fr = corr"
    "frame_written fr = (if op_logger (logger s2) = None then 0 else length (before r call))"
  shows "workers (store_answers limit 0 fr a z) = only_worker corr (Replied r (reply_to r a))"
    "switch_log corr (process (store_threads (store_answers limit 0 fr a z))) =
       \<lparr>shared = log_with (\<lambda>lg. append_log (lines_as (rpc_correlation_id r) (after r call a)) (lg\<lparr>t_correlation_id := corr\<rparr>)) s2,
        fds = []\<rparr>"
proof -
  have lg: "logger s2 = (logger (node_store z))\<lparr>t_correlation_id := c\<rparr>"
    using arg_cong [OF assms(5), of "\<lambda>p. logger (shared p)"] by (simp add: switch_log_def)
  then have op: "op_logger (logger (node_store z)) = op_logger (logger s2)" by simp
  show "workers (store_answers limit 0 fr a z) = only_worker corr (Replied r (reply_to r a))"
    using run_handler_second [OF assms(1-3)] assms(4,6,7) by (cases "workers z") (auto simp: store_answers_def)
  have "run_handler limit r (Some a) corr (logger (node_store z)) = (reply_to r a,
      if op_logger (logger (node_store z)) = None then [] else lines_as (rpc_correlation_id r) (before r call @ after r call a), corr, None)"
    by (rule run_handler_second [OF assms(1-3)])
  moreover have "drop (frame_written fr) (if op_logger (logger (node_store z)) = None then []
      else lines_as (rpc_correlation_id r) (before r call @ after r call a)) =
      (if op_logger (logger (node_store z)) = None then [] else lines_as (rpc_correlation_id r) (after r call a))"
    using assms(8) op by simp
  ultimately have "switch_log corr (process (store_threads (store_answers limit 0 fr a z))) =
      switch_log corr (plog (append_log (lines_as (rpc_correlation_id r) (after r call a))) (process (store_threads z)))"
    using assms(6,7) by (simp add: store_answers_def log_lines_def append_nobody del: if_image_distrib)
  also have "\<dots> = plog (\<lambda>lg. append_log (lines_as (rpc_correlation_id r) (after r call a)) (lg\<lparr>t_correlation_id := corr\<rparr>))
      (switch_log c (process (store_threads z)))"
    by (simp add: switch_log_def comp_def)
  finally show "switch_log corr (process (store_threads (store_answers limit 0 fr a z))) =
       \<lparr>shared = log_with (\<lambda>lg. append_log (lines_as (rpc_correlation_id r) (after r call a)) (lg\<lparr>t_correlation_id := corr\<rparr>)) s2,
        fds = []\<rparr>" using assms(5) by simp
qed


lemma alone_arrives:
  fixes limit s
  defines "fr \<equiv> \<lambda>r call. \<lparr>frame_rpc = r, frame_written = if op_logger (logger s) = None then 0 else length (before r call), frame_previous = []\<rparr>"
    and "y \<equiv> \<lambda>r. rpc_arrives limit 0 r (node_start 1 s)"
  assumes "asks limit r call"
  shows "node_step evp limit (node_start 1 s) (y r)"
    "switch_log (rpc_correlation_id r) (process (store_threads (y r))) = \<lparr>shared =
       log_with (\<lambda>lg. append_log (lines_as (rpc_correlation_id r) (before r call)) (lg\<lparr>t_correlation_id := rpc_correlation_id r\<rparr>)) s,
       fds = []\<rparr>"
    "call \<noteq> Call_GetStats \<Longrightarrow> workers (y r) = only_worker (rpc_correlation_id r) (In_store (fr r call) call)"
    "call \<noteq> Call_GetStats \<Longrightarrow> pool (store_threads (y r)) = [disk_op call]"
    "call = Call_GetStats \<Longrightarrow> workers (y r) = only_worker (rpc_correlation_id r) (Stats_space (fr r call))"
proof -
  show "node_step evp limit (node_start 1 s) (y r)"
    unfolding y_def by (rule node_step.arrival) (simp_all add: node_start_def)
  let ?c = "rpc_correlation_id r"
  let ?ls = "if op_logger (logger s) = None then [] else lines_as ?c (before r call)"
  have h: "run_handler limit r None [] (logger s) = (Blocks, ?ls, ?c, Some call)" by (rule run_handler_first [OF assms(3)])
  have len: "length ?ls = (if op_logger (logger s) = None then 0 else length (before r call))" by simp
  have shared: "process (store_threads (y r)) = \<lparr>shared = log_with (append_log ?ls) s, fds = []\<rparr>"
    using h by (cases "call = Call_GetStats")
      (simp_all add: y_def rpc_arrives_def node_start_def system_start_def enter_store_def log_lines_def Let_def split del: if_split)
  show "switch_log ?c (process (store_threads (y r))) = \<lparr>shared =
       log_with (\<lambda>lg. append_log (lines_as ?c (before r call)) (lg\<lparr>t_correlation_id := ?c\<rparr>)) s, fds = []\<rparr>"
    unfolding shared append_nobody by (simp add: switch_log_def comp_def)
  show "call \<noteq> Call_GetStats \<Longrightarrow> workers (y r) = only_worker ?c (In_store (fr r call) call)"
    "call \<noteq> Call_GetStats \<Longrightarrow> pool (store_threads (y r)) = [disk_op call]"
    "call = Call_GetStats \<Longrightarrow> workers (y r) = only_worker ?c (Stats_space (fr r call))"
    using h len by (simp_all add: y_def fr_def rpc_arrives_def node_start_def system_start_def enter_store_def log_lines_def Let_def)
qed

lemma alone_serves:
  assumes "asks limit r call" "stripe_locks s = {}" "relock s \<noteq> Relock_blocks" "t_correlation_id (logger s) = []"
    "serve (disk_service evp limit) r s = (reply, s')" "reply \<noteq> Blocks"
  shows "\<exists>y. (serving_step evp limit)\<^sup>*\<^sup>* (rpc_arrives limit 0 r (node_start 1 s)) y \<and>
    workers y = [\<lparr>thread_correlation_id = [], worker_state = Replied r reply\<rparr>] \<and>
    switch_log [] (process (store_threads y)) = \<lparr>shared = s', fds = []\<rparr>"
proof -
  let ?c = "rpc_correlation_id r"
  let ?s1 = "log_with (\<lambda>lg. append_log (lines_as ?c (before r call)) (lg\<lparr>t_correlation_id := ?c\<rparr>)) s"
  obtain a s2 where call: "call_store (LocalDisk_vtable evp) call ?s1 = (a, s2)" by fastforce
  have corr: "spoke (logger ?s1) (logger s2)" by (rule call_spoke [OF assms(1) _ _ call]) (use assms(2,3) in simp_all)
  have fits: "fits call a" by (rule call_store_fits [OF call])
  have reply: "reply = reply_to r a" using serve_disk(1) [OF assms(1) call] assms(5) by simp
  have go: "\<not> answer_blocks a" using reply_blocks [OF assms(1) fits] reply assms(6) by simp
  have whole: "s' = log_with (\<lambda>lg. append_log (lines_as ?c (after r call a)) (lg\<lparr>t_correlation_id := []\<rparr>)) s2"
    using serve_disk(2) [OF assms(1) call go] spoke_id [OF corr] assms(4,5) by simp
  note at = alone_arrives [OF assms(1), where s = s]
  define fr where "fr = \<lparr>frame_rpc = r, frame_written = if op_logger (logger s) = None then 0 else length (before r call),
    frame_previous = []\<rparr>"
  obtain z where z: "(serving_step evp limit)\<^sup>*\<^sup>* (rpc_arrives limit 0 r (node_start 1 s)) (store_answers limit 0 fr a z)"
      "length (workers z) = 1" "switch_log ?c (process (store_threads z)) = \<lparr>shared = s2, fds = []\<rparr>"
  proof (cases "call = Call_GetStats")
    case True
    show thesis by (rule alone_stats [OF _ at(5) at(2)]) (use True call that in \<open>auto simp: fr_def\<close>)
  next
    case False
    show thesis
      by (rule alone_disk_op [OF _ False _ _ call at(3) at(4) at(2)]) (use assms(1-3) False that in \<open>auto simp: fr_def\<close>)
  qed
  have "op_logger (logger s2) = None \<longleftrightarrow> op_logger (logger s) = None" using corr by (auto simp: spoke_def)
  then have "frame_rpc fr = r" "frame_previous fr = []"
    "frame_written fr = (if op_logger (logger s2) = None then 0 else length (before r call))" by (simp_all add: fr_def)
  from alone_reply [OF assms(1) fits go z(2,3) this] reply whole z(1) show ?thesis by auto
qed

lemma alone_run:
  assumes "asks limit r call" "stripe_locks s = {}" "relock s \<noteq> Relock_blocks" "t_correlation_id (logger s) = []"
    "serve (disk_service evp limit) r s = (reply, s')" "reply \<noteq> Blocks"
  shows "\<exists>y. (node_step evp limit)\<^sup>*\<^sup>* (node_start 1 s) y \<and>
    workers y = [\<lparr>thread_correlation_id = [], worker_state = Replied r reply\<rparr>] \<and>
    switch_log [] (process (store_threads y)) = \<lparr>shared = s', fds = []\<rparr>"
  using alone_serves [OF assms] converse_rtranclp_into_rtranclp [OF alone_arrives(1) [OF assms(1)] serving_runs] by blast

end
