(* ===== verification/Disk_Counters.thy ===== *)
theory Disk_Counters
  imports Disk_Concurrent
begin

text \<open>
  The two relaxed atomic counters of \<^verbatim>\<open>LocalDiskChunkStore\<close> while operations are running. The
  invariant of \<open>Disk_Concurrent\<close> relates them to the disk modulo \<open>2 ^ 64\<close>; here the relation is
  shown to hold in the natural numbers: a thread subtracts only what another one has added, so the
  unsigned counters never run below zero, and what a reader of \<^verbatim>\<open>GetStats\<close> sees is off by no more
  than the operations under way.
\<close>

section \<open>Chunks that are on the disk and not yet counted\<close>

definition uncounted :: "disk_thread \<Rightarrow> (ChunkId \<times> byte list) list" where
  "uncounted t = (case t of
      Put_open_dir cid data _ \<Rightarrow> [(cid, data)] | Put_fsync_dir cid data _ _ \<Rightarrow> [(cid, data)]
    | Put_count cid data _ _ \<Rightarrow> [(cid, data)] | Put_bytes cid data _ _ \<Rightarrow> [(cid, data)]
    | _ \<Rightarrow> [])"

abbreviation uncounted_chunks :: "disk_system \<Rightarrow> (ChunkId \<times> byte list) list" where
  "uncounted_chunks y \<equiv> concat (map uncounted (pool y))"

lemma due_uncounted:
  "due_bytes t = sum_list (map (length \<circ> snd) (uncounted t))"
  "due_count t \<le> length (uncounted t)"
  by (cases t; simp add: due_defs uncounted_def)+

lemma uncounted_locked: "mset (map (LockFor \<circ> fst) (uncounted t)) \<subseteq># locked_by t"
  by (cases t) (simp_all add: uncounted_def locked_by_def holds_def)

lemma uncounted_on_disk:
  assumes "thread_ok evp s t" "disk_ok s" "(cid, data) \<in> set (uncounted t)"
  shows "(FinalPathFor s cid, data) \<in> set (chunk_files (data_root s) (disk s))" "ChunkId_wf cid"
proof -
  have "ChunkId_wf cid \<and> file_at s (FinalPathFor s cid) data"
    using assms(1,3) by (cases t) (simp_all add: thread_defs uncounted_def)
  then show "(FinalPathFor s cid, data) \<in> set (chunk_files (data_root s) (disk s))" "ChunkId_wf cid"
    using is_chunk_path_final [of cid s] by (simp_all add: in_chunk_files map_of_SomeD)
qed

lemma sum_list_pointwise:
  fixes f g :: "'a \<Rightarrow> 'b multiset"
  shows "(\<And>x. x \<in> set xs \<Longrightarrow> f x \<subseteq># g x) \<Longrightarrow> sum_list (map f xs) \<subseteq># sum_list (map g xs)"
  by (induction xs) (auto intro: subset_mset.add_mono)

lemma sum_list_concat_map:
  "sum_list (map f (concat (map g xs))) = sum_list (map (\<lambda>x. sum_list (map f (g x))) xs)"
  for f :: "'a \<Rightarrow> nat"
  by (induction xs) simp_all

lemma distinct_below_set:
  assumes "mset xs \<subseteq># mset_set A"
  shows "distinct xs"
proof -
  have "count (mset xs) a \<le> 1" for a
    by (rule order_trans [OF mset_subset_eq_count [OF assms]]) (simp add: count_mset_set')
  then show ?thesis
    by (auto simp: distinct_count_atmost_1 le_Suc_eq not_in_iff)
qed

lemma uncounted_distinct:
  assumes "system_inv evp y"
  shows "distinct (map (FinalPathFor (store_of y) \<circ> fst) (uncounted_chunks y))"
proof -
  have "mset (map (LockFor \<circ> fst) (uncounted_chunks y)) =
      sum_list (map (\<lambda>t. mset (map (LockFor \<circ> fst) (uncounted t))) (pool y))"
    by (induction "pool y") (simp_all add: map_concat mset_concat comp_def)
  also have "\<dots> \<subseteq># sum_list (map locked_by (pool y))"
    by (intro sum_list_pointwise uncounted_locked)
  finally have locks: "distinct (map (LockFor \<circ> fst) (uncounted_chunks y))"
    using assms distinct_below_set [of "map (LockFor \<circ> fst) (uncounted_chunks y)"]
    by (simp add: system_inv_def lock_inv_def)
  have wf: "ChunkId_wf (fst e)" if "e \<in> set (uncounted_chunks y)" for e
    using that assms uncounted_on_disk(2) [of evp "store_of y" _ "fst e" "snd e"] by (auto simp: system_inv_def)
  have "inj_on (FinalPathFor (store_of y) \<circ> fst) (set (uncounted_chunks y))"
  proof (rule inj_onI)
    fix a b
    assume e: "a \<in> set (uncounted_chunks y)" "b \<in> set (uncounted_chunks y)"
      "(FinalPathFor (store_of y) \<circ> fst) a = (FinalPathFor (store_of y) \<circ> fst) b"
    have "fst a = fst b"
      using own_path_disjoint [OF wf [OF e(1)] wf [OF e(2)], of "store_of y" "FinalPathFor (store_of y) (fst a)"] e(3)
      by (simp add: own_path_def)
    then show "a = b"
      using locks e(1,2) by (intro inj_onD [of "LockFor \<circ> fst" "set (uncounted_chunks y)"]) (simp_all add: distinct_map)
  qed
  then show ?thesis using locks by (simp add: distinct_map)
qed

lemma due_below_files:
  assumes "system_inv evp y"
  shows "sum_list (map due_count (pool y)) \<le> file_count (store_of y)"
    and "sum_list (map due_bytes (pool y)) \<le> file_bytes (store_of y)"
proof -
  let ?s = "store_of y"
  let ?files = "chunk_files (data_root ?s) (disk ?s)"
  let ?mine = "map (\<lambda>e. (FinalPathFor ?s (fst e), snd e)) (uncounted_chunks y)"
  have dist: "distinct ?mine"
    using uncounted_distinct [OF assms] distinct_map [of fst ?mine] by (simp add: comp_def)
  have files: "distinct ?files" using assms distinct_chunk_files [of "disk ?s" "data_root ?s"] distinct_map [of fst ?files]
    by (simp add: system_inv_def disk_ok_def)
  have sub: "set ?mine \<subseteq> set ?files"
    using assms uncounted_on_disk(1) by (fastforce simp: system_inv_def)
  have "sum_list (map due_count (pool y)) \<le> sum_list (map (length \<circ> uncounted) (pool y))"
    by (intro sum_list_mono) (simp add: due_uncounted)
  also have "\<dots> = length ?mine" by (simp add: length_concat comp_def)
  also have "\<dots> \<le> length ?files"
    using card_mono [OF finite_set sub] unfolding distinct_card [OF dist] distinct_card [OF files] .
  finally show "sum_list (map due_count (pool y)) \<le> file_count ?s" by (simp add: file_count_def)
  have "sum_list (map due_bytes (pool y)) = sum_list (map (length \<circ> snd) ?mine)"
    by (simp add: due_uncounted(1) [abs_def] sum_list_concat_map comp_def)
  also have "\<dots> \<le> sum_list (map (length \<circ> snd) ?files)"
    using sub by (simp add: sum_list_distinct_conv_sum_set dist files sum_mono2 del: map_map)
  finally show "sum_list (map due_bytes (pool y)) \<le> file_bytes ?s" by (simp add: file_bytes_def total_bytes_def comp_def split_def)
qed

lemma no_wrap:
  fixes c :: uint64
  assumes "c + of_nat d = of_nat f + of_nat b" "d \<le> f" "f + b < 2 ^ 64"
  shows "unat c + d = f + b"
proof -
  have "c = of_nat (f + b - d)" using assms(1,2) by (simp add: of_nat_diff eq_diff_eq)
  then have "unat c = f + b - d" using assms(3) by (simp add: unat_of_nat take_bit_nat_eq_self)
  then show ?thesis using assms(2) by simp
qed

section \<open>The counters while calls are running\<close>

lemma counters_exact:
  assumes "system_inv evp y"
    "file_count (store_of y) + sum_list (map owed_count (pool y)) < 2 ^ 64"
    "file_bytes (store_of y) + sum_list (map owed_bytes (pool y)) < 2 ^ 64"
  shows "unat (chunk_count (store_of y)) + sum_list (map due_count (pool y)) =
      file_count (store_of y) + sum_list (map owed_count (pool y))"
    and "unat (bytes_used (store_of y)) + sum_list (map due_bytes (pool y)) =
      file_bytes (store_of y) + sum_list (map owed_bytes (pool y))"
  using no_wrap [OF conjunct1 due_below_files(1) [OF assms(1)] assms(2)]
    no_wrap [OF conjunct2 due_below_files(2) [OF assms(1)] assms(3)] assms(1)
  by (auto simp: system_inv_def counter_inv_def)

lemma one_each:
  "sum_list (map due_count ts) \<le> length ts" "sum_list (map owed_count ts) \<le> length ts"
proof (induction ts)
  case (Cons t ts)
  have "due_count t \<le> 1" "owed_count t \<le> 1" by (cases t; simp add: due_defs)+
  then show "sum_list (map due_count (t # ts)) \<le> length (t # ts)" "sum_list (map owed_count (t # ts)) \<le> length (t # ts)"
    using Cons.IH by simp_all
qed simp_all



end
