(* ===== verification/Node_Concurrent_Theorems.thy ===== *)
theory Node_Concurrent_Theorems
  imports Node_Alone Disk_Counters
begin

text \<open>
  What a storage node guarantees while its workers serve any number of RPCs at the same time, over
  the store taken system call by system call: acknowledged uploads, downloads, that every call is
  answered, whose correlation id a line of the log carries, and that a worker that is alone does
  what the handler of \<open>Storage_Service\<close> does.
\<close>

section \<open>Every call is answered\<close>

fun worker_left :: "worker_state \<Rightarrow> disk_thread \<Rightarrow> nat" where
  "worker_left (In_store fr call) t = Suc (steps_left t)"
| "worker_left (Stats_space fr) t = 3"
| "worker_left (Stats_count fr avail) t = 2"
| "worker_left (Stats_bytes fr avail chunks) t = 1"
| "worker_left st t = 0"

definition serving_left :: "node_system \<Rightarrow> nat" where
  "serving_left y = sum_list (map (\<lambda>(w, t). worker_left (worker_state w) t) (zip (workers y) (pool (store_threads y))))"

lemma serving_left_update:
  assumes "i < length (workers y)" "length (pool (store_threads y)) = length (workers y)"
    "workers y' = (workers y)[i := w]" "pool (store_threads y') = (pool (store_threads y))[i := t]"
    "worker_left (worker_state w) t < worker_left (worker_state (workers y ! i)) (pool (store_threads y) ! i)"
  shows "serving_left y' < serving_left y"
  using sum_list_update_add [of i "zip (workers y) (pool (store_threads y))" "\<lambda>(w, t). worker_left (worker_state w) t" "(w, t)"]
    assms
  by (simp add: serving_left_def zip_update)

lemma node_inv_length: "node_inv limit y \<Longrightarrow> length (pool (store_threads y)) = length (workers y)"
  using list_all2_lengthD by (fastforce simp: node_inv_def)

lemma store_answers_replies:
  obtains corr q where "workers (store_answers limit i fr a y) =
      (workers y)[i := \<lparr>thread_correlation_id = corr, worker_state = Replied (frame_rpc fr) q\<rparr>]"
    "pool (store_threads (store_answers limit i fr a y)) = pool (store_threads y)"
proof -
  obtain q ls corr c where "run_handler limit (frame_rpc fr) (Some a) (frame_previous fr) (logger (node_store y)) =
      (q, ls, corr, c)" using prod_cases4 by blast
  then show thesis using that [of corr q] by (simp add: store_answers_def)
qed

lemma answers_left:
  assumes "i < length (workers y)" "length (pool (store_threads y)) = length (workers y)"
    "0 < worker_left (worker_state (workers y ! i)) (pool (store_threads y) ! i)"
  shows "serving_left (store_answers limit i fr a y) < serving_left y"
proof -
  obtain corr q where w: "workers (store_answers limit i fr a y) =
      (workers y)[i := \<lparr>thread_correlation_id = corr, worker_state = Replied (frame_rpc fr) q\<rparr>]"
    "pool (store_threads (store_answers limit i fr a y)) = pool (store_threads y)"
    by (rule store_answers_replies)
  show ?thesis by (rule serving_left_update [OF assms(1,2) w(1), of "pool (store_threads y) ! i"]) (use w(2) assms(3) in simp_all)
qed

definition busy_inv :: "'c EVP \<Rightarrow> uint64 \<Rightarrow> node_system \<Rightarrow> bool" where
  "busy_inv evp limit y \<longleftrightarrow> node_inv limit y \<and> system_inv evp (silent y)"

lemma serving_decreases:
  assumes "serving_step evp limit y y'" "node_inv limit y"
  shows "serving_left y' < serving_left y"
proof -
  have len: "length (pool (store_threads y)) = length (workers y)"
    by (rule node_inv_length [OF assms(2)])
  from assms(1) show ?thesis
  proof (cases rule: serving_step.cases)
    case (in_store i fr call)
    then obtain t p p' where s: "thread_step evp (pool (store_threads y) ! i) p = Some (t, p')"
        "pool (store_threads y') = (pool (store_threads y))[i := t]" "workers y' = workers y"
      by (auto simp: store_steps_def Let_def split: option.splits)
    show ?thesis
      by (rule serving_left_update [OF in_store(1) len, of y' "workers y ! i" t])
         (use s step_decreases [OF s(1)] in_store(2) in simp_all)
  next
    case (answered i fr call out cid)
    then show ?thesis using answers_left [OF answered(2) len] by simp
  next
    case (space i corr fr)
    show ?thesis
      by (rule serving_left_update [OF space(2) len, of _ "workers y' ! i" "pool (store_threads y) ! i"]) (use space in simp_all)
  next
    case (load_count i corr fr avail)
    show ?thesis
      by (rule serving_left_update [OF load_count(2) len, of _ "workers y' ! i" "pool (store_threads y) ! i"]) (use load_count in simp_all)
  next
    case (load_bytes i fr avail chunks)
    then show ?thesis using answers_left [OF load_bytes(2) len] by simp
  qed
qed

interpretation serving: step_measure "serving_step evp limit" "busy_inv evp limit" serving_left for evp limit
proof unfold_locales
  fix y y' assume step: "serving_step evp limit y y'"
  show "busy_inv evp limit y \<Longrightarrow> busy_inv evp limit y'"
    using serving_inv [OF step] system_run.run_keeps [OF refl_run [OF serving_refines [OF step]]] by (simp add: busy_inv_def)
  show "busy_inv evp limit y \<Longrightarrow> serving_left y' < serving_left y"
    using serving_decreases [OF step] by (simp add: busy_inv_def)
qed

lemma store_steps_enabled:
  assumes "thread_step evp (pool (store_threads y) ! j) (hush (process (store_threads y))) \<noteq> None"
  shows "store_steps evp j fr y \<noteq> None"
proof -
  let ?p = "switch_log (thread_correlation_id (workers y ! j)) (process (store_threads y))"
  have "thread_step evp (pool (store_threads y) ! j) ?p \<noteq> None"
    using assms thread_step_hush [of evp "pool (store_threads y) ! j" ?p] by simp
  then show ?thesis by (auto simp: store_steps_def Let_def split: option.splits)
qed

lemma serving_progress:
  assumes "busy_inv evp limit y" "relock (node_store y) \<noteq> Relock_blocks" "w \<in> set (workers y)" "\<not> free (worker_state w)"
  shows "\<exists>y'. serving_step evp limit y y'"
proof -
  have inv: "node_inv limit y" using assms(1) by (simp add: busy_inv_def)
  obtain i where i: "i < length (workers y)" "workers y ! i = w" using assms(3) by (auto simp: in_set_conv_nth)
  show ?thesis
  proof (cases "worker_state w")
    case (In_store fr call)
    show ?thesis
    proof (cases "resting (pool (store_threads y) ! i)")
      case True
      then obtain out cid where "pool (store_threads y) ! i = Op_finished out cid"
        using worker_okD(1) [OF inv i(1)] i(2) In_store
        by (cases "pool (store_threads y) ! i") (auto simp: worker_ok_def carries_out_def thread_kind_def, cases call, auto)
      then show ?thesis using serving_step.answered i In_store by metis
    next
      case False
      then have "\<exists>d. advances evp (silent y) d"
        using system_progress [of evp "silent y" "pool (store_threads y) ! i"] assms(1,2) worker_okD(2) [OF inv i(1)]
        by (simp add: busy_inv_def)
      then obtain j t p where j: "j < length (pool (store_threads y))"
          "thread_step evp (pool (store_threads y) ! j) (hush (process (store_threads y))) = Some (t, p)"
        by (auto simp: advances_def silent_def)
      have jw: "j < length (workers y)" using node_inv_length [OF inv] j(1) by simp
      have "\<not> resting (pool (store_threads y) ! j)" using step_not_resting [OF j(2)] .
      then obtain fr' call' where "worker_state (workers y ! j) = In_store fr' call'"
        using worker_okD(1) [OF inv jw] by (cases "worker_state (workers y ! j)") (auto simp: worker_ok_def)
      moreover have "store_steps evp j fr' y \<noteq> None"
        by (rule store_steps_enabled) (use j(2) in simp)
      ultimately show ?thesis using serving_step.in_store jw by blast
    qed
  next
    case (Stats_space fr)
    then show ?thesis using serving_step.space [of i y "thread_correlation_id w" fr] i by (cases w) auto
  next
    case (Stats_count fr avail)
    then show ?thesis using serving_step.load_count [of i y "thread_correlation_id w" fr avail] i by (cases w) auto
  next
    case (Stats_bytes fr avail chunks)
    then show ?thesis using serving_step.load_bytes [of i y fr avail chunks] i by metis
  qed (use assms(4) in auto)
qed

lemma node_relock: "(node_step evp limit)\<^sup>*\<^sup>* (node_start n s) y \<Longrightarrow> relock (node_store y) = relock s"
  using system_relock [OF node_run(2)] by (fastforce simp: system_start_def)

lemma busy_inv_run:
  assumes "LocalDisk_inv s" "stripe_locks s = {}" "(node_step evp limit)\<^sup>*\<^sup>* (node_start n s) y"
  shows "busy_inv evp limit y"
  using node_run [OF assms(3)] reachable_inv [of "s\<lparr>logger := mute\<rparr>" evp n "silent y"] assms(1,2)
  by (simp add: busy_inv_def)

section \<open>What a reply is backed by\<close>

fun acknowledges :: "rpc_reply \<Rightarrow> bool" where
  "acknowledges (Reply_PutChunk st resp) \<longleftrightarrow> error_code st = GRPC_OK \<and> putr_status resp = CS_OK"
| "acknowledges (Reply_ReplicateChunk st resp) \<longleftrightarrow> error_code st = GRPC_OK \<and> repr_status resp = CS_OK"
| "acknowledges q \<longleftrightarrow> False"

lemma status_of_ok: "status_of res = CS_OK \<longleftrightarrow> res = Ok ()"
  by (cases res) (simp_all add: status_of_def)

lemma reply_acknowledges:
  assumes "reply_to r a = Returns q" "acknowledges q"
  shows "a = Put_answer (Returns (Ok ()))"
  using assms by (cases r; cases a) (auto simp: run_map_Returns put_response_ok status_of_ok)

lemma acknowledged_thread:
  assumes "worker_ok limit w t" "worker_state w = Replied r (Returns q)" "acknowledges q"
  obtains cid payload where "asks limit r (Call_Put cid payload)" "t = put_ok cid"
proof -
  have "\<not> refused q" using assms(3) by (cases q) auto
  with assms(1,2) obtain call a where c: "asks limit r call" "fits call a" "reply_to r a = Returns q"
      "call = Call_GetStats \<or> (\<exists>out cid. t = Op_finished out cid \<and> carries_out t call \<and> a = answer_of call out)"
    by (auto simp: worker_ok_def backed_def)
  have a: "a = Put_answer (Returns (Ok ()))" by (rule reply_acknowledges [OF c(3) assms(3)])
  then obtain cid payload where call: "call = Call_Put cid payload" using c(2) by (cases call) auto
  then obtain out cid' where t: "t = Op_finished out cid'" "carries_out t call" "a = answer_of call out" using c(4) by auto
  have "out = Put_outcome (Returns (Ok ()))" using t(3) a call by (cases out) auto
  moreover have "cid' = cid" using t(1,2) call by (simp add: carries_out_def about_chunk_def)
  ultimately show thesis using that c(1) call t(1) by blast
qed

lemma deletes_arrived:
  assumes "calls_arrived limit z" "Delete_lock cid \<in> set (called (store_threads z))"
  shows "\<exists>dctx request. Rpc_DeleteChunk dctx request \<in> set (arrived z) \<and> Parse (del_chunk_id request) = Ok cid"
proof -
  obtain r call where r: "r \<in> set (arrived z)" "asks limit r call" "disk_op call = Delete_lock cid"
    using assms by (fastforce simp: calls_arrived_def)
  then have "call = Call_Delete cid" by (cases call) auto
  then show ?thesis by (cases r) (use r(1,2) in auto)
qed

lemma downloaded_thread:
  assumes "worker_ok limit w t" "worker_state w = Replied (Rpc_GetChunk sctx request write_ok) (Returns (Reply_GetChunk st frames))"
    "get_stream_data frames \<noteq> []"
  obtains cid d where "Parse (get_chunk_id request) = Ok cid" "t = Op_finished (Get_outcome (Returns (Ok d))) cid"
    "frames = get_frames write_ok (Ok d)"
proof -
  let ?r = "Rpc_GetChunk sctx request write_ok" and ?q = "Reply_GetChunk st frames"
  have "\<not> refused ?q" using assms(3) by auto
  with assms(1,2) obtain call a where c: "asks limit ?r call" "fits call a" "reply_to ?r a = Returns ?q"
      "call = Call_GetStats \<or> (\<exists>out cid. t = Op_finished out cid \<and> carries_out t call \<and> a = answer_of call out)"
    by (auto simp: worker_ok_def backed_def)
  then obtain cid res where a: "Parse (get_chunk_id request) = Ok cid" "call = Call_Get cid" "a = Get_answer (Returns res)"
      "frames = get_frames write_ok res"
    by (cases a) (auto simp: run_map_Returns)
  then obtain out cid' where t: "t = Op_finished out cid'" "carries_out t call" "a = answer_of call out" using c(4) by auto
  have "out = Get_outcome (Returns res)" using t(3) a by (cases out) auto
  moreover have "cid' = cid" using t(1,2) a(2) by (simp add: carries_out_def about_chunk_def)
  moreover obtain d where "res = Ok d" using a(4) assms(3) by (cases res) (auto simp: get_frames_def split: if_splits)
  ultimately show thesis using that a t(1) by blast
qed

lemma get_frames_data:
  "prefix (get_stream_data (get_frames write_ok (Ok d))) d"
  "\<forall>k. write_ok k \<Longrightarrow> get_stream_data (get_frames write_ok (Ok d)) = d"
proof -
  let ?sent = "if write_ok 0 then [meta_frame (length d) CS_OK] else []"
  obtain broken out where o: "GetChunk_send write_ok d 0 1 ?sent = (broken, out)" by fastforce
  obtain fs where fs: "out = ?sent @ map data_frame fs" "prefix (concat fs) d" "\<not> broken \<Longrightarrow> concat fs = d"
      "\<forall>j \<ge> 1. write_ok j \<Longrightarrow> \<not> broken"
    by (rule GetChunk_send_frames [OF o]) (use that in simp_all)
  have "get_stream_data out = concat fs" using fs(1) by (auto simp: get_stream_data_def comp_def)
  then show "prefix (get_stream_data (get_frames write_ok (Ok d))) d"
    "\<forall>k. write_ok k \<Longrightarrow> get_stream_data (get_frames write_ok (Ok d)) = d"
    using o fs by (auto simp: get_frames_def)
qed

text \<open>The two promises, for whatever node has these workers over a run of the store's threads.\<close>

lemma acknowledged_stays:
  assumes "LocalDisk_inv s" "stripe_locks s = {}" "verified evp s" "node_inv limit b" "i < length (workers b)"
    "worker_state (workers b ! i) = Replied r (Returns q)" "acknowledges q"
    "(system_step evp)\<^sup>*\<^sup>* (system_start n (s\<lparr>logger := mute\<rparr>)) (silent b)"
    "(system_step evp)\<^sup>*\<^sup>* (silent b) (silent b')" "calls_arrived limit b'"
  shows "\<exists>cid payload. asks limit r (Call_Put cid payload) \<and>
    ((\<forall>dctx request. Rpc_DeleteChunk dctx request \<in> set (arrived b') \<longrightarrow> Parse (del_chunk_id request) \<noteq> Ok cid) \<longrightarrow>
     (\<exists>d. stored (node_store b') cid = Some d \<and> HashBytes evp d = Returns (id_digest cid)))"
proof -
  note ok = worker_okD [OF assms(4,5)]
  obtain cid payload where ask: "asks limit r (Call_Put cid payload)" and t: "pool (store_threads b) ! i = put_ok cid"
    by (rule acknowledged_thread [OF ok(1) assms(6,7)])
  have "put_ok cid \<in> set (pool (silent b))" using t nth_mem [OF ok(2)] by simp
  note kept = acked_chunk [OF _ _ _ assms(8) this assms(9)]
  show ?thesis using ask kept assms(1-3) deletes_arrived [OF assms(10), of cid] by auto
qed

lemma downloaded_verified:
  assumes "node_inv limit b" "i < length (workers b)" "system_inv evp (silent b)"
    "worker_state (workers b ! i) = Replied (Rpc_GetChunk sctx request write_ok) (Returns (Reply_GetChunk st frames))"
    "get_stream_data frames \<noteq> []"
  shows "\<exists>cid d. Parse (get_chunk_id request) = Ok cid \<and> HashBytes evp d = Returns (id_digest cid) \<and>
    prefix (get_stream_data frames) d \<and> ((\<forall>k. write_ok k) \<longrightarrow> get_stream_data frames = d)"
proof -
  note ok = worker_okD [OF assms(1,2)]
  obtain cid d where d: "Parse (get_chunk_id request) = Ok cid"
      "pool (store_threads b) ! i = Op_finished (Get_outcome (Returns (Ok d))) cid" "frames = get_frames write_ok (Ok d)"
    by (rule downloaded_thread [OF ok(1) assms(4,5)])
  have "HashBytes evp d = Returns (id_digest cid)"
    using d(2) nth_mem [OF ok(2)] assms(3) by (force simp: system_inv_def thread_defs)
  then show ?thesis using d get_frames_data [where d = d and write_ok = write_ok] by auto
qed

section \<open>Concrete runs\<close>

lemma disk_service_demo: "disk_service demo_evp limit = demo_svc limit"
  by (simp add: disk_service_def demo_svc_def)

lemma demo_uncorrelated [simp]:
  "t_correlation_id (logger (demo_empty rl)) = []" "t_correlation_id (logger (demo_full rl b)) = []"
  by (simp_all add: demo_full_def demo_empty_def demo_logger_def)

abbreviation demo_upload :: rpc where
  "demo_upload \<equiv> Rpc_PutChunk demo_ctx (put_request demo_id 3 [[1], [2, 3]])"

lemma demo_upload_asks: "asks 100 demo_upload (Call_Put demo_id demo_data)"
  using put_request_accepted [of demo_id 3 "waiting_service 100" "[[1], [2, 3]]"] by (simp add: demo_data_def)

lemma serving_arrived: "(serving_step evp limit)\<^sup>*\<^sup>* y y' \<Longrightarrow> arrived y' = arrived y"
proof (induction rule: rtranclp_induct)
  case (step u v)
  from step.hyps(2) have "arrived v = arrived u"
    by (cases rule: serving_step.cases)
       (auto simp: store_steps_def store_answers_def log_lines_def Let_def split: option.splits prod.splits)
  then show ?case using step.IH by simp
qed simp

lemma demo_upload_only: "asks 100 demo_upload (Call_Put cid payload) \<Longrightarrow> cid = demo_id"
  by (auto simp: put_accepts_def put_request_def Parse_id_hex)

lemma demo_upload_arrives: "arrived (rpc_arrives 100 0 demo_upload (node_start 1 s)) = [demo_upload]"
  using run_handler_first [OF demo_upload_asks, of "[]" "logger s"]
  by (simp add: rpc_arrives_def enter_store_def node_start_def system_start_def Let_def)

lemma demo_node_upload:
  obtains y resp where "(node_step demo_evp 100)\<^sup>*\<^sup>* (node_start 1 (demo_empty Relock_counts)) y"
    "worker_state (workers y ! 0) = Replied demo_upload (Returns (Reply_PutChunk Status_OK resp))" "length (workers y) = 1"
    "putr_status resp = CS_OK" "arrived y = [demo_upload]"
proof -
  let ?s = "demo_empty Relock_counts"
  obtain resp s1 where p: "PutChunk (demo_svc 100) demo_ctx (put_request demo_id 3 [[1], [2, 3]]) ?s = (Returns (Status_OK, resp), s1)"
      "putr_status resp = CS_OK"
    by (rule demo_PutChunk)
  have "serve (disk_service demo_evp 100) demo_upload ?s = (Returns (Reply_PutChunk Status_OK resp), s1)"
    using p(1) by (simp add: disk_service_demo)
  from alone_serves [OF demo_upload_asks _ _ _ this]
  obtain y where y: "(serving_step demo_evp 100)\<^sup>*\<^sup>* (rpc_arrives 100 0 demo_upload (node_start 1 ?s)) y"
      "workers y = [\<lparr>thread_correlation_id = [], worker_state = Replied demo_upload (Returns (Reply_PutChunk Status_OK resp))\<rparr>]"
    by auto
  note converse_rtranclp_into_rtranclp [OF alone_arrives(1) [OF demo_upload_asks] serving_runs [OF y(1)]]
  moreover have "arrived y = [demo_upload]" using serving_arrived [OF y(1)] unfolding demo_upload_arrives .
  ultimately show thesis using that y(2) p(2) by auto
qed

lemma demo_node_download:
  obtains y fs where "(node_step demo_evp 100)\<^sup>*\<^sup>* (node_start 1 (demo_full Relock_counts demo_data)) y" "length (workers y) = 1"
    "worker_state (workers y ! 0) = Replied (Rpc_GetChunk demo_ctx (get_request demo_id) (\<lambda>_. True))
       (Returns (Reply_GetChunk Status_OK (meta_frame (length demo_data) CS_OK # map data_frame fs)))" "concat fs = demo_data"
proof -
  let ?s = "demo_full Relock_counts demo_data" and ?r = "Rpc_GetChunk demo_ctx (get_request demo_id) (\<lambda>_. True)"
  obtain fs s' where g: "GetChunk (demo_svc 100) demo_ctx (get_request demo_id) (\<lambda>_. True) ?s =
      (Returns (Status_OK, meta_frame (length demo_data) CS_OK # map data_frame fs), s')" "concat fs = demo_data"
    by (rule disk_GetChunk_success [of "demo_svc 100" demo_evp demo_id demo_data ?s demo_ctx]) (simp_all add: demo_data_def)
  have "serve (disk_service demo_evp 100) ?r ?s =
      (Returns (Reply_GetChunk Status_OK (meta_frame (length demo_data) CS_OK # map data_frame fs)), s')"
    using g(1) by (simp add: disk_service_demo)
  moreover have "asks 100 ?r (Call_Get demo_id)" by (simp add: get_request_def)
  ultimately show thesis using alone_run [of 100 ?r "Call_Get demo_id" ?s demo_evp] that g(2) by auto
qed

section \<open>Theorems\<close>



text \<open>
  C11: With any number of RPCs running at the same time: the data a \<open>GetChunk\<close> has streamed to its
  client is a prefix of bytes that hash to the id the client named, and all of them when no write to
  the client failed.
\<close>

theorem concurrent_GetChunk_delivers_verified_prefix:
  assumes "LocalDisk_inv s" "stripe_locks s = {}" "(node_step evp limit)\<^sup>*\<^sup>* (node_start n s) y" "w \<in> set (workers y)"
    "worker_state w = Replied (Rpc_GetChunk sctx request write_ok) (Returns (Reply_GetChunk st frames))"
    "get_stream_data frames \<noteq> []"
  shows "\<exists>cid d. Parse (get_chunk_id request) = Ok cid \<and> HashBytes evp d = Returns (id_digest cid) \<and>
    prefix (get_stream_data frames) d \<and> ((\<forall>k. write_ok k) \<longrightarrow> get_stream_data frames = d)"
proof -
  obtain i where i: "i < length (workers y)" "workers y ! i = w" using assms(4) by (auto simp: in_set_conv_nth)
  have "busy_inv evp limit y" by (rule busy_inv_run [OF assms(1-3)])
  then have "node_inv limit y" "system_inv evp (silent y)" by (simp_all add: busy_inv_def)
  from downloaded_verified [OF this(1) i(1) this(2) assms(5) [folded i(2)] assms(6)] show ?thesis .
qed

theorem concurrent_GetChunk_delivers_verified_prefix_witness:
  "\<exists>y cid d. (node_step demo_evp 100)\<^sup>*\<^sup>* (node_start 1 (demo_full Relock_counts demo_data)) y \<and>
     Parse (id_hex demo_id) = Ok cid \<and> HashBytes demo_evp d = Returns (id_digest cid) \<and> d = demo_data"
proof -
  obtain y fs where y: "(node_step demo_evp 100)\<^sup>*\<^sup>* (node_start 1 (demo_full Relock_counts demo_data)) y" "length (workers y) = 1"
    "worker_state (workers y ! 0) = Replied (Rpc_GetChunk demo_ctx (get_request demo_id) (\<lambda>_. True))
       (Returns (Reply_GetChunk Status_OK (meta_frame (length demo_data) CS_OK # map data_frame fs)))" "concat fs = demo_data"
    by (rule demo_node_download)
  show ?thesis
    using concurrent_GetChunk_delivers_verified_prefix [OF demo_full_inv demo_full_simps(1) y(1) nth_mem y(3)] y
    by (auto simp: get_request_def demo_data_def)
qed

text \<open>
  C6: Every RPC is answered, unless relocking a mutex hangs: from every reachable state the workers can
  take only so many steps without a new request, they can get to a state where all have replied, and
  where no worker can take a step, all have.
\<close>

theorem every_rpc_is_answered:
  assumes "LocalDisk_inv s" "stripe_locks s = {}" "relock s \<noteq> Relock_blocks"
    "(node_step evp limit)\<^sup>*\<^sup>* (node_start n s) y"
  shows "(\<forall>k y'. (serving_step evp limit ^^ k) y y' \<longrightarrow> k \<le> serving_left y) \<and>
    (\<exists>y'. (serving_step evp limit)\<^sup>*\<^sup>* y y' \<and> (\<forall>w \<in> set (workers y'). free (worker_state w))) \<and>
    (\<forall>y'. (serving_step evp limit)\<^sup>*\<^sup>* y y' \<and> (\<forall>z. \<not> serving_step evp limit y' z) \<longrightarrow>
       (\<forall>w \<in> set (workers y'). free (worker_state w)))"
proof -
  have inv: "busy_inv evp limit y" by (rule busy_inv_run [OF assms(1,2,4)])
  have stuck: "\<forall>w \<in> set (workers y'). free (worker_state w)"
    if r: "(serving_step evp limit)\<^sup>*\<^sup>* y y'" and no: "\<forall>z. \<not> serving_step evp limit y' z" for y'
  proof -
    have "relock (node_store y') \<noteq> Relock_blocks"
      using node_relock [OF rtranclp_trans [OF assms(4) serving_runs [OF r]]] assms(3) by simp
    then show ?thesis using serving_progress [OF serving.run_keeps [OF r inv]] no by blast
  qed
  have "k \<le> serving_left y" if "(serving_step evp limit ^^ k) y y'" for k y'
    using serving.run_bounded [OF that inv] by simp
  then show ?thesis using serving.run_ends [OF inv] stuck by blast
qed

theorem every_rpc_is_answered_witness:
  "\<exists>y y'. (node_step demo_evp 100)\<^sup>*\<^sup>* (node_start 2 (demo_empty Relock_counts)) y \<and> arrived y = [demo_upload] \<and>
     (serving_step demo_evp 100)\<^sup>*\<^sup>* y y' \<and> (\<forall>w \<in> set (workers y'). free (worker_state w))"
proof -
  let ?y = "rpc_arrives 100 0 demo_upload (node_start 2 (demo_empty Relock_counts))"
  have "node_step demo_evp 100 (node_start 2 (demo_empty Relock_counts)) ?y"
    by (rule node_step.arrival) (simp_all add: node_start_def)
  then have y: "(node_step demo_evp 100)\<^sup>*\<^sup>* (node_start 2 (demo_empty Relock_counts)) ?y" by (rule r_into_rtranclp)
  have "arrived ?y = [demo_upload]"
    using run_handler_first [OF demo_upload_asks]
    by (simp add: rpc_arrives_def enter_store_def node_start_def Let_def split: prod.splits)
  then show ?thesis using every_rpc_is_answered [OF demo_empty_inv demo_empty_simps(1) _ y] y by auto
qed

text \<open>
  C13: Correlation ids do not mix: whichever worker wrote a line of the operational log, in a handler or
  inside the store, and whatever the other workers were serving, the line carries the correlation id
  of the request it was written for.
\<close>

theorem correlation_ids_do_not_mix:
  assumes "(node_step evp limit)\<^sup>*\<^sup>* (node_start n s) y"
  shows "length (authors y) = length (written (logger (node_store y))) \<and>
    (\<forall>k < length (authors y). \<exists>text flds.
       snd (written (logger (node_store y)) ! k) = FormatOpMessage (authors y ! k) text flds)"
  using node_run(1) [OF assms] by (auto simp: node_inv_def lines_sent_def list_all2_conv_all_nth sent_as_def)

definition demo_talking :: LocalDisk where
  "demo_talking = (demo_full Relock_counts demo_data)\<lparr>logger := demo_logger\<lparr>op_logger := Some
     \<lparr>spd_name = ''storage_node'', spd_sinks = [stdout_color_sink], spd_pattern = ''%v'', spd_threshold = spd_info,
      spd_messages = []\<rparr>\<rparr>\<rparr>"

theorem correlation_ids_do_not_mix_witness:
  "\<exists>y text flds. (node_step demo_evp 100)\<^sup>*\<^sup>* (node_start 1 demo_talking) y \<and> written (logger (node_store y)) \<noteq> [] \<and>
     snd (written (logger (node_store y)) ! 0) = FormatOpMessage (authors y ! 0) text flds"
proof -
  let ?r = "Rpc_GetNodeStats demo_ctx \<lparr>stat_protocol_version = 1\<rparr>"
  obtain q s' where s: "serve (disk_service demo_evp 100) ?r demo_talking = (Returns q, s')" "written (logger s') \<noteq> []"
    by (simp add: disk_service_demo GetNodeStats_def correlation_scope_def WithCorrelationId_def LocalDisk_log_def
        LocalDisk_GetStats_def ScopedCorrelationId_dtor_def demo_talking_def Logger_log_append written_def append_log_def)
  obtain y where y: "(node_step demo_evp 100)\<^sup>*\<^sup>* (node_start 1 demo_talking) y"
      "switch_log [] (process (store_threads y)) = \<lparr>shared = s', fds = []\<rparr>"
    using alone_run [of 100 ?r Call_GetStats demo_talking demo_evp "Returns q" s'] s(1)
    by (auto simp: demo_talking_def demo_logger_def)
  have "written (logger (node_store y)) \<noteq> []"
    using arg_cong [OF y(2), of "\<lambda>p. written (logger (shared p))"] s(2) by (simp add: switch_log_def written_def)
  then show ?thesis using correlation_ids_do_not_mix [OF y(1)] y(1) by (metis length_greater_0_conv)
qed

text \<open>
  C7: A worker that serves a request while no other worker runs, through the handler up to its call of
  the store, the system calls of the store, and the rest of the handler, gives the reply that the
  handler gives when it runs in one go over the one-step store, and leaves the same store and the same
  lines in the log; its thread is left without a correlation id and no descriptor is open. This holds
  for every request that reaches the store, with every reply or exception that comes out.
\<close>

theorem worker_alone_is_handler:
  assumes "asks limit r call" "stripe_locks s = {}" "relock s \<noteq> Relock_blocks" "t_correlation_id (logger s) = []"
    "serve (disk_service evp limit) r s = (reply, s')" "reply \<noteq> Blocks"
  shows "\<exists>y. (node_step evp limit)\<^sup>*\<^sup>* (node_start 1 s) y \<and>
    workers y = [\<lparr>thread_correlation_id = [], worker_state = Replied r reply\<rparr>] \<and>
    switch_log [] (process (store_threads y)) = \<lparr>shared = s', fds = []\<rparr>"
  by (rule alone_run [OF assms])

theorem worker_alone_is_handler_witness:
  "\<exists>y q s'. serve (disk_service demo_evp 100) demo_upload (demo_empty Relock_counts) = (Returns q, s') \<and>
     (node_step demo_evp 100)\<^sup>*\<^sup>* (node_start 1 (demo_empty Relock_counts)) y \<and>
     workers y = [\<lparr>thread_correlation_id = [], worker_state = Replied demo_upload (Returns q)\<rparr>] \<and>
     switch_log [] (process (store_threads y)) = \<lparr>shared = s', fds = []\<rparr>"
proof -
  obtain resp s' where p: "PutChunk (demo_svc 100) demo_ctx (put_request demo_id 3 [[1], [2, 3]])
      (demo_empty Relock_counts) = (Returns (Status_OK, resp), s')"
    by (rule demo_PutChunk)
  have "serve (disk_service demo_evp 100) demo_upload (demo_empty Relock_counts) = (Returns (Reply_PutChunk Status_OK resp), s')"
    using p by (simp add: disk_service_demo)
  from worker_alone_is_handler [OF demo_upload_asks _ _ _ this] this show ?thesis by auto
qed

end
