(* ===== verification/Disk_Durability.thy ===== *)
theory Disk_Durability
  imports Disk_Concurrent
begin

text \<open>
  What is left when the machine fails. POSIX promises that the bytes of a file are on the disk once
  \<^verbatim>\<open>fsync\<close> of the file has returned, and that the entries of a directory are once \<^verbatim>\<open>fsync\<close> of the
  directory has; before that they may be there or not. \<open>page_cache\<close> keeps track of what is not
  promised yet: files whose bytes may be lost, entries that may be missing, and entries that were
  removed and may come back. \<open>cache_step\<close> updates it along the steps of \<open>Disk_Steps\<close>; \<open>survives\<close> relates
  the disk before a failure to the disks that may be found after it.

  \<^verbatim>\<open>Put\<close> synchronises the temporary file before it renames it, so a chunk file that is found is intact;
  it synchronises the shard directory after that, so an acknowledged chunk in a directory that was
  on the disk stays. It never synchronises the directories above the shard, so a chunk in a shard
  that was created since the store was opened can be lost with its directory.
\<close>

section \<open>The page cache\<close>

record page_cache =
  dirty_data :: "path list"
  dirty_entries :: "path list"
  dropped_entries :: "(path \<times> node) list"

definition clean :: page_cache where
  "clean = \<lparr>dirty_data = [], dirty_entries = [], dropped_entries = []\<rparr>"

text \<open>What the kernel has to remember when the visible disk changes from \<open>d\<close> to \<open>d'\<close>.\<close>

definition note_changes :: "fs \<Rightarrow> fs \<Rightarrow> page_cache \<Rightarrow> page_cache" where
  "note_changes d d' c =
     \<lparr>dirty_data = filter (\<lambda>p. map_of d' p \<noteq> map_of d p) (map fst d') @ dirty_data c,
      dirty_entries = filter (\<lambda>p. map_of d p = None) (map fst d') @ dirty_entries c,
      dropped_entries = filter (\<lambda>(p, n). map_of d' p = None) d @ dropped_entries c\<rparr>"

definition sync_file :: "path \<Rightarrow> page_cache \<Rightarrow> page_cache" where
  "sync_file q c = c\<lparr>dirty_data := removeAll q (dirty_data c)\<rparr>"

definition sync_directory :: "path \<Rightarrow> page_cache \<Rightarrow> page_cache" where
  "sync_directory dir c =
     c\<lparr>dirty_entries := filter (\<lambda>p. butlast p \<noteq> dir) (dirty_entries c),
       dropped_entries := filter (\<lambda>(p, n). butlast p \<noteq> dir) (dropped_entries c)\<rparr>"

text \<open>A renamed file keeps its bytes, synchronised or not.\<close>

definition move_file :: "path \<Rightarrow> path \<Rightarrow> page_cache \<Rightarrow> page_cache \<Rightarrow> page_cache" where
  "move_file q r before c = c\<lparr>dirty_data :=
     (if q \<in> set (dirty_data before) then [r] else []) @ removeAll r (dirty_data before)\<rparr>"

definition cache_step :: "LocalDisk \<Rightarrow> disk_thread \<Rightarrow> disk_thread \<Rightarrow> LocalDisk \<Rightarrow> page_cache \<Rightarrow> page_cache" where
  "cache_step s t t' s' c =
     (let c' = note_changes (disk s) (disk s') c
      in case t of
           Put_fsync cid data q g \<Rightarrow> if os_fsync_ok (os s) then sync_file q c' else c'
         | Put_rename cid data q g \<Rightarrow>
             (case t' of Put_open_dir _ _ _ \<Rightarrow> move_file q (FinalPathFor s cid) c c' | _ \<Rightarrow> c')
         | Put_fsync_dir cid data h g \<Rightarrow> if os_fsync_dir_ok (os s) then sync_directory (ShardDirFor s cid) c' else c'
         | _ \<Rightarrow> c')"

text \<open>The steps of \<open>system_step\<close>, with the cache beside the system.\<close>

inductive cached_step :: "'c EVP \<Rightarrow> disk_system \<times> page_cache \<Rightarrow> disk_system \<times> page_cache \<Rightarrow> bool" for evp where
  cached_advance: "i < length (pool y) \<Longrightarrow> thread_step evp (pool y ! i) (process y) = Some (t, p) \<Longrightarrow>
     cached_step evp (y, c) (y\<lparr>process := p, pool := (pool y)[i := t]\<rparr>, cache_step (store_of y) (pool y ! i) t (shared p) c)"
| cached_call: "i < length (pool y) \<Longrightarrow> resting (pool y ! i) \<Longrightarrow> starts t \<Longrightarrow>
     cached_step evp (y, c) (y\<lparr>pool := (pool y)[i := t], called := t # called y\<rparr>, c)"
| cached_os: "uuid_wf (os_uuid osa) \<Longrightarrow> os_stat_ok osa \<Longrightarrow>
     cached_step evp (y, c) (y\<lparr>process := (process y)\<lparr>shared := (shared (process y))\<lparr>os := osa\<rparr>\<rparr>\<rparr>, c)"

lemma cached_system: "cached_step evp yc yc' \<Longrightarrow> system_step evp (fst yc) (fst yc')"
  by (cases rule: cached_step.cases) (auto intro: system_step.intros)

text \<open>
  The disks that may be found after a failure: an entry that is found was there, with its bytes if
  they were synchronised, or had been removed; an entry is found if its bytes and all the entries
  on the way to it were synchronised.
\<close>

definition survives :: "page_cache \<Rightarrow> fs \<Rightarrow> fs \<Rightarrow> bool" where
  "survives c d d' \<longleftrightarrow>
     (\<forall>p n. map_of d' p = Some n \<longrightarrow>
        (\<exists>m. map_of d p = Some m \<and> (p \<notin> set (dirty_data c) \<longrightarrow> n = m)) \<or> (p, n) \<in> set (dropped_entries c)) \<and>
     (\<forall>p m. map_of d p = Some m \<and> p \<notin> set (dirty_data c) \<and>
        (\<forall>q \<in> set (dirty_entries c). q \<noteq> [] \<longrightarrow> \<not> prefix q p) \<longrightarrow> map_of d' p = Some m)"

section \<open>What the cache may hold\<close>

lemmas cache_defs = cache_step_def note_changes_def sync_file_def sync_directory_def move_file_def Let_def

lemma cache_step_data:
  assumes "map_of (disk s') q = map_of (disk s) q" "q \<notin> set (dirty_data c)"
    "\<And>cid data r g. t = Put_rename cid data r g \<Longrightarrow> q \<noteq> FinalPathFor s cid \<or> r \<notin> set (dirty_data c)"
  shows "q \<notin> set (dirty_data (cache_step s t t' s' c))"
  using assms by (auto simp: cache_defs split: disk_thread.splits)

lemma cache_step_renamed:
  assumes "r \<notin> set (dirty_data c)"
  shows "FinalPathFor s cid \<notin> set (dirty_data (cache_step s (Put_rename cid data r g) (Put_open_dir cid data g) s' c))"
  using assms by (auto simp: cache_defs)

lemma cache_step_dropped:
  assumes "(q, n) \<in> set (dropped_entries (cache_step s t t' s' c))"
  shows "(q, n) \<in> set (dropped_entries c) \<or> (q, n) \<in> set (disk s) \<and> map_of (disk s') q = None"
  using assms by (auto simp: cache_defs split: disk_thread.splits if_splits)

lemma cache_step_entries:
  assumes "q \<in> set (dirty_entries (cache_step s t t' s' c))"
  shows "q \<in> set (dirty_entries c) \<or> map_of (disk s) q = None"
  using assms by (auto simp: cache_defs split: disk_thread.splits if_splits)

lemma cache_step_short_entries:
  assumes "q \<in> set (dirty_entries c)" "length q \<le> length (data_root s) + 2"
  shows "q \<in> set (dirty_entries (cache_step s t t' s' c))"
proof -
  have "length (butlast q) \<noteq> length (ShardDirFor s cid)" for cid using assms(2) by (simp add: ShardDirFor_def)
  then have "butlast q \<noteq> ShardDirFor s cid" for cid by metis
  then show ?thesis using assms(1) by (auto simp: cache_defs split: disk_thread.splits)
qed

section \<open>Chunk files are synchronised\<close>

text \<open>
  From its \<^verbatim>\<open>fsync\<close> on, the temporary file of a \<open>Put\<close> is synchronised; so is every chunk file; and a
  removed chunk file that may come back was a verified one.
\<close>

fun thread_synced :: "page_cache \<Rightarrow> disk_thread \<Rightarrow> bool" where
  "thread_synced c (Put_close cid data q g) = (q \<notin> set (dirty_data c))"
| "thread_synced c (Put_rename cid data q g) = (q \<notin> set (dirty_data c))"
| "thread_synced c t = True"

definition chunks_synced :: "'c EVP \<Rightarrow> LocalDisk \<Rightarrow> page_cache \<Rightarrow> bool" where
  "chunks_synced evp s c \<longleftrightarrow> (\<forall>cid. ChunkId_wf cid \<longrightarrow>
     (map_of (disk s) (FinalPathFor s cid) \<noteq> None \<longrightarrow> FinalPathFor s cid \<notin> set (dirty_data c)) \<and>
     (\<forall>n. (FinalPathFor s cid, n) \<in> set (dropped_entries c) \<longrightarrow> (\<exists>b. n = File b \<and> hashes_to evp b cid)))"

definition cache_inv :: "'c EVP \<Rightarrow> disk_system \<times> page_cache \<Rightarrow> bool" where
  "cache_inv evp yc = (case yc of (y, c) \<Rightarrow> history_inv evp y \<and> verified evp (store_of y) \<and>
     chunks_synced evp (store_of y) c \<and> (\<forall>t \<in> set (pool y). thread_synced c t))"

lemma step_synced:
  assumes "thread_step evp t p = Some (t', p')" "thread_ok evp (shared p) t" "disk_ok (shared p)" "thread_synced c t"
  shows "thread_synced (cache_step (shared p) t t' (shared p') c) t'"
proof (cases t)
  case (Put_fsync cid data q g)
  then show ?thesis using assms(1) by (auto simp: cache_defs internal_fsync_def split: if_splits)
next
  case (Put_close cid data q g)
  then show ?thesis using assms(1,4) by (auto simp: cache_defs ScopedFd_release_def)
next
  case (Leaving out cid gs)
  then show ?thesis using assms(1) by (cases gs) auto
qed (use assms(1) in \<open>auto simp: Let_def split: step_splits\<close>)

lemma tmp_not_final: "ChunkId_wf x \<Longrightarrow> tmp_of s cid q \<Longrightarrow> q \<noteq> FinalPathFor s x"
  using tmp_of_facts(1) [of s cid q] is_chunk_path_final [of x s] by blast

lemma step_chunks_synced:
  assumes "thread_step evp t p = Some (t', p')" "thread_ok evp (shared p) t" "disk_ok (shared p)" "verified evp (shared p)"
    "thread_synced c t" "chunks_synced evp (shared p) c"
  shows "chunks_synced evp (shared p') (cache_step (shared p) t t' (shared p') c)"
  unfolding chunks_synced_def
proof (intro allI impI conjI)
  fix x assume x: "ChunkId_wf x"
  let ?f = "FinalPathFor (shared p) x" and ?c = "cache_step (shared p) t t' (shared p') c"
  have final: "FinalPathFor (shared p') x = ?f"
    using FinalPathFor_root [OF conjunct1 [OF step_constants [OF assms(1)]]] .
  have old: "map_of (disk (shared p)) ?f \<noteq> None \<Longrightarrow> ?f \<notin> set (dirty_data c)"
    "(?f, n) \<in> set (dropped_entries c) \<Longrightarrow> \<exists>b. n = File b \<and> hashes_to evp b x" for n
    using assms(6) x unfolding chunks_synced_def by blast+
  have rename: "q \<notin> set (dirty_data c)" "tmp_of (shared p) cid q" if "t = Put_rename cid data q g" for cid data q g
    using that assms(2,5) by (simp_all add: thread_ok_def)
  show "FinalPathFor (shared p') x \<notin> set (dirty_data ?c)" if present: "map_of (disk (shared p')) (FinalPathFor (shared p') x) \<noteq> None"
    unfolding final
    using assms(1-3)
  proof (cases rule: step_chunks)
    case same
    then have "map_of (disk (shared p')) ?f = map_of (disk (shared p)) ?f" using same_chunks_stored x by blast
    then show "?f \<notin> set (dirty_data ?c)"
      using cache_step_data [of "shared p'" ?f "shared p" c t t'] old(1) present final rename by metis
  next
    case (renamed cid data q g)
    show "?f \<notin> set (dirty_data ?c)"
    proof (cases "?f = FinalPathFor (shared p) cid")
      case True
      then show ?thesis unfolding True renamed(1,2) by (intro cache_step_renamed rename(1) [OF renamed(1)])
    next
      case False
      then have "map_of (disk (shared p')) ?f = map_of (disk (shared p)) ?f"
        using renamed(3) tmp_not_final [OF x rename(2) [OF renamed(1)]] by (simp add: update_conv' delete_conv')
      then show ?thesis
        using cache_step_data [of "shared p'" ?f "shared p" c t t'] old(1) present final rename by metis
    qed
  next
    case (removed cid b)
    then have "map_of (disk (shared p')) ?f = map_of (disk (shared p)) ?f"
      using present final by (auto simp: delete_conv')
    then show "?f \<notin> set (dirty_data ?c)"
      using cache_step_data [of "shared p'" ?f "shared p" c t t'] old(1) present final rename by metis
  qed
  show "\<exists>b. n = File b \<and> hashes_to evp b x" if n: "(FinalPathFor (shared p') x, n) \<in> set (dropped_entries ?c)" for n
    using cache_step_dropped [OF n]
  proof
    assume "(FinalPathFor (shared p') x, n) \<in> set (dropped_entries c)"
    then show ?thesis using old(2) final by simp
  next
    assume "(FinalPathFor (shared p') x, n) \<in> set (disk (shared p)) \<and> map_of (disk (shared p')) (FinalPathFor (shared p') x) = None"
    then have "map_of (disk (shared p)) ?f = Some n" using final assms(3) by (simp add: disk_ok_def)
    then show ?thesis using assms(3,4) x
      by (cases n) (auto simp: disk_ok_def verified_def stored_def simp del: map_of_eq_Some_iff)
  qed
qed

lemma foreign_synced:
  assumes "system_inv evp y" "i < length (pool y)" "j < length (pool y)" "i \<noteq> j"
    "thread_step evp (pool y ! i) (process y) = Some (t, p)" "thread_synced c (pool y ! j)"
  shows "thread_synced (cache_step (store_of y) (pool y ! i) t (shared p) c) (pool y ! j)"
proof -
  have ok: "thread_ok evp (store_of y) (pool y ! i)" "thread_ok evp (store_of y) (pool y ! j)" "lock_inv y" "disk_ok (store_of y)"
    using assms(1-3) by (auto simp: system_inv_def)
  have "q \<notin> set (dirty_data (cache_step (store_of y) (pool y ! i) t (shared p) c))"
    if q: "holds (pool y ! j) = Some cid" "tmp_of (store_of y) cid q" "q \<notin> set (dirty_data c)" for cid q
  proof (rule cache_step_data [OF _ q(3)])
    show "map_of (disk (shared p)) q = map_of (disk (store_of y)) q"
      using foreign_path_unchanged [OF ok(3,4,1,2) assms(2-5) q(1)] q(2) by (simp add: own_path_def)
    show "q \<noteq> FinalPathFor (store_of y) cid' \<or> r \<notin> set (dirty_data c)" if "pool y ! i = Put_rename cid' data r g" for cid' data r g
      using tmp_not_final [OF _ q(2)] ok(1) that by (simp add: thread_defs)
  qed
  then show ?thesis using assms(6) ok(2) by (cases "pool y ! j") (auto simp: thread_defs)
qed

lemma cache_inv_step:
  assumes "cached_step evp yc yc'" "cache_inv evp yc"
  shows "cache_inv evp yc'"
  using assms(1)
proof (cases rule: cached_step.cases)
  case (cached_advance i y t p c)
  have inv: "history_inv evp y" "verified evp (store_of y)" "chunks_synced evp (store_of y) c" "\<forall>t \<in> set (pool y). thread_synced c t"
    using assms(2) cached_advance(1) by (simp_all add: cache_inv_def)
  have ok: "thread_ok evp (store_of y) (pool y ! i)" "disk_ok (store_of y)" "system_inv evp y" "thread_synced c (pool y ! i)"
    using inv cached_advance(3) by (simp_all add: history_inv_def system_inv_def)
  let ?c = "cache_step (store_of y) (pool y ! i) t (shared p) c"
  have "thread_synced ?c u" if "u \<in> set ((pool y)[i := t])" for u
  proof -
    obtain j where j: "j < length (pool y)" "u = (pool y)[i := t] ! j" using \<open>u \<in> _\<close> by (auto simp: in_set_conv_nth)
    show ?thesis
    proof (cases "i = j")
      case True
      then show ?thesis using step_synced [OF cached_advance(4) ok(1,2,4)] j by simp
    next
      case False
      then show ?thesis using foreign_synced [OF ok(3) cached_advance(3) j(1) False cached_advance(4)] j inv(4) by simp
    qed
  qed
  then show ?thesis
    using cached_advance(2) history.step_keeps [OF cached_system [OF assms(1)]] inv(1) cached_advance(1)
      step_verified [OF cached_advance(4) ok(1,2) inv(2)] step_chunks_synced [OF cached_advance(4) ok(1,2) inv(2) ok(4) inv(3)]
    by (simp add: cache_inv_def)
next
  case (cached_call i y t c)
  have "thread_synced c t" using cached_call(5) by (cases t) auto
  then show ?thesis
    using assms(2) cached_call(1,2) history.step_keeps [OF cached_system [OF assms(1)]] set_update_subset_insert [of "pool y" i t]
    by (auto simp: cache_inv_def)
next
  case (cached_os osa y c)
  then show ?thesis
    using assms(2) history.step_keeps [OF cached_system [OF assms(1)]]
    by (simp add: cache_inv_def verified_def chunks_synced_def FinalPathFor_def ShardDirFor_def)
qed

interpretation cached_run: step_invariant "cached_step evp" "cache_inv evp" for evp
  by unfold_locales (rule cache_inv_step)

section \<open>Shard directories\<close>

text \<open>Directories above the chunk files are only ever created.\<close>

lemma step_short_present:
  assumes "thread_step evp t p = Some (t', p')" "thread_ok evp (shared p) t" "disk_ok (shared p)"
    "length q \<le> length (data_root (shared p)) + 2" "map_of (disk (shared p)) q \<noteq> None"
  shows "map_of (disk (shared p')) q \<noteq> None"
  using assms(1)
proof (cases rule: step_disk_cases)
  case (mkdir cid data)
  have "map_of (snd (mkdirs [] cs d)) q = map_of d q" if "map_of d q \<noteq> None" for cs d
    using mkdirs_only_adds_dirs [of "[]" cs d] that by (auto simp: map_add_def split: option.splits)
  then show ?thesis using mkdir(2) assms(5) by (auto simp: fs_create_directories_def split: option.splits)
next
  case (opened cid data)
  then show ?thesis using assms(5) by (auto simp: posix_open_write_def update_conv')
next
  case (written cid data r g)
  then show ?thesis using assms(5) by (auto simp: posix_write_def update_conv' split: option.splits)
next
  case (renamed cid data r g)
  have "q \<noteq> r" "q \<noteq> FinalPathFor (shared p) cid"
    using renamed(1) assms(2,4) tmp_of_facts(3) [of "shared p" cid r] length_FinalPathFor [of "shared p" cid] by (auto simp: thread_ok_def)
  then show ?thesis using renamed(3) assms(5) single_path_frame(4) [of q r "FinalPathFor (shared p) cid" "os (shared p)" "disk (shared p)"] by simp
next
  case (dropped cid r g m)
  have "q \<noteq> r" using dropped(1) assms(2,4) tmp_of_facts(3) [of "shared p" cid r] by (auto simp: thread_ok_def)
  then show ?thesis using dropped(2) assms(5) single_path_frame(3) [of q r] by simp
next
  case (removed cid n)
  have "q \<noteq> FinalPathFor (shared p) cid" using assms(4) length_FinalPathFor [of "shared p" cid] by auto
  then show ?thesis using removed(3) assms(5) single_path_frame(3) [of q "FinalPathFor (shared p) cid" "os (shared p)" "disk (shared p)"] by simp
qed (use assms(5) in simp)

lemma cache_step_created:
  assumes "map_of (disk s) q = None" "map_of (disk s') q \<noteq> None" "length q \<le> length (data_root s) + 2"
  shows "q \<in> set (dirty_entries (cache_step s t t' s' c))"
proof -
  have "q \<in> set (dirty_entries (note_changes (disk s) (disk s') c))"
    using assms(1) map_of_eq_None_iff [of "disk s'" q] assms(2) by (auto simp: note_changes_def)
  moreover have "length (butlast q) \<noteq> length (ShardDirFor s cid)" for cid using assms(3) by (simp add: ShardDirFor_def)
  then have "butlast q \<noteq> ShardDirFor s cid" for cid by metis
  ultimately show ?thesis by (auto simp: cache_step_def sync_file_def sync_directory_def move_file_def Let_def split: disk_thread.splits)
qed

text \<open>
  Relative to the disk a run started from: a directory that was there has a clean entry, one that
  was not has a dirty one, for good.
\<close>

definition shards_inv :: "LocalDisk \<Rightarrow> LocalDisk \<Rightarrow> page_cache \<Rightarrow> bool" where
  "shards_inv s0 s c \<longleftrightarrow> data_root s = data_root s0 \<and> (\<forall>q. length q \<le> length (data_root s0) + 2 \<longrightarrow>
     (map_of (disk s0) q \<noteq> None \<longrightarrow> map_of (disk s) q \<noteq> None \<and> q \<notin> set (dirty_entries c)) \<and>
     (map_of (disk s0) q = None \<and> map_of (disk s) q \<noteq> None \<longrightarrow> q \<in> set (dirty_entries c)))"

lemma shards_inv_step:
  assumes "cached_step evp (y, c) (y', c')" "cache_inv evp (y, c)" "shards_inv s0 (store_of y) c"
  shows "shards_inv s0 (store_of y') c'"
  using assms(1)
proof (cases rule: cached_step.cases)
  case (cached_advance i t p)
  have ok: "thread_ok evp (store_of y) (pool y ! i)" "disk_ok (store_of y)"
    using assms(2) cached_advance(3) by (simp_all add: cache_inv_def history_inv_def system_inv_def)
  have root: "data_root (shared p) = data_root (store_of y)" "data_root (store_of y) = data_root s0"
    using step_constants [OF cached_advance(4)] assms(3) by (simp_all add: shards_inv_def)
  have "(map_of (disk s0) q \<noteq> None \<longrightarrow> map_of (disk (shared p)) q \<noteq> None \<and> q \<notin> set (dirty_entries c')) \<and>
     (map_of (disk s0) q = None \<and> map_of (disk (shared p)) q \<noteq> None \<longrightarrow> q \<in> set (dirty_entries c'))"
    if short: "length q \<le> length (data_root s0) + 2" for q
  proof (cases "map_of (disk s0) q")
    case None
    then show ?thesis
      using assms(3) short cached_advance(2) cache_step_created [of "store_of y" q "shared p" "pool y ! i" t c]
        cache_step_short_entries [of q c "store_of y" "pool y ! i" t "shared p"] root(2)
      unfolding shards_inv_def by (cases "map_of (disk (store_of y)) q") auto
  next
    case (Some n)
    then have "map_of (disk (store_of y)) q \<noteq> None" "q \<notin> set (dirty_entries c)"
      using assms(3) short unfolding shards_inv_def by auto
    then show ?thesis
      using step_short_present [OF cached_advance(4) ok, of q] cache_step_entries [of q "store_of y" "pool y ! i" t "shared p" c]
        short root(2) Some cached_advance(2) by auto
  qed
  then show ?thesis using root cached_advance(1) by (simp add: shards_inv_def)
qed (use assms(3) in \<open>auto simp: shards_inv_def\<close>)


section \<open>Directory entries\<close>

text \<open>Steps after which the operating system grants synchronising a directory.\<close>

definition synced_step :: "'c EVP \<Rightarrow> disk_system \<times> page_cache \<Rightarrow> disk_system \<times> page_cache \<Rightarrow> bool" where
  "synced_step evp yc yc' \<longleftrightarrow> cached_step evp yc yc' \<and>
     os_open_dir_ok (os (store_of (fst yc'))) \<and> os_fsync_dir_ok (os (store_of (fst yc')))"

definition publishing :: "disk_thread \<Rightarrow> ChunkId option" where
  "publishing t = (case t of Put_open_dir cid _ _ \<Rightarrow> Some cid | Put_fsync_dir cid _ _ _ \<Rightarrow> Some cid | _ \<Rightarrow> None)"

text \<open>
  A chunk whose entry is not on the disk yet is being published by some thread; and once a \<open>Put\<close> of
  it has been acknowledged, its entry is on the disk.
\<close>

definition entry_inv :: "'c EVP \<Rightarrow> disk_system \<times> page_cache \<Rightarrow> bool" where
  "entry_inv evp yc = (case yc of (y, c) \<Rightarrow> cache_inv evp yc \<and> acked_inv evp y \<and>
     os_open_dir_ok (os (store_of y)) \<and> os_fsync_dir_ok (os (store_of y)) \<and>
     (\<forall>cid. ChunkId_wf cid \<longrightarrow> map_of (disk (store_of y)) (FinalPathFor (store_of y) cid) \<noteq> None \<longrightarrow>
        FinalPathFor (store_of y) cid \<in> set (dirty_entries c) \<longrightarrow> (\<exists>t \<in> set (pool y). publishing t = Some cid)) \<and>
     (\<forall>cid. put_ok cid \<in> set (pool y) \<longrightarrow> Delete_lock cid \<notin> set (called y) \<longrightarrow>
        FinalPathFor (store_of y) cid \<notin> set (dirty_entries c)))"

lemma publishing_step:
  assumes "thread_step evp t p = Some (t', p')" "publishing t = Some cid"
    "os_open_dir_ok (os (shared p))" "os_fsync_dir_ok (os (shared p))"
  shows "publishing t' = Some cid \<or> FinalPathFor (shared p) cid \<notin> set (dirty_entries (cache_step (shared p) t t' (shared p') c))"
proof (cases t)
  case (Put_open_dir cid' data g)
  then show ?thesis using assms by (auto simp: publishing_def internal_open_def Let_def split: if_splits)
next
  case (Put_fsync_dir cid' data h g)
  then show ?thesis using assms by (auto simp: publishing_def cache_step_def sync_directory_def FinalPathFor_def Let_def)
qed (use assms(2) in \<open>auto simp: publishing_def\<close>)

lemma new_entry_published:
  assumes "thread_step evp t p = Some (t', p')" "thread_ok evp (shared p) t" "disk_ok (shared p)" "ChunkId_wf x"
    "map_of (disk (shared p)) (FinalPathFor (shared p) x) = None" "map_of (disk (shared p')) (FinalPathFor (shared p) x) \<noteq> None"
  shows "publishing t' = Some x"
  using assms(1-3)
proof (cases rule: step_chunks)
  case same
  then show ?thesis using same_chunks_stored [OF same(1) assms(4)] assms(5,6) by simp
next
  case (renamed cid data q g)
  have "ChunkId_wf cid" using assms(2) renamed(1) by (simp add: thread_defs)
  then show ?thesis
    using renamed(2,3) assms(5,6) FinalPathFor_inj [OF assms(4), of cid "shared p"]
    by (auto simp: publishing_def update_conv' delete_conv' split: if_splits)
next
  case (removed cid b)
  then show ?thesis using assms(5,6) by (auto simp: delete_conv' split: if_splits)
qed

lemma entry_advance:
  assumes "entry_inv evp (y, c)" "i < length (pool y)" "thread_step evp (pool y ! i) (process y) = Some (t, p)" "ChunkId_wf x"
    "map_of (disk (shared p)) (FinalPathFor (store_of y) x) \<noteq> None"
    "FinalPathFor (store_of y) x \<in> set (dirty_entries (cache_step (store_of y) (pool y ! i) t (shared p) c))"
  shows "\<exists>u \<in> set ((pool y)[i := t]). publishing u = Some x"
proof (cases "map_of (disk (store_of y)) (FinalPathFor (store_of y) x) = None")
  case True
  have "publishing t = Some x"
    using new_entry_published [OF assms(3) _ _ assms(4) True assms(5)] assms(1,2)
    by (simp add: entry_inv_def cache_inv_def history_inv_def system_inv_def)
  then show ?thesis using assms(2) set_update_memI by metis
next
  case False
  then have "FinalPathFor (store_of y) x \<in> set (dirty_entries c)"
    using cache_step_entries [OF assms(6)] by argo
  then obtain u where u: "u \<in> set (pool y)" "publishing u = Some x"
    using assms(1,4) False by (auto simp: entry_inv_def)
  show ?thesis
  proof (cases "u = pool y ! i")
    case True
    then have "publishing t = Some x"
      using publishing_step [OF assms(3), of x c] u(2) assms(1,6) by (simp add: entry_inv_def)
    then show ?thesis using assms(2) set_update_memI by metis
  next
    case other: False
    obtain j where "j < length (pool y)" "u = pool y ! j" using u(1) by (auto simp: in_set_conv_nth)
    then have "u \<in> set ((pool y)[i := t])" using other by (metis length_list_update nth_list_update_neq nth_mem)
    then show ?thesis using u(2) by blast
  qed
qed

lemma acked_entry_advance:
  assumes "entry_inv evp (y, c)" "i < length (pool y)" "thread_step evp (pool y ! i) (process y) = Some (t, p)"
    "put_ok x \<in> set ((pool y)[i := t])" "Delete_lock x \<notin> set (called y)"
  shows "FinalPathFor (store_of y) x \<notin> set (dirty_entries (cache_step (store_of y) (pool y ! i) t (shared p) c))"
proof -
  have inv: "system_inv evp y" "acked_inv evp y" using assms(1) by (simp_all add: entry_inv_def cache_inv_def history_inv_def)
  have "map_of (disk (store_of y)) (FinalPathFor (store_of y) x) \<noteq> None \<and> FinalPathFor (store_of y) x \<notin> set (dirty_entries c)"
  proof (cases "put_ok x \<in> set (pool y)")
    case True
    then show ?thesis using assms(1,5) inv(2) by (auto simp: entry_inv_def acked_inv_def stored_def split: option.splits)
  next
    case False
    then have "t = put_ok x" using assms(4) set_update_subset_insert [of "pool y" i t] by auto
    then have at: "pool y ! i = Leaving (Put_outcome (Returns (Ok ()))) x []" using put_ok_step assms(3) by blast
    have ok: "thread_ok evp (store_of y) (pool y ! i)" using inv(1) assms(2) by (simp add: system_inv_def)
    then have present: "map_of (disk (store_of y)) (FinalPathFor (store_of y) x) \<noteq> None" and wf: "ChunkId_wf x"
      using at by (simp_all add: thread_defs)
    have "publishing u \<noteq> Some x" if "u \<in> set (pool y)" for u
    proof
      assume pub: "publishing u = Some x"
      obtain j where j: "j < length (pool y)" "u = pool y ! j" using \<open>u \<in> set (pool y)\<close> by (auto simp: in_set_conv_nth)
      have "holds u = Some x" using pub by (cases u) (auto simp: publishing_def holds_def)
      moreover have "i \<noteq> j" using at j(2) pub by (auto simp: publishing_def)
      ultimately show False
        using lock_exclusion [of y i j x x] inv(1) assms(2) j at by (simp add: system_inv_def holds_def)
    qed
    then show ?thesis using assms(1) present wf by (auto simp: entry_inv_def)
  qed
  then show ?thesis using cache_step_entries [of "FinalPathFor (store_of y) x" "store_of y" "pool y ! i" t "shared p" c] by metis
qed

lemma entry_inv_step:
  assumes "synced_step evp yc yc'" "entry_inv evp yc"
  shows "entry_inv evp yc'"
proof -
  have step: "cached_step evp yc yc'" using assms(1) by (simp add: synced_step_def)
  then have sys: "system_step evp (fst yc) (fst yc')" by (rule cached_system)
  have kept: "cache_inv evp yc'" "acked_inv evp (fst yc')"
    using assms(2) cached_run.step_keeps [OF step] acked.step_keeps [OF sys] by (auto simp: entry_inv_def split: prod.splits)
  from step show ?thesis
  proof (cases rule: cached_step.cases)
    case (cached_advance i y t p c)
    have final: "FinalPathFor (shared p) x = FinalPathFor (store_of y) x" for x
      using FinalPathFor_root [OF conjunct1 [OF step_constants [OF cached_advance(4)]]] .
    have e: "entry_inv evp (y, c)" using assms(2) cached_advance(1) by simp
    show ?thesis
      using kept assms(1) entry_advance [OF e cached_advance(3,4)] acked_entry_advance [OF e cached_advance(3,4)]
      unfolding cached_advance(2) entry_inv_def by (simp add: synced_step_def final)
  next
    case (cached_call i y t c)
    have old: "u \<in> set ((pool y)[i := t])" if "u \<in> set (pool y)" "publishing u = Some x" for u x
    proof -
      obtain j where j: "j < length (pool y)" "u = pool y ! j" using \<open>u \<in> set (pool y)\<close> by (auto simp: in_set_conv_nth)
      have "\<not> resting u" using \<open>publishing u = Some x\<close> by (cases u) (auto simp: publishing_def)
      then have "j \<noteq> i" using cached_call(4) j(2) by blast
      then show ?thesis using j by (metis length_list_update nth_list_update_neq nth_mem)
    qed
    have new: "put_ok x \<in> set (pool y)" if "put_ok x \<in> set ((pool y)[i := t])" for x
      using that cached_call(5) set_update_subset_insert [of "pool y" i t] by (cases t) auto
    have e: "entry_inv evp (y, c)" using assms(2) cached_call(1) by simp
    have "\<exists>u \<in> set ((pool y)[i := t]). publishing u = Some x"
      if "ChunkId_wf x" "map_of (disk (store_of y)) (FinalPathFor (store_of y) x) \<noteq> None"
        "FinalPathFor (store_of y) x \<in> set (dirty_entries c)" for x
      using e that old unfolding entry_inv_def prod.case by meson
    moreover have "FinalPathFor (store_of y) x \<notin> set (dirty_entries c)"
      if "put_ok x \<in> set ((pool y)[i := t])" "Delete_lock x \<notin> set (t # called y)" for x
      using e new [OF that(1)] that(2) by (simp add: entry_inv_def)
    ultimately show ?thesis
      using kept assms(1) unfolding cached_call(2) entry_inv_def by (simp add: synced_step_def)
  next
    case (cached_os osa y c)
    then show ?thesis using kept assms unfolding entry_inv_def
      by (simp add: synced_step_def FinalPathFor_def ShardDirFor_def)
  qed
qed

interpretation entry_run: step_invariant "synced_step evp" "entry_inv evp" for evp
  by unfold_locales (rule entry_inv_step)

section \<open>Runs\<close>

lemma cached_run_system: "(cached_step evp)\<^sup>*\<^sup>* yc yc' \<Longrightarrow> (system_step evp)\<^sup>*\<^sup>* (fst yc) (fst yc')"
  by (induction rule: rtranclp_induct) (auto dest: cached_system)

lemma synced_run_cached: "(synced_step evp)\<^sup>*\<^sup>* yc yc' \<Longrightarrow> (cached_step evp)\<^sup>*\<^sup>* yc yc'"
  by (rule rtranclp_mono [THEN predicate2D, rotated]) (auto simp: synced_step_def)

lemma system_root: "(system_step evp)\<^sup>*\<^sup>* y y' \<Longrightarrow> data_root (store_of y') = data_root (store_of y)"
proof (induction rule: rtranclp_induct)
  case (step x z)
  from step.hyps(2) have "data_root (store_of z) = data_root (store_of x)"
    by (cases rule: system_step.cases) (auto dest: step_constants)
  then show ?case using step.IH by simp
qed simp

lemma cache_inv_start:
  assumes "LocalDisk_inv s" "stripe_locks s = {}" "verified evp s"
  shows "cache_inv evp (system_start n s, clean)"
  using history_inv_start [OF assms(1,2), of evp n] assms(3)
  by (simp add: cache_inv_def chunks_synced_def clean_def system_start_def)

lemma shards_inv_run:
  assumes "(cached_step evp)\<^sup>*\<^sup>* (y, c) (z, c')" "cache_inv evp (y, c)" "shards_inv s0 (store_of y) c"
  shows "shards_inv s0 (store_of z) c'"
  using assms
proof (induction "(z, c')" arbitrary: z c' rule: rtranclp_induct)
  case (step u)
  obtain w e where u: "u = (w, e)" by (cases u)
  then show ?case using step shards_inv_step [of evp w e z c' s0] cached_run.run_keeps [of evp "(y, c)" u] by blast
qed simp

lemma entry_inv_start:
  assumes "LocalDisk_inv s" "stripe_locks s = {}" "verified evp s" "os_open_dir_ok (os s)" "os_fsync_dir_ok (os s)"
  shows "entry_inv evp (system_start n s, clean)"
  using cache_inv_start [OF assms(1-3), of n] acked_inv_start [OF assms(1,2), of evp n] assms(4,5)
  by (simp add: entry_inv_def clean_def system_start_def)

lemma shards_inv_start: "shards_inv s (store_of (system_start n s)) clean"
  by (auto simp: shards_inv_def system_start_def clean_def)

lemma clean_entry_stays:
  assumes "(cached_step evp)\<^sup>*\<^sup>* (y, c) (z, c')" "cache_inv evp (y, c)" "ChunkId_wf x" "stored (store_of y) x = Some b"
    "FinalPathFor (store_of y) x \<notin> set (dirty_entries c)" "Delete_lock x \<notin> set (called z)"
  shows "FinalPathFor (store_of y) x \<notin> set (dirty_entries c')"
  using assms(1,6)
proof (induction "(z, c')" arbitrary: z c' rule: rtranclp_induct)
  case base
  then show ?case using assms(5) by simp
next
  case (step u)
  obtain w e where u: "u = (w, e)" by (cases u)
  have sys: "(system_step evp)\<^sup>*\<^sup>* y w" using cached_run_system [OF step.hyps(1)] u by simp
  have del: "Delete_lock x \<notin> set (called w)"
    using called_grows [of evp w z] cached_system [OF step.hyps(2)] step.prems u by auto
  then have clean: "FinalPathFor (store_of y) x \<notin> set (dirty_entries e)" using step.hyps(3) u by blast
  have "stored (store_of w) x = Some b"
    using stored_stays [OF sys _ assms(3,4) del] assms(2) by (simp add: cache_inv_def)
  then have "map_of (disk (store_of w)) (FinalPathFor (store_of y) x) \<noteq> None"
    using FinalPathFor_root [OF system_root [OF sys]] by (auto simp: stored_def split: option.splits)
  with step.hyps(2) clean show ?case unfolding u
    by (cases rule: cached_step.cases) (metis cache_step_entries)+
qed

section \<open>Concrete runs\<close>

lemma solo_synced:
  assumes "pool y = [t]" "os_open_dir_ok (os (store_of y))" "os_fsync_dir_ok (os (store_of y))"
  shows "\<exists>c'. (synced_step evp)\<^sup>*\<^sup>* (y, c) (y\<lparr>process := snd (solo evp t (process y)), pool := [fst (solo evp t (process y))]\<rparr>, c')"
  using assms
proof (induction evp t "process y" arbitrary: y c rule: solo.induct)
  case (1 evp t)
  show ?case
  proof (cases "thread_step evp t (process y)")
    case None
    then show ?thesis using 1(2) by (cases y) auto
  next
    case (Some tp)
    obtain t' p' where s: "thread_step evp t (process y) = Some (t', p')" using Some by (cases tp) auto
    let ?y = "y\<lparr>process := p', pool := [t']\<rparr>" and ?c = "cache_step (store_of y) t t' (shared p') c"
    have os: "os (shared p') = os (store_of y)" using step_constants [OF s] by simp
    have "cached_step evp (y, c) (?y, ?c)" using cached_advance [of 0 y evp t' p' c] 1(2) s by simp
    then have "synced_step evp (y, c) (?y, ?c)" using 1(3,4) os by (simp add: synced_step_def)
    moreover obtain c' where "(synced_step evp)\<^sup>*\<^sup>* (?y, ?c) (?y\<lparr>process := snd (solo evp t' p'), pool := [fst (solo evp t' p')]\<rparr>, c')"
      using 1(1) [OF s, of t' ?y ?c] 1(3,4) os by auto
    ultimately show ?thesis using solo_go [OF s] by (auto intro: converse_rtranclp_into_rtranclp)
  qed
qed

lemma demo_synced_put:
  assumes "LocalDisk_Put demo_evp demo_id demo_data s = (Returns (Ok ()), s')" "LockFor demo_id \<notin> stripe_locks s" "relock s \<noteq> Relock_blocks"
    "os s = demo_os"
  obtains y c where "(synced_step demo_evp)\<^sup>*\<^sup>* (system_start 1 s, clean) (y, c)" "pool y = [put_ok demo_id]"
    "store_of y = s'" "called y = [Put_start demo_id demo_data]"
proof -
  let ?t = "Put_start demo_id demo_data" and ?y = "system_start 1 s"
  let ?c = "?y\<lparr>pool := [?t], called := [?t]\<rparr>"
  have os: "os_open_dir_ok (os (store_of ?c))" "os_fsync_dir_ok (os (store_of ?c))"
    using assms(4) by (simp_all add: system_start_def demo_os_def)
  have "cached_step demo_evp (?y, clean) (?c, clean)"
    using cached_call [of 0 ?y ?t demo_evp clean] by (simp add: system_start_def)
  then have call: "synced_step demo_evp (?y, clean) (?c, clean)" using os by (simp add: synced_step_def)
  have "solo demo_evp ?t (process ?c) = (put_ok demo_id, \<lparr>shared = s', fds = []\<rparr>)"
    using solo_put [OF assms(1-3)] by (simp add: system_start_def)
  then obtain c' where "(synced_step demo_evp)\<^sup>*\<^sup>* (?c, clean) (?c\<lparr>process := \<lparr>shared = s', fds = []\<rparr>, pool := [put_ok demo_id]\<rparr>, c')"
    using solo_synced [OF _ os, of ?t demo_evp clean] by auto
  from that [OF converse_rtranclp_into_rtranclp [OF call this]] show thesis by simp
qed


definition demo_shards :: LocalDisk where
  "demo_shards = (demo_empty Relock_counts)\<lparr>disk := [([''data''], Dir), ([''data'', substr (id_hex demo_id) 0 2], Dir),
     (ShardDirFor (demo_empty Relock_counts) demo_id, Dir)]\<rparr>"

lemma demo_shards_simps [simp]:
  "data_root demo_shards = [''data'']" "os demo_shards = demo_os" "relock demo_shards = Relock_counts" "stripe_locks demo_shards = {}"
  by (simp_all add: demo_shards_def demo_empty_def)

lemma demo_shards_long: "3 < length p \<Longrightarrow> map_of (disk demo_shards) p = None"
  by (auto simp: demo_shards_def demo_empty_def ShardDirFor_def)

lemma demo_shards_absent: "map_of (disk demo_shards) (FinalPathFor demo_shards cid) = None"
  by (rule demo_shards_long) (simp add: FinalPathFor_def ShardDirFor_def)

lemma demo_shards_ready: "shard_ready demo_shards demo_id"
  by (auto simp: shard_ready_def demo_shards_long tmp_path_for_def ShardDirFor_def demo_shards_def demo_empty_def)

lemma demo_shards_inv: "LocalDisk_inv demo_shards" "verified evp demo_shards"
proof -
  show "verified evp demo_shards" by (simp add: verified_def stored_def demo_shards_absent)
  have "distinct (map fst (disk demo_shards))" by (simp add: demo_shards_def demo_empty_def ShardDirFor_def)
  moreover have "chunk_files [''data''] (disk demo_shards) = []"
    by (simp add: demo_shards_def demo_empty_def ShardDirFor_def)
  moreover have "fs_lookup [''data''] (disk demo_shards) = Some Dir" by (simp add: demo_shards_def fs_lookup_def)
  ultimately show "LocalDisk_inv demo_shards"
    by (simp add: LocalDisk_inv_def total_bytes_def demo_shards_absent) (simp add: demo_shards_def demo_empty_def)
qed

lemma demo_shards_put:
  obtains s' where "LocalDisk_Put demo_evp demo_id demo_data demo_shards = (Returns (Ok ()), s')"
    "map_of (disk s') (FinalPathFor s' demo_id) = Some (File demo_data)" "data_root s' = [''data'']"
proof -
  obtain s' where s': "LocalDisk_Put demo_evp demo_id demo_data demo_shards = (Returns (Ok ()), s')"
    "map_of (disk s') (FinalPathFor s' demo_id) = Some (File demo_data)"
    by (rule Put_fresh [of demo_shards demo_id demo_data demo_evp])
      (simp_all add: demo_shards_inv demo_shards_ready demo_shards_absent, simp_all add: demo_data_def)
  have "data_root s' = data_root demo_shards"
    using Put_root [OF demo_shards_inv(1) demo_id_wf, of demo_evp demo_data] s'(1) by simp
  with that s' show thesis by simp
qed

lemma demo_new_shard:
  "map_of (disk (snd (LocalDisk_Put demo_evp demo_id demo_data (demo_empty Relock_counts)))) [''data'', substr (id_hex demo_id) 0 2] = Some Dir"
  by (simp add: LocalDisk_Put_def with_stripe_def Put_locked_def LocalDisk_Exists_def Put_write_def fs_exists_def fs_create_directories_def
    demo_empty_def demo_os_def posix_open_write_def posix_write_def fs_rename_def ShardDirFor_def FinalPathFor_def update_conv' delete_conv' fs_lookup_def Let_def demo_data_def)

lemma survives_refl: "survives c d d"
  by (simp add: survives_def)

lemma durable_chunk:
  assumes "LocalDisk_inv s" "stripe_locks s = {}" "verified evp s" "os_open_dir_ok (os s)" "os_fsync_dir_ok (os s)"
    "\<forall>q. q \<noteq> [] \<and> prefix q (ShardDirFor s cid) \<longrightarrow> map_of (disk s) q \<noteq> None"
    "(synced_step evp)\<^sup>*\<^sup>* (system_start n s, clean) (y, c)" "put_ok cid \<in> set (pool y)"
    "(synced_step evp)\<^sup>*\<^sup>* (y, c) (z, c')" "Delete_lock cid \<notin> set (called z)" "survives c' (disk (store_of z)) d'"
  shows "\<exists>b. HashBytes evp b = Returns (id_digest cid) \<and> stored (store_of z) cid = Some b \<and>
    map_of d' (FinalPathFor s cid) = Some (File b)"
proof -
  have entry: "entry_inv evp (y, c)" by (rule entry_run.run_keeps [OF assms(7) entry_inv_start [OF assms(1-5)]])
  then have inv: "cache_inv evp (y, c)" "acked_inv evp y" by (simp_all add: entry_inv_def)
  note yz = synced_run_cached [OF assms(9)]
  have inv': "cache_inv evp (z, c')" by (rule cached_run.run_keeps [OF yz inv(1)])
  have wf: "ChunkId_wf cid" using inv(1) assms(8) by (force simp: cache_inv_def history_inv_def system_inv_def thread_defs)
  have del: "Delete_lock cid \<notin> set (called y)" using called_grows [OF cached_run_system [OF yz]] assms(10) by auto
  then obtain b where b: "stored (store_of y) cid = Some b" using inv(2) assms(8) by (auto simp: acked_inv_def)
  have z: "stored (store_of z) cid = Some b"
    using stored_stays [OF cached_run_system [OF yz] _ wf, of b] inv(1) b assms(10) by (simp add: cache_inv_def)
  have root: "FinalPathFor (store_of y) cid = FinalPathFor s cid" "FinalPathFor (store_of z) cid = FinalPathFor s cid"
    using FinalPathFor_root [OF system_root [OF cached_run_system [OF synced_run_cached [OF assms(7)]]]]
      FinalPathFor_root [OF system_root [OF cached_run_system [OF yz]]] by (simp_all add: system_start_def)
  have "FinalPathFor (store_of y) cid \<notin> set (dirty_entries c)" using entry assms(8) del by (simp add: entry_inv_def)
  then have clean_entry: "FinalPathFor s cid \<notin> set (dirty_entries c')"
    using clean_entry_stays [OF yz inv(1) wf b _ assms(10)] root(1) by simp
  have shards: "shards_inv s (store_of z) c'"
    using shards_inv_run [OF rtranclp_trans [OF synced_run_cached [OF assms(7)] yz] cache_inv_start [OF assms(1-3)] shards_inv_start] .
  have "q \<notin> set (dirty_entries c')" if "q \<noteq> []" "prefix q (FinalPathFor s cid)" for q
  proof (cases "q = FinalPathFor s cid")
    case False
    then have q: "prefix q (ShardDirFor s cid)" using that(2) by (auto simp: FinalPathFor_def)
    then have "length q \<le> length (data_root s) + 2" using prefix_length_le [OF q] by (simp add: ShardDirFor_def)
    then show ?thesis using shards assms(6) that(1) q unfolding shards_inv_def by blast
  qed (use clean_entry in simp)
  moreover have bytes: "map_of (disk (store_of z)) (FinalPathFor s cid) = Some (File b)"
    using z root(2) by (auto simp: stored_def split: option.splits node.splits)
  moreover have "FinalPathFor s cid \<notin> set (dirty_data c')"
    using inv' wf bytes root(2) by (auto simp: cache_inv_def chunks_synced_def)
  ultimately have "map_of d' (FinalPathFor s cid) = Some (File b)" using assms(11) unfolding survives_def by blast
  moreover have "hashes_to evp b cid" using inv' wf z by (simp add: cache_inv_def verified_def)
  ultimately show ?thesis using z by blast
qed

section \<open>Theorems\<close>

text \<open>
  C10: Whatever calls run side by side, and whenever the machine fails: a chunk file that is found
  afterwards has bytes that hash to its address. No torn or half-written chunk ever appears.
\<close>

theorem power_failure_leaves_verified_chunks:
  assumes "LocalDisk_inv s" "stripe_locks s = {}" "verified evp s"
    "(cached_step evp)\<^sup>*\<^sup>* (system_start n s, clean) (y, c)" "survives c (disk (store_of y)) d'"
    "ChunkId_wf cid" "map_of d' (FinalPathFor s cid) = Some m"
  shows "\<exists>b. m = File b \<and> HashBytes evp b = Returns (id_digest cid)"
proof -
  have inv: "cache_inv evp (y, c)" by (rule cached_run.run_keeps [OF assms(4) cache_inv_start [OF assms(1-3)]])
  let ?f = "FinalPathFor (store_of y) cid"
  have f: "FinalPathFor s cid = ?f"
    using FinalPathFor_root [OF system_root [OF cached_run_system [OF assms(4)]]] by (simp add: system_start_def)
  from assms(5,7) f consider m' where "map_of (disk (store_of y)) ?f = Some m'" "?f \<notin> set (dirty_data c) \<longrightarrow> m = m'"
    | "(?f, m) \<in> set (dropped_entries c)"
    unfolding survives_def by metis
  then show ?thesis
  proof cases
    case 1
    then have "m = m'" using inv assms(6) by (simp add: cache_inv_def chunks_synced_def)
    then show ?thesis using inv assms(6) 1(1)
      by (cases m') (auto simp: cache_inv_def history_inv_def system_inv_def disk_ok_def verified_def stored_def simp del: map_of_eq_Some_iff)
  next
    case 2
    then show ?thesis using inv assms(6) by (auto simp: cache_inv_def chunks_synced_def)
  qed
qed

theorem power_failure_leaves_verified_chunks_witness:
  "\<exists>y c. (cached_step demo_evp)\<^sup>*\<^sup>* (system_start 1 demo_shards, clean) (y, c) \<and>
     stored (store_of y) demo_id = Some demo_data \<and> HashBytes demo_evp demo_data = Returns (id_digest demo_id)"
proof -
  obtain s' where put: "LocalDisk_Put demo_evp demo_id demo_data demo_shards = (Returns (Ok ()), s')" 
    "map_of (disk s') (FinalPathFor s' demo_id) = Some (File demo_data)" "data_root s' = [''data'']"
    by (rule demo_shards_put)
  from put(1) obtain y c where y: "(synced_step demo_evp)\<^sup>*\<^sup>* (system_start 1 demo_shards, clean) (y, c)" "store_of y = s'"
    by (rule demo_synced_put) simp_all
  have "FinalPathFor demo_shards demo_id = FinalPathFor s' demo_id" using put(3) by (simp add: FinalPathFor_def ShardDirFor_def)
  with put(2) y(2) have "map_of (disk (store_of y)) (FinalPathFor demo_shards demo_id) = Some (File demo_data)" by simp
  from power_failure_leaves_verified_chunks [OF demo_shards_inv(1) _ demo_shards_inv(2) synced_run_cached [OF y(1)] survives_refl demo_id_wf this]
  show ?thesis using put(2) y synced_run_cached [OF y(1)] by (auto simp: stored_def)
qed

text \<open>
  A chunk whose shard directory was there when the store was opened, and whose \<open>Put\<close> has been
  acknowledged, is found after every machine failure, with bytes that hash to its address, as long
  as synchronising directories works and no \<open>Delete\<close> of the chunk is called.
\<close>

theorem acknowledged_put_survives_power_failure:
  assumes "LocalDisk_inv s" "stripe_locks s = {}" "verified evp s" "os_open_dir_ok (os s)" "os_fsync_dir_ok (os s)"
    "\<forall>q. q \<noteq> [] \<and> prefix q (ShardDirFor s cid) \<longrightarrow> map_of (disk s) q \<noteq> None"
    "(synced_step evp)\<^sup>*\<^sup>* (system_start n s, clean) (y, c)" "put_ok cid \<in> set (pool y)"
    "(synced_step evp)\<^sup>*\<^sup>* (y, c) (z, c')" "Delete_lock cid \<notin> set (called z)" "survives c' (disk (store_of z)) d'"
  shows "\<exists>b. HashBytes evp b = Returns (id_digest cid) \<and> stored (store_of z) cid = Some b \<and>
    map_of d' (FinalPathFor s cid) = Some (File b)"
  by (rule durable_chunk [OF assms])

theorem acknowledged_put_survives_power_failure_witness:
  "\<exists>y c b. (synced_step demo_evp)\<^sup>*\<^sup>* (system_start 1 demo_shards, clean) (y, c) \<and> put_ok demo_id \<in> set (pool y) \<and>
     (\<forall>d'. survives c (disk (store_of y)) d' \<longrightarrow> map_of d' (FinalPathFor demo_shards demo_id) = Some (File b))"
proof -
  obtain s' where put: "LocalDisk_Put demo_evp demo_id demo_data demo_shards = (Returns (Ok ()), s')"
    by (rule demo_shards_put)
  then obtain y c where y: "(synced_step demo_evp)\<^sup>*\<^sup>* (system_start 1 demo_shards, clean) (y, c)" "pool y = [put_ok demo_id]"
    "called y = [Put_start demo_id demo_data]"
    by (rule demo_synced_put) simp_all
  have dirs: "\<forall>q. q \<noteq> [] \<and> prefix q (ShardDirFor demo_shards demo_id) \<longrightarrow> map_of (disk demo_shards) q \<noteq> None"
    by (auto simp: ShardDirFor_def prefix_Cons demo_shards_def demo_empty_def)
  have os: "os_open_dir_ok (os demo_shards)" "os_fsync_dir_ok (os demo_shards)" by (simp_all add: demo_os_def)
  have "\<exists>b. stored (store_of y) demo_id = Some b \<and> map_of d' (FinalPathFor demo_shards demo_id) = Some (File b)"
    if "survives c (disk (store_of y)) d'" for d'
    using acknowledged_put_survives_power_failure [OF demo_shards_inv(1) _ demo_shards_inv(2) os dirs y(1) _ rtranclp.rtrancl_refl _ that] y by auto
  then show ?thesis using y survives_refl by (metis list.set_intros(1) option.inject)
qed

text \<open>
  C23: A directory on the way to a chunk that was created since the store was opened is never
  synchronised: at every later moment, acknowledged or not, the chunk can be gone after a machine
  failure.
\<close>

theorem new_shard_directories_are_not_durable:
  assumes "LocalDisk_inv s" "stripe_locks s = {}" "verified evp s"
    "(cached_step evp)\<^sup>*\<^sup>* (system_start n s, clean) (z, c)"
    "q \<noteq> []" "prefix q (ShardDirFor s cid)" "map_of (disk s) q = None" "map_of (disk (store_of z)) q \<noteq> None"
  shows "\<exists>d'. survives c (disk (store_of z)) d' \<and> map_of d' (FinalPathFor s cid) = None"
proof -
  have "shards_inv s (store_of z) c"
    by (rule shards_inv_run [OF assms(4) cache_inv_start [OF assms(1-3)] shards_inv_start])
  then have dirty: "q \<in> set (dirty_entries c)"
    using assms(7,8) prefix_length_le [OF assms(6)] unfolding shards_inv_def by (simp add: ShardDirFor_def)
  let ?d = "filter (\<lambda>(p, n). \<not> prefix q p) (disk (store_of z))"
  have "map_of (filter (\<lambda>(p, n). \<not> prefix q p) d) p = (if prefix q p then None else map_of d p)" for d :: fs and p
    by (induction d) auto
  note lookup = this [of "disk (store_of z)"]
  have "survives c (disk (store_of z)) ?d"
    unfolding survives_def lookup using dirty assms(5) by auto
  moreover have "prefix q (FinalPathFor s cid)" using assms(6) by (auto simp: FinalPathFor_def prefix_def)
  ultimately show ?thesis using lookup by (metis (full_types))
qed

theorem new_shard_directories_are_not_durable_witness:
  "\<exists>y c d'. (cached_step demo_evp)\<^sup>*\<^sup>* (system_start 1 (demo_empty Relock_counts), clean) (y, c) \<and> put_ok demo_id \<in> set (pool y) \<and>
     survives c (disk (store_of y)) d' \<and> map_of d' (FinalPathFor (demo_empty Relock_counts) demo_id) = None"
proof -
  let ?q = "[''data'', substr (id_hex demo_id) 0 2]"
  obtain s' where put: "LocalDisk_Put demo_evp demo_id demo_data (demo_empty Relock_counts) = (Returns (Ok ()), s')"
    by (rule demo_put)
  then obtain y c where y: "(synced_step demo_evp)\<^sup>*\<^sup>* (system_start 1 (demo_empty Relock_counts), clean) (y, c)"
    "pool y = [put_ok demo_id]" "store_of y = s'"
    by (rule demo_synced_put) simp_all
  have "map_of (disk (store_of y)) ?q \<noteq> None" using demo_new_shard put y(3) by simp
  moreover have "prefix ?q (ShardDirFor (demo_empty Relock_counts) demo_id)" "map_of (disk (demo_empty Relock_counts)) ?q = None"
    by (simp_all add: ShardDirFor_def demo_empty_def)
  ultimately show ?thesis
    using new_shard_directories_are_not_durable [OF demo_empty_inv demo_empty_simps(1) demo_verified synced_run_cached [OF y(1)]]
      synced_run_cached [OF y(1)] y(2) by (metis list.distinct(1) list.set_intros(1))
qed

end
