(* ===== verification/Node_Durability.thy ===== *)
theory Node_Durability
  imports Node_Concurrent_Theorems Disk_Durability
begin

text \<open>
  A storage node with many workers on a machine that may fail: the workers of \<open>Node_Workers\<close> with the
  page cache of \<open>Disk_Durability\<close> beside their store. An upload the node has acknowledged is found on
  the disk afterwards.
\<close>

section \<open>The node and the page cache\<close>

text \<open>
  A step of the node, with the cache moving as it does for the step of the store's threads that it
  makes, if it makes one; synchronising directories works throughout.
\<close>

inductive durable_step ::
  "'c EVP \<Rightarrow> uint64 \<Rightarrow> node_system \<times> page_cache \<Rightarrow> node_system \<times> page_cache \<Rightarrow> bool" for evp limit where
  durable: "node_step evp limit y y' \<Longrightarrow> (synced_step evp)\<^sup>=\<^sup>= (silent y, c) (silent y', c') \<Longrightarrow>
     durable_step evp limit (y, c) (y', c')"

inductive_cases durable_stepE: "durable_step evp limit yc yc'"

lemma durable_node_run: "(durable_step evp limit)\<^sup>*\<^sup>* yc yc' \<Longrightarrow> (node_step evp limit)\<^sup>*\<^sup>* (fst yc) (fst yc')"
  by (induction rule: rtranclp_induct) (auto elim!: durable_stepE)

lemma durable_synced_run:
  "(durable_step evp limit)\<^sup>*\<^sup>* yc yc' \<Longrightarrow> (synced_step evp)\<^sup>*\<^sup>* (apfst silent yc) (apfst silent yc')"
proof (induction rule: rtranclp_induct)
  case (step yc' yc'')
  then show ?case by (auto elim!: durable_stepE)
qed simp

section \<open>Every step of the node is one\<close>

abbreviation syncs :: "node_system \<Rightarrow> bool" where
  "syncs y \<equiv> os_open_dir_ok (os (node_store y)) \<and> os_fsync_dir_ok (os (node_store y))"

lemma system_step_synced:
  assumes "system_step evp y y'" "os_open_dir_ok (os (store_of y'))" "os_fsync_dir_ok (os (store_of y'))"
  shows "\<exists>c'. synced_step evp (y, c) (y', c')"
  using assms by (cases rule: system_step.cases) (auto simp: synced_step_def intro: cached_step.intros)

lemma node_step_durable:
  assumes "node_step evp limit y y'" "node_inv limit y" "syncs y'"
  shows "\<exists>c'. durable_step evp limit (y, c) (y', c')"
  using node_step_refines [OF assms(1,2)] system_step_synced [of evp "silent y" "silent y'" c] assms(1,3)
  by (auto intro: durable)

lemma serving_os:
  assumes "serving_step evp limit y y'" "node_inv limit y"
  shows "os (node_store y') = os (node_store y)"
  using assms(1)
proof (cases rule: serving_step.cases)
  case (in_store i fr call)
  then obtain t p where s: "thread_step evp (pool (store_threads y) ! i)
      (switch_log (thread_correlation_id (workers y ! i)) (process (store_threads y))) = Some (t, p)"
    "node_store y' = shared p"
    by (auto simp: store_steps_def Let_def split: option.splits)
  then show ?thesis using step_constants [OF s(1)] by (simp add: switch_log_def)
qed (simp_all add: store_answers_def log_lines_def split: prod.splits)

lemma serving_durable:
  assumes "(serving_step evp limit)\<^sup>*\<^sup>* y y'" "node_inv limit y" "syncs y"
  shows "\<exists>c'. (durable_step evp limit)\<^sup>*\<^sup>* (y, c) (y', c')"
  using assms(1)
proof -
  have "(\<exists>c'. (durable_step evp limit)\<^sup>*\<^sup>* (y, c) (y', c')) \<and> node_inv limit y' \<and> syncs y'"
    using assms(1)
  proof (induction rule: rtranclp_induct)
    case (step u v)
    then obtain c1 where c1: "(durable_step evp limit)\<^sup>*\<^sup>* (y, c) (u, c1)" by blast
    have v: "node_inv limit v" "syncs v"
      using serving_inv [OF step.hyps(2)] serving_os [OF step.hyps(2)] step.IH by simp_all
    obtain c2 where "durable_step evp limit (u, c1) (v, c2)"
      using node_step_durable [OF node_step.serving [OF step.hyps(2)]] step.IH v(2) by blast
    then show ?case using c1 v by (meson rtranclp.rtrancl_into_rtrancl)
  qed (use assms(2,3) in auto)
  then show ?thesis by blast
qed

lemma arrival_os: "asks limit r call \<Longrightarrow> os (node_store (rpc_arrives limit 0 r (node_start 1 s))) = os s"
  using arg_cong [OF alone_arrives(2) [of limit r call s], of "\<lambda>p. os (shared p)"] by (simp add: switch_log_def)

lemma demo_durable_upload:
  obtains y c resp where "(durable_step demo_evp 100)\<^sup>*\<^sup>* (node_start 1 demo_shards, clean) (y, c)"
    "workers y = [\<lparr>thread_correlation_id = [], worker_state = Replied demo_upload (Returns (Reply_PutChunk Status_OK resp))\<rparr>]"
    "putr_status resp = CS_OK" "arrived y = [demo_upload]"
proof -
  have d: "concat [[1], [2, 3]] = demo_data" by (simp add: demo_data_def)
  obtain resp s1 where p: "PutChunk (demo_svc 100) demo_ctx (put_request demo_id 3 [[1], [2, 3]]) demo_shards =
      (Returns (Status_OK, resp), s1)" "putr_status resp = CS_OK"
    by (rule disk_PutChunk_success [of "demo_svc 100" demo_evp demo_shards demo_id "\<lambda>c. c" demo_H "[[1], [2, 3]]" 3 demo_ctx])
       (use demo_evp_computes d demo_shards_inv(1) demo_shards_ready demo_shards_absent in \<open>simp_all add: stored_def demo_data_def\<close>)
  let ?y = "rpc_arrives 100 0 demo_upload (node_start 1 demo_shards)"
  have "serve (disk_service demo_evp 100) demo_upload demo_shards = (Returns (Reply_PutChunk Status_OK resp), s1)"
    using p(1) by (simp add: disk_service_demo)
  moreover have "t_correlation_id (logger demo_shards) = []" by (simp add: demo_shards_def)
  ultimately obtain y where y: "(serving_step demo_evp 100)\<^sup>*\<^sup>* ?y y"
      "workers y = [\<lparr>thread_correlation_id = [], worker_state = Replied demo_upload (Returns (Reply_PutChunk Status_OK resp))\<rparr>]"
    using alone_serves [OF demo_upload_asks, of demo_shards demo_evp] by auto
  have step: "node_step demo_evp 100 (node_start 1 demo_shards) ?y" by (rule alone_arrives(1) [OF demo_upload_asks])
  have os: "syncs ?y" using arrival_os [OF demo_upload_asks, of demo_shards] by (simp add: demo_os_def)
  obtain c1 where c1: "durable_step demo_evp 100 (node_start 1 demo_shards, clean) (?y, c1)"
    using node_step_durable [OF step node_inv_start os] by blast
  obtain c where "(durable_step demo_evp 100)\<^sup>*\<^sup>* (?y, c1) (y, c)"
    using serving_durable [OF y(1) node_inv_step [OF step node_inv_start] os] by blast
  from that [OF converse_rtranclp_into_rtranclp [OF c1 this] y(2) p(2)] show thesis
    using serving_arrived [OF y(1)] unfolding demo_upload_arrives .
qed

section \<open>The theorem\<close>

text \<open>
  C2: With any number of RPCs running at the same time, on a machine that may fail at any moment: when
  a worker has replied OK to an upload of a chunk whose shard directories were there when the node
  was started, and no \<open>DeleteChunk\<close> for the same id comes in, then the chunk is on every disk that may
  be found after the failure, with bytes that hash to its id, provided that synchronising
  directories works.
\<close>

theorem acknowledged_upload_survives_power_failure:
  assumes "LocalDisk_inv s" "stripe_locks s = {}" "verified evp s" "os_open_dir_ok (os s)" "os_fsync_dir_ok (os s)"
    "(durable_step evp limit)\<^sup>*\<^sup>* (node_start n s, clean) (y, c)"
    "w \<in> set (workers y)" "worker_state w = Replied r (Returns q)" "acknowledges q"
    "(durable_step evp limit)\<^sup>*\<^sup>* (y, c) (z, c')" "survives c' (disk (node_store z)) d'"
  shows "\<exists>cid payload. asks limit r (Call_Put cid payload) \<and>
    ((\<forall>dir. dir \<noteq> [] \<and> prefix dir (ShardDirFor s cid) \<longrightarrow> map_of (disk s) dir \<noteq> None) \<longrightarrow>
     (\<forall>dctx request. Rpc_DeleteChunk dctx request \<in> set (arrived z) \<longrightarrow> Parse (del_chunk_id request) \<noteq> Ok cid) \<longrightarrow>
     (\<exists>b. HashBytes evp b = Returns (id_digest cid) \<and> map_of d' (FinalPathFor s cid) = Some (File b)))"
proof -
  note run = durable_node_run [OF assms(6), simplified] durable_node_run [OF assms(10), simplified]
  let ?s = "s\<lparr>logger := mute\<rparr>"
  have synced: "(synced_step evp)\<^sup>*\<^sup>* (system_start n ?s, clean) (silent y, c)" "(synced_step evp)\<^sup>*\<^sup>* (silent y, c) (silent z, c')"
    using durable_synced_run [OF assms(6)] durable_synced_run [OF assms(10)] by (simp_all add: silent_start)
  have inv: "node_inv limit y" by (rule node_run(1) [OF run(1)])
  obtain i where i: "i < length (workers y)" "workers y ! i = w" using assms(7) by (auto simp: in_set_conv_nth)
  note ok = worker_okD [OF inv i(1), unfolded i(2)]
  obtain cid payload where ask: "asks limit r (Call_Put cid payload)" and t: "pool (store_threads y) ! i = put_ok cid"
    by (rule acknowledged_thread [OF ok(1) assms(8,9)])
  have "put_ok cid \<in> set (pool (silent y))" using t nth_mem [OF ok(2)] by simp
  note kept = durable_chunk [OF _ _ _ _ _ _ synced(1) this synced(2), of d']
  have "calls_arrived limit z" using node_refines.run_keeps [OF run(2) inv] by (simp add: node_inv_def)
  note deleted = deletes_arrived [OF this, of cid]
  have "\<exists>b. HashBytes evp b = Returns (id_digest cid) \<and> map_of d' (FinalPathFor s cid) = Some (File b)"
    if "\<forall>dir. dir \<noteq> [] \<and> prefix dir (ShardDirFor s cid) \<longrightarrow> map_of (disk s) dir \<noteq> None"
      "\<forall>dctx request. Rpc_DeleteChunk dctx request \<in> set (arrived z) \<longrightarrow> Parse (del_chunk_id request) \<noteq> Ok cid"
  proof -
    have "Delete_lock cid \<notin> set (called (store_threads z))" using deleted that(2) by blast
    then show ?thesis using kept assms(1-5,11) that(1) by auto
  qed
  with ask show ?thesis by blast
qed

theorem acknowledged_upload_survives_power_failure_witness:
  "\<exists>y c. (durable_step demo_evp 100)\<^sup>*\<^sup>* (node_start 1 demo_shards, clean) (y, c) \<and>
     (\<forall>d'. survives c (disk (node_store y)) d' \<longrightarrow>
        (\<exists>b. HashBytes demo_evp b = Returns (id_digest demo_id) \<and> map_of d' (FinalPathFor demo_shards demo_id) = Some (File b)))"
proof -
  obtain y c resp where y: "(durable_step demo_evp 100)\<^sup>*\<^sup>* (node_start 1 demo_shards, clean) (y, c)"
    "workers y = [\<lparr>thread_correlation_id = [], worker_state = Replied demo_upload (Returns (Reply_PutChunk Status_OK resp))\<rparr>]"
    "putr_status resp = CS_OK" "arrived y = [demo_upload]"
    by (rule demo_durable_upload)
  have dirs: "\<forall>q. q \<noteq> [] \<and> prefix q (ShardDirFor demo_shards demo_id) \<longrightarrow> map_of (disk demo_shards) q \<noteq> None"
    by (auto simp: ShardDirFor_def prefix_Cons demo_shards_def demo_empty_def)
  have "\<exists>b. HashBytes demo_evp b = Returns (id_digest demo_id) \<and> map_of d' (FinalPathFor demo_shards demo_id) = Some (File b)"
    if s: "survives c (disk (node_store y)) d'" for d'
  proof -
    have "\<exists>cid payload. asks 100 demo_upload (Call_Put cid payload) \<and>
       ((\<forall>dir. dir \<noteq> [] \<and> prefix dir (ShardDirFor demo_shards cid) \<longrightarrow> map_of (disk demo_shards) dir \<noteq> None) \<longrightarrow>
        (\<forall>dctx request. Rpc_DeleteChunk dctx request \<in> set (arrived y) \<longrightarrow> Parse (del_chunk_id request) \<noteq> Ok cid) \<longrightarrow>
        (\<exists>b. HashBytes demo_evp b = Returns (id_digest cid) \<and> map_of d' (FinalPathFor demo_shards cid) = Some (File b)))"
      by (rule acknowledged_upload_survives_power_failure [OF demo_shards_inv(1) _ demo_shards_inv(2) _ _ y(1) _ _ _ rtranclp.rtrancl_refl s,
            where w = "hd (workers y)" and q = "Reply_PutChunk Status_OK resp"])
         (use y(2,3) in \<open>simp_all add: demo_os_def\<close>)
    then obtain cid payload where a: "asks 100 demo_upload (Call_Put cid payload)"
      "(\<forall>dir. dir \<noteq> [] \<and> prefix dir (ShardDirFor demo_shards cid) \<longrightarrow> map_of (disk demo_shards) dir \<noteq> None) \<longrightarrow>
       (\<forall>dctx request. Rpc_DeleteChunk dctx request \<in> set (arrived y) \<longrightarrow> Parse (del_chunk_id request) \<noteq> Ok cid) \<longrightarrow>
       (\<exists>b. HashBytes demo_evp b = Returns (id_digest cid) \<and> map_of d' (FinalPathFor demo_shards cid) = Some (File b))"
      by blast
    then show ?thesis using demo_upload_only [OF a(1)] dirs y(4) by simp
  qed
  with y(1) show ?thesis by blast
qed

end
