(* ===== verification/Greeter.thy ===== *)
theory Greeter
  imports Protocol_Version
begin

text \<open>
  \<^verbatim>\<open>services/greeter_demo/greeter_server_main.cpp\<close>: the demonstration service and the conversation of
  \<^verbatim>\<open>greeter_client_main.cpp\<close> with it. The state of the service is its logger.
\<close>

record HelloRequest =
  hello_protocol_version :: uint32
  hello_name :: string

record HelloResponse =
  hellor_protocol_version :: uint32
  hellor_message :: string

definition own_logger :: "Logger logger_ref" where
  "own_logger = \<lparr>deref = (\<lambda>lg. lg), modify = (\<lambda>f. f)\<rparr>"

definition SayHello :: "ServerContext \<Rightarrow> HelloRequest \<Rightarrow> Logger \<Rightarrow> (grpc_Status \<times> HelloResponse) run \<times> Logger" where
  "SayHello sctx request lg =
     correlation_scope own_logger (GetCorrelationId sctx 0) (\<lambda>lg.
       let reply = \<lparr>hellor_protocol_version = 0, hellor_message = []\<rparr>;
           lg = Logger_Info (''Received SayHello request from '' @ hello_name request) lg
       in if \<not> IsOk (CheckProtocolVersion (hello_protocol_version request) kCurrentProtocolVersion kCurrentProtocolVersion)
          then (Returns (Status FAILED_PRECONDITION ''Unsupported protocol version'', reply),
                Logger_Warn ''Protocol version mismatch'' lg)
          else (Returns (Status_OK, \<lparr>hellor_protocol_version = kCurrentProtocolVersion,
                   hellor_message = ''Hello, '' @ hello_name request @ ''! (from greeter_server)''\<rparr>),
                Logger_Info ''Sending SayHello reply'' lg)) lg"

text \<open>
  The client: it sends one request under a fresh correlation id and logs what comes back; the
  first component is the line it prints. \<open>call\<close> is the server as the stub reaches it.
\<close>

definition greeter_client ::
  "string \<Rightarrow> string \<Rightarrow> ((string \<times> string) list \<Rightarrow> HelloRequest \<Rightarrow> grpc_Status \<times> HelloResponse) \<Rightarrow>
   Logger \<Rightarrow> string run \<times> Logger" where
  "greeter_client target_address correlation_id call lg =
     (let lg = Logger_Info (''Client connecting to '' @ target_address) lg;
          request = \<lparr>hello_protocol_version = kCurrentProtocolVersion, hello_name = ''NimbusFS-Client''\<rparr>
      in correlation_scope own_logger correlation_id (\<lambda>lg.
           let lg = Logger_Info ''Sending SayHello request'' lg;
               (status, reply) = call [(kCorrelationIdMetadataKey, correlation_id)] request
           in if error_code status = GRPC_OK
              then (Returns (''Greeter received: '' @ hellor_message reply),
                    Logger_Info (''Received reply: '' @ hellor_message reply) lg)
              else (Returns (''RPC failed. Error: '' @ error_message status),
                    Logger_Error (''RPC failed: '' @ error_message status) lg)) lg)"

text \<open>
  The messages a call adds to the operational log of a logger whose channel is \<open>l\<close>.
\<close>

definition with_messages :: "spd_logger \<Rightarrow> (spd_level \<times> string) list \<Rightarrow> Logger \<Rightarrow> Logger" where
  "with_messages l msgs lg = lg\<lparr>op_logger := Some (l\<lparr>spd_messages := spd_messages l @ msgs\<rparr>)\<rparr>"

text \<open>
  A call of the current version is answered with the greeting, every other version with
  \<^verbatim>\<open>FAILED_PRECONDITION\<close>; either way the logger is handed exactly two lines, both marked with the correlation id of
  the call, and the id in force before the call is restored.
\<close>

theorem SayHello_logs_under_correlation_id:
  assumes "op_logger lg = Some l" "map_of (client_metadata sctx) kCorrelationIdMetadataKey = Some cid" "cid \<noteq> []"
  shows "SayHello sctx request lg =
     (if hello_protocol_version request = 1
      then (Returns (Status_OK, \<lparr>hellor_protocol_version = 1,
              hellor_message = ''Hello, '' @ hello_name request @ ''! (from greeter_server)''\<rparr>),
            with_messages l [(spd_info, ''['' @ cid @ ''] Received SayHello request from '' @ hello_name request),
                             (spd_info, ''['' @ cid @ ''] Sending SayHello reply'')] lg)
      else (Returns (Status FAILED_PRECONDITION ''Unsupported protocol version'',
              \<lparr>hellor_protocol_version = 0, hellor_message = []\<rparr>),
            with_messages l [(spd_info, ''['' @ cid @ ''] Received SayHello request from '' @ hello_name request),
                             (spd_warn, ''['' @ cid @ ''] Protocol version mismatch'')] lg))"
  using assms CheckProtocolVersion_current [of "hello_protocol_version request"]
  by (simp add: SayHello_def correlation_scope_def own_logger_def WithCorrelationId_def ScopedCorrelationId_dtor_def
      GetCorrelationId_def Logger_log_def FormatOpMessage_def FormatFields_def spd_log_def with_messages_def
      kCurrentProtocolVersion_def Let_def)

definition greeter_logger :: Logger where
  "greeter_logger = \<lparr>op_logger = Some \<lparr>spd_name = ''greeter'', spd_sinks = [], spd_pattern = [],
     spd_threshold = spd_info, spd_messages = []\<rparr>, audit_logger = None, component_name = ''greeter'',
     t_correlation_id = ''outer''\<rparr>"

theorem SayHello_logs_under_correlation_id_witness:
  "t_correlation_id (snd (SayHello \<lparr>client_metadata = [(kCorrelationIdMetadataKey, ''c-1'')],
      uuids = (\<lambda>_. []), duration_ms = 0\<rparr> \<lparr>hello_protocol_version = 1, hello_name = ''Ada''\<rparr> greeter_logger)) = ''outer''"
  using SayHello_logs_under_correlation_id [of greeter_logger "the (op_logger greeter_logger)"
      "\<lparr>client_metadata = [(kCorrelationIdMetadataKey, ''c-1'')], uuids = (\<lambda>_. []), duration_ms = 0\<rparr>" "''c-1''"
      "\<lparr>hello_protocol_version = 1, hello_name = ''Ada''\<rparr>"]
  by (simp add: greeter_logger_def with_messages_def)

text \<open>
  End to end: the client's request is served by the server under the correlation id the client
  generated, and the client prints the greeting.
\<close>

theorem greeter_conversation:
  "fst (greeter_client addr cid (\<lambda>md req.
      case fst (SayHello (sctx\<lparr>client_metadata := md\<rparr>) req slg) of
        Returns (st, reply) \<Rightarrow> (st, reply)
      | _ \<Rightarrow> (Status (GRPC_CODE 14) ''unavailable'', \<lparr>hellor_protocol_version = 0, hellor_message = []\<rparr>)) lg) =
   Returns ''Greeter received: Hello, NimbusFS-Client! (from greeter_server)''"
  by (simp add: greeter_client_def SayHello_def correlation_scope_def own_logger_def WithCorrelationId_def
      CheckProtocolVersion_def kCurrentProtocolVersion_def Let_def)

end
