(* ===== verification/Node_Process.thy ===== *)
theory Node_Process
  imports Disk_Concurrent Storage_Node_Theorems Greeter
begin

text \<open>
  The processes: \<^verbatim>\<open>services/storage_node/src/main.cpp\<close>, the \<^verbatim>\<open>main\<close> of
  \<^verbatim>\<open>services/greeter_demo/greeter_server_main.cpp\<close> and the placeholder programs. \<open>node_main_start\<close> is
  \<^verbatim>\<open>main\<close> of the storage node up to its waiting loop, \<open>main_turn\<close> one turn of that loop with what
  follows it, and \<open>process_step\<close> interleaves the turns with remote calls, signals and the operating
  system.

  \<^verbatim>\<open>main\<close> calls members of \<^verbatim>\<open>Config\<close> and \<^verbatim>\<open>Logger\<close> that the sources do not declare; they are the
  record parameter \<open>node_api\<close>, together with gRPC's \<^verbatim>\<open>BuildAndStart\<close> (does a server come up for these
  settings?) and the resolution of a path by the operating system. An exception that leaves \<^verbatim>\<open>main\<close>
  terminates the process.
\<close>

section \<open>The storage node process\<close>

record ServerBuilder =
  listening_port :: string
  max_message_size :: int
  max_receive_message_size :: int
  max_send_message_size :: int
  max_threads :: int

record 'c node_api =
  Config_Load :: "string \<Rightarrow> ('c, string) Result"
  GetNodeString :: "'c \<Rightarrow> string \<Rightarrow> string option"
  GetNodeInt :: "'c \<Rightarrow> string \<Rightarrow> int option"
  GetClusterInt :: "'c \<Rightarrow> string \<Rightarrow> int option"
  open_logger :: "string \<Rightarrow> string \<Rightarrow> Logger run"
  fs_path :: "string \<Rightarrow> path"
  BuildAndStart :: "ServerBuilder \<Rightarrow> bool"

text \<open>
  A process that serves has its service object, the store with the logger inside it, and the flag
  \<^verbatim>\<open>g_shutdown_requested\<close>. One that exited left an exit code, what it wrote to the error stream and
  the store as it was last, if one was opened.
\<close>

datatype node_process =
    Node_serving "LocalDisk StorageNodeService" LocalDisk bool
  | Node_exited int string "LocalDisk option"
  | Node_terminated cxx_exception
  | Node_blocked

definition value_or :: "'a option \<Rightarrow> 'a \<Rightarrow> 'a" where
  "value_or v dflt = (case v of Some a \<Rightarrow> a | None \<Rightarrow> dflt)"

definition node_builder :: "string \<Rightarrow> int \<Rightarrow> ServerBuilder" where
  "node_builder server_address thread_pool_size =
     \<lparr>listening_port = server_address, max_message_size = 4 * 1024 * 1024 + 1024,
      max_receive_message_size = 4 * 1024 * 1024 + 1024, max_send_message_size = 4 * 1024 * 1024 + 1024,
      max_threads = thread_pool_size\<rparr>"

text \<open>\<open>requested\<close> is whether a signal arrived while \<^verbatim>\<open>main\<close> was starting up.\<close>

definition node_main_start ::
  "'c node_api \<Rightarrow> 'e EVP \<Rightarrow> relock_behaviour \<Rightarrow> os_answers \<Rightarrow> fs \<Rightarrow> string list \<Rightarrow> bool \<Rightarrow> node_process" where
  "node_main_start api evp rl osa d argv requested =
     (let config_path = (if length argv > 1 then argv ! 1 else ''config.json'')
      in case Config_Load api config_path of
        Err e \<Rightarrow> Node_exited 1 (''Failed to load config: '' @ e @ [CHR 0x0A]) None
      | Ok config \<Rightarrow>
      (case open_logger api ''logs/storage_node.log'' ''logs/storage_node_audit.log'' of
        Throws e \<Rightarrow> Node_terminated e
      | Blocks \<Rightarrow> Node_blocked
      | Returns lg \<Rightarrow>
      let data_dir = value_or (GetNodeString api config ''data_directory'') ''/var/lib/nimbusfs/data''
      in case LocalDisk_new rl osa d (fs_path api data_dir) lg of
        Throws e \<Rightarrow> Node_terminated e
      | Blocks \<Rightarrow> Node_blocked
      | Returns s \<Rightarrow>
      let service = StorageNodeService_new (LocalDisk_vtable evp) LocalDisk_log
            (GetClusterInt api config ''max_chunk_bytes'');
          server_address = value_or (GetNodeString api config ''listen_address'') ''0.0.0.0:50051'';
          thread_pool_size = value_or (GetNodeInt api config ''grpc_thread_pool_size'') 8
      in if \<not> BuildAndStart api (node_builder server_address thread_pool_size) then
           Node_exited 1 [] (Some (log_with (Logger_Error (''Failed to bind to '' @ server_address)) s))
         else
           Node_serving service
             (log_with (Logger_Info (''Storage Node listening on '' @ server_address @
                '' with thread pool size '' @ to_string thread_pool_size)) s) requested))"

definition SignalHandler :: "node_process \<Rightarrow> node_process" where
  "SignalHandler n = (case n of Node_serving svc s requested \<Rightarrow> Node_serving svc s True | _ \<Rightarrow> n)"

text \<open>One look at the flag: sleep again, or shut down and return.\<close>

definition main_turn :: "node_process \<Rightarrow> node_process" where
  "main_turn n = (case n of
      Node_serving svc s requested \<Rightarrow>
        if \<not> requested then n
        else Node_exited 0 [] (Some
          (log_with (Logger_Info ''Shutdown complete.'')
            (log_with (Logger_Info ''Shutdown requested. Gracefully shutting down gRPC server...'') s)))
    | _ \<Rightarrow> n)"

inductive process_step :: "node_process \<Rightarrow> node_process \<Rightarrow> bool" where
  node_rpc: "rpc_step svc s s' \<Longrightarrow> process_step (Node_serving svc s requested) (Node_serving svc s' requested)"
| node_signal: "process_step n (SignalHandler n)"
| node_turn: "process_step n (main_turn n)"
| node_os: "uuid_wf (os_uuid osa) \<Longrightarrow> os_stat_ok osa \<Longrightarrow>
     process_step (Node_serving svc s requested) (Node_serving svc (s\<lparr>os := osa\<rparr>) requested)"

inductive_cases process_stepE: "process_step n n'"

section \<open>The other programs\<close>

text \<open>
  The demonstration server. \<open>listen\<close> is the configured address, if any; a server that did not come
  up is a null pointer, and waiting on it is undefined behaviour: the value \<open>None\<close>.
\<close>

definition greeter_server_main :: "string option \<Rightarrow> (string \<Rightarrow> bool) \<Rightarrow> Logger \<Rightarrow> int run option \<times> Logger" where
  "greeter_server_main listen build lg =
     (let server_address = value_or listen ''0.0.0.0:50051'';
          server = build server_address;
          lg = Logger_Info (''Server listening on '' @ server_address) lg
      in (if server then Some Blocks else None, lg))"

text \<open>The placeholders print a banner with the version numbers of the generated header.\<close>

definition banner :: "string \<Rightarrow> int \<times> int \<times> int \<Rightarrow> string \<times> int" where
  "banner program version = (case version of (major, minor, patch) \<Rightarrow>
     (''NimbusFS '' @ program @ '' v'' @ to_string major @ ''.'' @ to_string minor @ ''.'' @ to_string patch @
      '' starting...'' @ [CHR 0x0A], 0))"

definition coordinator_main :: "int \<times> int \<times> int \<Rightarrow> string \<times> int" where
  "coordinator_main = banner ''Coordinator''"

definition metadata_service_main :: "int \<times> int \<times> int \<Rightarrow> string \<times> int" where
  "metadata_service_main = banner ''Metadata Service''"

definition nimbus_cli_main :: "int \<times> int \<times> int \<Rightarrow> string \<times> int" where
  "nimbus_cli_main = banner ''CLI''"

definition nimbus_syncd_main :: "int \<times> int \<times> int \<Rightarrow> string \<times> int" where
  "nimbus_syncd_main = banner ''Sync Daemon''"

section \<open>Lemmas\<close>

text \<open>The store a process has open, or had open last.\<close>

definition process_store :: "node_process \<Rightarrow> LocalDisk option" where
  "process_store n = (case n of Node_serving svc s requested \<Rightarrow> Some s | Node_exited c e st \<Rightarrow> st | _ \<Rightarrow> None)"

text \<open>A process whose store is sound and whose service is the one \<^verbatim>\<open>main\<close> builds.\<close>

definition process_inv :: "'e EVP \<Rightarrow> path \<Rightarrow> node_process \<Rightarrow> bool" where
  "process_inv evp root n \<longleftrightarrow>
     (\<forall>s. process_store n = Some s \<longrightarrow> LocalDisk_inv s \<and> verified evp s \<and> data_root s = root) \<and>
     (case n of Node_serving svc s requested \<Rightarrow>
        svc_store svc = LocalDisk_vtable evp \<and> service_logger svc = LocalDisk_log | _ \<Rightarrow> True)"

lemma verified_frame [simp]:
  "verified evp (log_with f s) = verified evp s" "verified evp (s\<lparr>os := osa\<rparr>) = verified evp s"
  by (simp_all add: verified_def)

lemma LocalDisk_inv_disk_ok: "LocalDisk_inv s \<Longrightarrow> disk_ok s"
  by (simp add: LocalDisk_inv_def disk_ok_def del: map_of_eq_Some_iff)

text \<open>
  The laws of the disk store hold with its root directory fixed, so what the locale shows of remote
  calls holds with the root fixed too.
\<close>

interpretation rooted_disk: chunk_store "LocalDisk_vtable evp" "HashBytes evp" stored
    "\<lambda>s. LocalDisk_inv s \<and> data_root s = root"
  for evp :: "'c EVP" and root
proof (unfold_locales, goal_cases)
  case (1 s cid d s')
  then show ?case using local_disk.get_content by blast
next
  case (2 s cid)
  then show ?case using local_disk.get_frame [of s evp cid] quiet_snd(1) [of s evp cid] by (simp add: quiet_root)
next
  case (3 s cid)
  then show ?case using local_disk.verify_frame [of s evp cid] quiet_snd(2) [of s evp cid] by (simp add: quiet_root)
next
  case (4 s cid)
  then show ?case using local_disk.exists_frame [of s evp cid] quiet_snd(3) [of s "[]" cid] by (simp add: quiet_root)
next
  case (5 s)
  then show ?case by simp
next
  case (6 s)
  then show ?case by simp
next
  case (7 s cid d)
  then show ?case using local_disk.put_inv [of s cid evp d] Put_root [of s cid evp d] by simp
next
  case (8 s cid x d s')
  then show ?case using local_disk.put_ok [of s cid x evp d s'] by blast
next
  case (9 s cid x d r s')
  then show ?case using local_disk.put_not_ok [of s cid x evp d r s'] by blast
next
  case (10 s cid)
  then show ?case using local_disk.delete_inv [of s cid evp] Delete_root [of cid s] by simp
next
  case (11 s cid x r s')
  then show ?case using local_disk.delete_content [of s cid x evp r s'] by blast
qed

interpretation rooted_node: storage_node "LocalDisk_vtable evp" "HashBytes evp" stored
    "\<lambda>s. LocalDisk_inv s \<and> data_root s = root" LocalDisk_log
  for evp :: "'c EVP" and root
  by unfold_locales (simp_all add: LocalDisk_log_def)

lemma process_inv_step:
  assumes "process_step n n'" "process_inv evp root n"
  shows "process_inv evp root n'"
  using assms(1)
proof (cases rule: process_step.cases)
  case (node_rpc svc s s' requested)
  have s: "svc_store svc = LocalDisk_vtable evp" "service_logger svc = LocalDisk_log"
    "LocalDisk_inv s \<and> data_root s = root" "verified evp s"
    using assms(2) node_rpc(1) by (auto simp: process_inv_def process_store_def)
  have run: "(rpc_step svc)\<^sup>*\<^sup>* s s'" using node_rpc(3) by simp
  have start: "\<And>x d. ChunkId_wf x \<Longrightarrow> stored s x = Some d \<Longrightarrow> hashes_to evp d x"
    using s(4) by (simp add: verified_def)
  note sound = rooted_node.rpc_run_sound [OF run conjI [OF s(1,2)] s(3) start]
  have "LocalDisk_inv s' \<and> data_root s' = root" by (rule sound(1))
  moreover have "verified evp s'" unfolding verified_def using sound(2) by blast
  ultimately show ?thesis using s(1,2) unfolding node_rpc(2) process_inv_def process_store_def node_process.case by blast
next
  case node_signal
  then show ?thesis using assms(2) by (cases n) (simp_all add: process_inv_def process_store_def SignalHandler_def)
next
  case node_turn
  then show ?thesis using assms(2) by (cases n) (simp_all add: process_inv_def process_store_def main_turn_def)
next
  case (node_os osa svc s requested)
  have "LocalDisk_inv (s\<lparr>os := osa\<rparr>)" if "LocalDisk_inv s"
    using that node_os(3,4) by (simp add: LocalDisk_inv_def FinalPathFor_def ShardDirFor_def del: map_of_eq_Some_iff)
  then show ?thesis using assms(2) node_os(1,2) by (simp add: process_inv_def process_store_def)
qed

interpretation process_run: step_invariant process_step "process_inv evp root" for evp root
  by unfold_locales (rule process_inv_step)

text \<open>The store that start-up leaves behind is the one the constructor opened, with a log line.\<close>

lemma node_main_start_store:
  assumes "process_store (node_main_start api evp rl osa d argv requested) = Some s"
  obtains config lg s0 f where "Config_Load api (if length argv > 1 then argv ! 1 else ''config.json'') = Ok config"
    "LocalDisk_new rl osa d (fs_path api (value_or (GetNodeString api config ''data_directory'') ''/var/lib/nimbusfs/data'')) lg = Returns s0"
    "s = log_with f s0"
  using assms
  by (auto simp: node_main_start_def process_store_def Let_def split: Result.splits run.splits if_splits)

lemma restart_new:
  assumes "LocalDisk_inv s" "LocalDisk_new rl osa (disk s) (data_root s) lg = Returns s'"
    "os_stat_ok osa" "uuid_wf (os_uuid osa)"
  shows "LocalDisk_inv s' \<and> stored s' = stored s \<and> data_root s' = data_root s"
proof -
  have "os_iterate_ok osa"
    using assms by (auto simp: LocalDisk_new_def Let_def fs_exists_def fs_iterate_def LocalDisk_inv_def split: if_splits)
  then obtain s1 where "LocalDisk_new rl osa (disk s) (data_root s) lg = Returns s1" "LocalDisk_inv s1" "stored s1 = stored s"
    using restart_inv [OF LocalDisk_inv_disk_ok [OF assms(1)] assms(3,4)] by metis
  moreover have "data_root s' = data_root s"
    using assms(2) by (auto simp: LocalDisk_new_def Let_def split: if_splits option.splits prod.splits)
  ultimately show ?thesis using assms(2) by simp
qed

lemma LocalDisk_new_root: "LocalDisk_new rl osa d root lg = Returns s \<Longrightarrow> data_root s = root"
  by (auto simp: LocalDisk_new_def Let_def split: if_splits option.splits prod.splits)

lemma start_process_inv:
  assumes "fs_wf d" "\<forall>p. \<not> (is_chunk_path (data_root s) p \<and> map_of d p = Some Dir)" "uuid_wf (os_uuid osa)" "os_stat_ok osa"
    "process_store (node_main_start api evp rl osa d argv requested) = Some s" "verified evp s"
  shows "process_inv evp (data_root s) (node_main_start api evp rl osa d argv requested)"
proof -
  obtain config lg s0 f where c: "Config_Load api (if length argv > 1 then argv ! 1 else ''config.json'') = Ok config"
    "LocalDisk_new rl osa d (fs_path api (value_or (GetNodeString api config ''data_directory'') ''/var/lib/nimbusfs/data'')) lg = Returns s0"
    "s = log_with f s0"
    by (rule node_main_start_store [OF assms(5)])
  have "LocalDisk_inv s0"
    using LocalDisk_new_establishes(1) [OF c(2) assms(1) _ assms(3,4)] assms(2) c(3) LocalDisk_new_root [OF c(2)] by auto
  moreover have "svc_store svc = LocalDisk_vtable evp \<and> service_logger svc = LocalDisk_log"
    if "node_main_start api evp rl osa d argv requested = Node_serving svc t r" for svc t r
    using that by (auto simp: node_main_start_def Let_def StorageNodeService_new_def
        split: Result.splits run.splits if_splits simp del: LocalDisk_vtable_def)
  ultimately show ?thesis using assms(5,6) c(3) unfolding process_inv_def by (auto split: node_process.splits simp del: LocalDisk_vtable_def)
qed

section \<open>Theorems\<close>

text \<open>
  C17: A storage node process that starts on a sound disk, serves any remote calls, is stopped by a
  signal (or fails to bind its port) and is started again with the same configuration has exactly
  the chunks it had, each of them verified, with exact counters.
\<close>

theorem node_restart_keeps_chunks:
  assumes "fs_wf d" "\<forall>p. \<not> (is_chunk_path (data_root s0) p \<and> map_of d p = Some Dir)" "uuid_wf (os_uuid osa)" "os_stat_ok osa"
    "process_store (node_main_start api evp rl osa d argv r1) = Some s0" "verified evp s0"
    "process_step\<^sup>*\<^sup>* (node_main_start api evp rl osa d argv r1) n" "process_store n = Some s"
    "os_stat_ok osa'" "uuid_wf (os_uuid osa')"
    "process_store (node_main_start api evp rl osa' (disk s) argv r2) = Some s'"
  shows "stored s' = stored s \<and> verified evp s' \<and> LocalDisk_inv s'"
proof -
  note inv = start_process_inv [OF assms(1,2,3,4,5,6)]
  have s: "LocalDisk_inv s" "verified evp s" "data_root s = data_root s0"
    using process_run.run_keeps [OF assms(7) inv] assms(8) by (auto simp: process_inv_def)
  obtain config lg0 t0 f0 where c: "Config_Load api (if length argv > 1 then argv ! 1 else ''config.json'') = Ok config"
    "LocalDisk_new rl osa d (fs_path api (value_or (GetNodeString api config ''data_directory'') ''/var/lib/nimbusfs/data'')) lg0 = Returns t0"
    "s0 = log_with f0 t0"
    by (rule node_main_start_store [OF assms(5)])
  obtain config' lg t f where c': "Config_Load api (if length argv > 1 then argv ! 1 else ''config.json'') = Ok config'"
    "LocalDisk_new rl osa' (disk s) (fs_path api (value_or (GetNodeString api config' ''data_directory'') ''/var/lib/nimbusfs/data'')) lg = Returns t"
    "s' = log_with f t"
    by (rule node_main_start_store [OF assms(11)])
  have "config' = config" using c(1) c'(1) by simp
  then have "LocalDisk_new rl osa' (disk s) (data_root s) lg = Returns t"
    using c'(2) s(3) c(3) LocalDisk_new_root [OF c(2)] by simp
  from restart_new [OF s(1) this assms(9,10)] show ?thesis using c'(3) s(2) by (simp add: verified_def)
qed

text \<open>A configuration that leaves everything to the defaults, on an empty disk.\<close>

definition demo_api :: "unit node_api" where
  "demo_api = \<lparr>Config_Load = (\<lambda>_. Ok ()), GetNodeString = (\<lambda>_ _. None), GetNodeInt = (\<lambda>_ _. None),
     GetClusterInt = (\<lambda>_ _. None), open_logger = (\<lambda>_ _. Returns demo_logger), fs_path = (\<lambda>_. [''data'']),
     BuildAndStart = (\<lambda>_. True)\<rparr>"

lemma demo_start:
  obtains svc s f where "node_main_start demo_api demo_evp Relock_counts demo_os [] [''storage_node''] False = Node_serving svc s False"
    "s = log_with f (demo_empty Relock_counts)"
  by (simp add: node_main_start_def demo_api_def value_or_def demo_new)

theorem node_restart_keeps_chunks_witness:
  "\<exists>s s'. process_store (node_main_start demo_api demo_evp Relock_counts demo_os [] [''storage_node''] False) = Some s \<and>
     process_store (node_main_start demo_api demo_evp Relock_counts demo_os (disk s) [''storage_node''] False) = Some s' \<and>
     stored s' = stored s"
proof -
  obtain svc s f where start: "node_main_start demo_api demo_evp Relock_counts demo_os [] [''storage_node''] False = Node_serving svc s False"
    "s = log_with f (demo_empty Relock_counts)" by (rule demo_start)
  then have store: "process_store (node_main_start demo_api demo_evp Relock_counts demo_os [] [''storage_node''] False) = Some s"
    by (simp add: process_store_def)
  have "disk s = disk (demo_empty Relock_counts)" "data_root (demo_empty Relock_counts) = [''data'']"
    using start(2) by (simp_all add: demo_empty_def)
  then obtain t where "LocalDisk_new Relock_counts demo_os (disk s) [''data''] demo_logger = Returns t"
    using restart_inv [OF LocalDisk_inv_disk_ok [OF demo_empty_inv] demo_stat(1) demo_os_uuid demo_iterate] by metis
  then obtain s' where again: "process_store (node_main_start demo_api demo_evp Relock_counts demo_os (disk s) [''storage_node''] False) = Some s'"
    by (simp add: node_main_start_def demo_api_def value_or_def process_store_def)
  have "verified demo_evp s" using start(2) demo_verified by simp
  then show ?thesis
    using node_restart_keeps_chunks [OF _ _ demo_os_uuid demo_stat(1) store _ rtranclp.rtrancl_refl store demo_stat(1) demo_os_uuid again]
      store again by (auto simp: fs_wf_def)
qed

text \<open>
  Once a termination signal has been handled, the process is on its way out: calls may still be
  served, but the next turn of the waiting loop shuts the server down and returns 0, logging the two
  shutdown lines; until a signal comes, the loop never leaves.
\<close>

theorem signal_stops_the_node:
  "(process_step\<^sup>*\<^sup>* (SignalHandler (Node_serving svc s requested)) n \<longrightarrow>
     (\<exists>s'. n = Node_serving svc s' True \<and> main_turn n = Node_exited 0 [] (Some
        (log_with (Logger_Info ''Shutdown complete.'')
          (log_with (Logger_Info ''Shutdown requested. Gracefully shutting down gRPC server...'') s')))) \<or>
     (\<exists>s'. n = Node_exited 0 [] (Some s'))) \<and>
   main_turn (Node_serving svc s False) = Node_serving svc s False"
proof -
  have "(\<exists>s'. n = Node_serving svc s' True) \<or> (\<exists>s'. n = Node_exited 0 [] (Some s'))"
    if "process_step\<^sup>*\<^sup>* (SignalHandler (Node_serving svc s requested)) n"
    using that
  proof (induction rule: rtranclp_induct)
    case base
    then show ?case by (simp add: SignalHandler_def)
  next
    case (step u v)
    from step.hyps(2) step.IH show ?case
      by (cases rule: process_step.cases) (auto simp: SignalHandler_def main_turn_def)
  qed
  then show ?thesis by (auto simp: main_turn_def)
qed

theorem signal_stops_the_node_witness:
  "\<exists>svc s s'. node_main_start demo_api demo_evp Relock_counts demo_os [] [''storage_node''] False = Node_serving svc s False \<and>
     main_turn (SignalHandler (Node_serving svc s False)) = Node_exited 0 [] (Some s')"
proof -
  obtain svc s f where start: "node_main_start demo_api demo_evp Relock_counts demo_os [] [''storage_node''] False = Node_serving svc s False"
    by (rule demo_start)
  from signal_stops_the_node [of svc s False "SignalHandler (Node_serving svc s False)"] start show ?thesis
    by (auto simp: SignalHandler_def)
qed



text \<open>
  The demonstration server announces that it listens before it looks at the server it built, and
  then waits on a null pointer when there is none.
\<close>

theorem greeter_announces_before_checking:
  "greeter_server_main listen (\<lambda>_. False) lg =
     (None, Logger_Info (''Server listening on '' @ value_or listen ''0.0.0.0:50051'') lg)"
  by (simp add: greeter_server_main_def)

end
