(* ===== verification/Fault_Threads.thy ===== *)
theory Fault_Threads
  imports Node_Alone
begin

text \<open>
  \<^verbatim>\<open>FaultInjectingChunkStore\<close> called from several threads, over the step-by-step disk store. An
  operation takes \<^verbatim>\<open>fault_state_mutex_\<close> twice, once to read the latency and once to decide, and lets
  go of it in between and before it calls the delegate: each of the two critical sections is one
  step, the sleep is another, and inside the delegate the thread moves as in \<open>Disk_Steps\<close>. The
  functions that inject and clear faults are one critical section each and may run at any time.

  \<^verbatim>\<open>GetStats\<close> and \<^verbatim>\<open>ListAllChunkIds\<close>, which take no lock in the delegate, are left to the sequential
  theory \<open>Fault_Injecting\<close>; \<open>Node_Faults\<close> has \<^verbatim>\<open>GetStats\<close> as the handlers call it.
\<close>

section \<open>Callers\<close>

datatype caller =
    No_call
  | Latency store_call
  | Sleeping store_call int
  | Deciding store_call
  | Delegated store_call
  | Came_back store_call store_answer

text \<open>
  The state of the decorator without its delegate, the delegate with the threads inside it, and
  where each caller is. \<open>decided\<close> is for the theorems: the decisions in the order they were made.
\<close>

record faulty_system =
  faults :: "unit FaultInjecting"
  delegate_threads :: disk_system
  callers :: "caller list"
  decided :: "ChunkStoreError option list"

fun injected_answer :: "store_call \<Rightarrow> ChunkStoreError \<Rightarrow> store_answer" where
  "injected_answer (Call_Put cid data) e = Put_answer (injected_fault e)"
| "injected_answer (Call_Get cid) e = Get_answer (injected_fault e)"
| "injected_answer (Call_VerifyOnly cid) e = VerifyOnly_answer (injected_fault e)"
| "injected_answer (Call_Delete cid) e = Delete_answer (injected_fault e)"
| "injected_answer (Call_Exists cid) e = Exists_answer (Returns False)"
| "injected_answer Call_GetStats e =
     GetStats_answer (Returns \<lparr>stats_chunk_count = 0, stats_bytes_used = 0, stats_bytes_free = 0\<rparr>)"

fun idle_caller :: "caller \<Rightarrow> bool" where
  "idle_caller No_call = True"
| "idle_caller (Came_back call a) = True"
| "idle_caller c = False"

definition decide :: "nat \<Rightarrow> store_call \<Rightarrow> faulty_system \<Rightarrow> faulty_system" where
  "decide i call y =
     (let (d, f) = ShouldInjectFault (faults y); y1 = y\<lparr>faults := f, decided := decided y @ [d]\<rparr>
      in case d of
           Some e \<Rightarrow> y1\<lparr>callers := (callers y)[i := Came_back call (injected_answer call e)]\<rparr>
         | None \<Rightarrow> y1\<lparr>callers := (callers y)[i := Delegated call],
             delegate_threads := (delegate_threads y)\<lparr>pool := (pool (delegate_threads y))[i := disk_op call],
               called := disk_op call # called (delegate_threads y)\<rparr>\<rparr>)"

inductive caller_step :: "'c EVP \<Rightarrow> faulty_system \<Rightarrow> faulty_system \<Rightarrow> bool" for evp where
  call: "i < length (callers y) \<Longrightarrow> idle_caller (callers y ! i) \<Longrightarrow> starts (disk_op call) \<Longrightarrow>
     caller_step evp y (y\<lparr>callers := (callers y)[i := Latency call]\<rparr>)"
| read_latency: "i < length (callers y) \<Longrightarrow> callers y ! i = Latency call \<Longrightarrow>
     caller_step evp y (y\<lparr>callers := (callers y)[i :=
       if pending_latency (faults y) > 0 then Sleeping call (pending_latency (faults y)) else Deciding call]\<rparr>)"
| wake: "i < length (callers y) \<Longrightarrow> callers y ! i = Sleeping call ms \<Longrightarrow>
     caller_step evp y (y\<lparr>callers := (callers y)[i := Deciding call], faults := (faults y)\<lparr>slept := slept (faults y) @ [ms]\<rparr>\<rparr>)"
| decides: "i < length (callers y) \<Longrightarrow> callers y ! i = Deciding call \<Longrightarrow> caller_step evp y (decide i call y)"
| delegate_step: "i < length (callers y) \<Longrightarrow> callers y ! i = Delegated call \<Longrightarrow>
     thread_step evp (pool (delegate_threads y) ! i) (process (delegate_threads y)) = Some (t, p) \<Longrightarrow>
     caller_step evp y (y\<lparr>delegate_threads :=
       (delegate_threads y)\<lparr>process := p, pool := (pool (delegate_threads y))[i := t]\<rparr>\<rparr>)"
| delegate_returns: "i < length (callers y) \<Longrightarrow> callers y ! i = Delegated call \<Longrightarrow>
     pool (delegate_threads y) ! i = Op_finished out cid \<Longrightarrow>
     caller_step evp y (y\<lparr>callers := (callers y)[i := Came_back call (answer_of call out)]\<rparr>)"
| os_answers: "uuid_wf (os_uuid osa) \<Longrightarrow> os_stat_ok osa \<Longrightarrow>
     caller_step evp y (y\<lparr>delegate_threads := (delegate_threads y)\<lparr>process := (process (delegate_threads y))
       \<lparr>shared := (store_of (delegate_threads y))\<lparr>os := osa\<rparr>\<rparr>\<rparr>\<rparr>)"

text \<open>What the driver of a test may do in between.\<close>

inductive faulty_step :: "'c EVP \<Rightarrow> faulty_system \<Rightarrow> faulty_system \<Rightarrow> bool" for evp where
  caller: "caller_step evp y y' \<Longrightarrow> faulty_step evp y y'"
| inject_next: "faulty_step evp y (y\<lparr>faults := InjectFailureOnNextCall e (faults y)\<rparr>)"
| inject_nth: "faulty_step evp y (y\<lparr>faults := InjectFailureAfterNCalls n e (faults y)\<rparr>)"
| inject_latency: "faulty_step evp y (y\<lparr>faults := InjectLatency ms (faults y)\<rparr>)"
| clear: "faulty_step evp y (y\<lparr>faults := ClearInjectedFaults (faults y)\<rparr>)"

inductive_cases caller_stepE: "caller_step evp y y'"
inductive_cases faulty_stepE: "faulty_step evp y y'"

definition faulty_start :: "nat \<Rightarrow> LocalDisk \<Rightarrow> faulty_system" where
  "faulty_start n s = \<lparr>faults = FaultInjecting_new (), delegate_threads = system_start n s,
     callers = replicate n No_call, decided = []\<rparr>"

section \<open>The injector over any store\<close>

lemma faulty_call:
  "call_store (FaultInjecting_vtable store) call f =
     (case ShouldInjectFault (ApplyLatency f) of
        (Some e, f1) \<Rightarrow> (injected_answer call e, f1)
      | (None, f1) \<Rightarrow> let (a, d) = call_store store call (delegate f1) in (a, f1\<lparr>delegate := d\<rparr>))"
  by (cases call) (auto simp: intercept_def split_def Let_def apfst_def map_prod_def split: prod.splits option.splits)

section \<open>The invariant, and what the delegate sees\<close>

text \<open>A call came back with the injected fault, or with what the delegate's operation ended with.\<close>

definition answered_by :: "store_call \<Rightarrow> store_answer \<Rightarrow> disk_thread \<Rightarrow> bool" where
  "answered_by call a t \<longleftrightarrow> (\<exists>e. a = injected_answer call e) \<or>
     (\<exists>out cid. t = Op_finished out cid \<and> carries_out t call \<and> a = answer_of call out)"

definition caller_ok :: "caller \<Rightarrow> disk_thread \<Rightarrow> bool" where
  "caller_ok c t = (case c of
      No_call \<Rightarrow> resting t
    | Latency call \<Rightarrow> resting t \<and> starts (disk_op call)
    | Sleeping call ms \<Rightarrow> resting t \<and> starts (disk_op call)
    | Deciding call \<Rightarrow> resting t \<and> starts (disk_op call)
    | Delegated call \<Rightarrow> carries_out t call
    | Came_back call a \<Rightarrow> resting t \<and> answered_by call a t)"

definition faulty_inv :: "faulty_system \<Rightarrow> bool" where
  "faulty_inv y \<longleftrightarrow> list_all2 caller_ok (callers y) (pool (delegate_threads y))"

lemma caller_okD:
  assumes "faulty_inv y" "i < length (callers y)"
  shows "caller_ok (callers y ! i) (pool (delegate_threads y) ! i)" "i < length (pool (delegate_threads y))"
  using assms by (auto simp: faulty_inv_def list_all2_conv_all_nth)

lemma decide_cases:
  obtains (injected) e f where "ShouldInjectFault (faults y) = (Some e, f)"
    "decide i call y = y\<lparr>faults := f, decided := decided y @ [Some e],
       callers := (callers y)[i := Came_back call (injected_answer call e)]\<rparr>"
  | (passed) f where "ShouldInjectFault (faults y) = (None, f)"
    "decide i call y = y\<lparr>faults := f, decided := decided y @ [None], callers := (callers y)[i := Delegated call],
       delegate_threads := (delegate_threads y)\<lparr>pool := (pool (delegate_threads y))[i := disk_op call],
         called := disk_op call # called (delegate_threads y)\<rparr>\<rparr>"
proof -
  obtain d f where d: "ShouldInjectFault (faults y) = (d, f)" by fastforce
  then show thesis using that by (cases d) (simp_all add: decide_def)
qed

lemma caller_inv:
  assumes "caller_step evp y y'" "faulty_inv y"
  shows "faulty_inv y'"
  using assms(1)
proof (cases rule: caller_step.cases)
  case (decides i call)
  note ok = caller_okD(1) [OF assms(2) decides(2), unfolded caller_ok_def decides(3), simplified]
  show ?thesis using assms(2) ok starts_carries_out [of call] unfolding decides(1)
    by (cases rule: decide_cases [of y i call])
       (auto simp: faulty_inv_def caller_ok_def answered_by_def list_all2_update_cong intro!: list_all2_update_one(1))
next
  case (delegate_step i call t p)
  note ok = caller_okD(1) [OF assms(2) delegate_step(2), unfolded caller_ok_def delegate_step(3), simplified]
  show ?thesis using assms(2) carries_out_step [OF delegate_step(4) ok] delegate_step(1,3)
    by (simp add: faulty_inv_def list_all2_update_one caller_ok_def)
next
  case (call i call)
  have "resting (pool (delegate_threads y) ! i)"
    using caller_okD(1) [OF assms(2) call(2)] call(3) by (cases "callers y ! i") (auto simp: caller_ok_def)
  then show ?thesis using call(1,4) assms(2) by (simp add: faulty_inv_def list_all2_update_one caller_ok_def)
next
  case (read_latency i call)
  then show ?thesis using caller_okD(1) [OF assms(2) read_latency(2)] assms(2)
    by (simp add: faulty_inv_def list_all2_update_one caller_ok_def)
next
  case (wake i call ms)
  then show ?thesis using caller_okD(1) [OF assms(2) wake(2)] assms(2)
    by (simp add: faulty_inv_def list_all2_update_one caller_ok_def)
next
  case (delegate_returns i call out cid)
  then show ?thesis using caller_okD(1) [OF assms(2) delegate_returns(2)] assms(2)
    by (auto simp: faulty_inv_def list_all2_update_one caller_ok_def answered_by_def)
qed (use assms(2) in \<open>simp add: faulty_inv_def\<close>)

lemma caller_refines:
  assumes "caller_step evp y y'" "faulty_inv y"
  shows "(system_step evp)\<^sup>*\<^sup>* (delegate_threads y) (delegate_threads y')"
  using assms(1)
proof (cases rule: caller_step.cases)
  case (decides i call)
  note ok = caller_okD(1) [OF assms(2) decides(2), unfolded caller_ok_def decides(3), simplified]
  show ?thesis using ok system_step.call [OF caller_okD(2) [OF assms(2) decides(2)], of "disk_op call" evp]
    unfolding decides(1) by (cases rule: decide_cases [of y i call]) auto
next
  case (delegate_step i call t p)
  then show ?thesis using system_step.advance [OF caller_okD(2) [OF assms(2) delegate_step(2)] delegate_step(4)] by auto
next
  case (os_answers osa)
  then show ?thesis using system_step.os_answers [OF os_answers(2,3), of evp "delegate_threads y"] by auto
qed simp_all

interpretation faulty_refines: step_refinement "faulty_step evp" faulty_inv "system_step evp" delegate_threads for evp
proof unfold_locales
  fix y y'
  assume step: "faulty_step evp y y'"
  show "faulty_inv y \<Longrightarrow> faulty_inv y'"
    using step by (cases rule: faulty_step.cases) (auto simp: faulty_inv_def dest: caller_inv [unfolded faulty_inv_def])
  show "faulty_inv y \<Longrightarrow> (system_step evp)\<^sup>*\<^sup>* (delegate_threads y) (delegate_threads y')"
    using step by (cases rule: faulty_step.cases) (auto intro: caller_refines)
qed

lemma faulty_inv_start: "faulty_inv (faulty_start n s)"
  by (simp add: faulty_inv_def faulty_start_def system_start_def list_all2_conv_all_nth caller_ok_def)

lemma faulty_run:
  assumes "(faulty_step evp)\<^sup>*\<^sup>* (faulty_start n s) y"
  shows "faulty_inv y" "(system_step evp)\<^sup>*\<^sup>* (system_start n s) (delegate_threads y)"
  using faulty_refines.run_keeps [OF assms faulty_inv_start] faulty_refines.run_refines [OF assms faulty_inv_start]
  by (simp_all add: faulty_start_def)

section \<open>Decisions of concurrent callers\<close>

fun decide_many :: "nat \<Rightarrow> 's FaultInjecting \<Rightarrow> ChunkStoreError option list \<times> 's FaultInjecting" where
  "decide_many 0 f = ([], f)"
| "decide_many (Suc m) f = (let (ds, f1) = decide_many m f; (d, f2) = ShouldInjectFault f1 in (ds @ [d], f2))"

abbreviation rested :: "'s FaultInjecting \<Rightarrow> 's FaultInjecting" where
  "rested f \<equiv> f\<lparr>slept := []\<rparr>"

lemma ShouldInjectFault_rested: "ShouldInjectFault (rested f) = apsnd rested (ShouldInjectFault f)"
  by (simp add: ShouldInjectFault_def Let_def split: option.splits)

definition passed_on :: "ChunkStoreError option list \<Rightarrow> nat" where
  "passed_on ds = length (filter (\<lambda>d. d = None) ds)"

lemma run_decides:
  assumes "(caller_step evp)\<^sup>*\<^sup>* y y'"
  shows "\<exists>m ds. decide_many m (rested (faults y)) = (ds, rested (faults y')) \<and> decided y' = decided y @ ds \<and>
    length (called (delegate_threads y')) = length (called (delegate_threads y)) + passed_on ds"
  using assms
proof (induction rule: rtranclp_induct)
  case base
  show ?case by (rule exI [of _ 0]) (simp add: passed_on_def)
next
  case (step y1 y2)
  then obtain m ds where ih: "decide_many m (rested (faults y)) = (ds, rested (faults y1))" "decided y1 = decided y @ ds"
      "length (called (delegate_threads y1)) = length (called (delegate_threads y)) + passed_on ds" by blast
  from step(2) show ?case
  proof (cases rule: caller_step.cases)
    case (decides i call)
    obtain d f where d: "ShouldInjectFault (faults y1) = (d, f)" by fastforce
    have "decide_many (Suc m) (rested (faults y)) = (ds @ [d], rested f)"
      using ih(1) d by (simp add: ShouldInjectFault_rested)
    moreover have "faults y2 = f" "decided y2 = decided y1 @ [d]"
      "length (called (delegate_threads y2)) = length (called (delegate_threads y1)) + passed_on [d]"
      using d unfolding decides(1) by (cases d; simp add: decide_def passed_on_def)+
    ultimately show ?thesis using ih by (intro exI [of _ "Suc m"]) (simp add: passed_on_def)
  qed (use ih in \<open>auto intro!: exI [of _ m]\<close>)
qed

lemma decide_many_length: "length (fst (decide_many m f)) = m"
  by (induction m) (simp_all add: split_def Let_def)

lemma decide_many_nth:
  assumes "pending_one_shot_fault f = None" "pending_nth_call_fault f = Some (n, e)" "call_counter f = 0" "m < 2 ^ 64"
  shows "\<exists>f'. decide_many m f = (replicate (min m (unat n)) None @ replicate (m - unat n) (Some e), f') \<and>
    pending_one_shot_fault f' = None \<and> pending_nth_call_fault f' = Some (n, e) \<and> unat (call_counter f') = m"
  using assms(4)
proof (induction m)
  case (Suc m)
  then obtain f' where f': "decide_many m f = (replicate (min m (unat n)) None @ replicate (m - unat n) (Some e), f')"
    "pending_one_shot_fault f' = None" "pending_nth_call_fault f' = Some (n, e)" "unat (call_counter f') = m" by auto
  have inc: "unat (call_counter f' + 1) = Suc m" using unat_inc [of "call_counter f'"] f'(4) Suc.prems by simp
  show ?case
  proof (cases "m < unat n")
    case True
    then show ?thesis using f' inc
      by (simp add: ShouldInjectFault_def word_less_nat_alt replicate_append_same min_def flip: replicate_Suc)
  next
    case False
    then have "Suc m - unat n = Suc (m - unat n)" by simp
    then show ?thesis using f' inc False
      by (simp add: ShouldInjectFault_def word_less_nat_alt replicate_append_same min_def)
  qed
qed (use assms(1-3) in simp)

lemma decide_many_one_shot:
  assumes "pending_one_shot_fault f = Some e" "pending_nth_call_fault f = None"
  shows "fst (decide_many m f) = (if m = 0 then [] else Some e # replicate (m - 1) None)"
proof -
  have "\<exists>f'. decide_many (Suc k) f = (Some e # replicate k None, f') \<and> pending_one_shot_fault f' = None \<and>
      pending_nth_call_fault f' = None" for k
    by (induction k) (use assms in \<open>auto simp: ShouldInjectFault_def replicate_append_same\<close>)
  from this [of "m - 1"] show ?thesis by (cases m) auto
qed

section \<open>A caller alone\<close>

text \<open>The decorator of \<open>Fault_Injecting\<close> with the local disk store as its delegate.\<close>

definition over :: "unit FaultInjecting \<Rightarrow> LocalDisk \<Rightarrow> LocalDisk FaultInjecting" where
  "over f d = \<lparr>delegate = d, pending_one_shot_fault = pending_one_shot_fault f,
     pending_nth_call_fault = pending_nth_call_fault f, call_counter = call_counter f,
     pending_latency = pending_latency f, slept = slept f\<rparr>"

lemma over_simps [simp]:
  "delegate (over f d) = d" "(over f d)\<lparr>delegate := d'\<rparr> = over f d'"
  "ApplyLatency (over f d) = over (ApplyLatency f) d"
  "ShouldInjectFault (over f d) = apsnd (\<lambda>f1. over f1 d) (ShouldInjectFault f)"
  by (simp_all add: over_def ApplyLatency_def ShouldInjectFault_def Let_def split: option.splits)

lemma over_eq: "over f d = over f' d' \<longleftrightarrow> f = f' \<and> d = d'"
  by (cases f; cases f') (auto simp: over_def)

lemma delegate_solo:
  assumes "callers y = [Delegated call]" "pool (delegate_threads y) = [t]"
  shows "(caller_step evp)\<^sup>*\<^sup>* y (y\<lparr>delegate_threads := (delegate_threads y)
      \<lparr>process := snd (solo evp t (process (delegate_threads y))),
       pool := [fst (solo evp t (process (delegate_threads y)))]\<rparr>\<rparr>)"
  using assms
proof (induction evp t "process (delegate_threads y)" arbitrary: y rule: solo.induct)
  case (1 evp t)
  show ?case
  proof (cases "thread_step evp t (process (delegate_threads y))")
    case None
    then show ?thesis using 1(3) by (cases "delegate_threads y"; cases y) simp
  next
    case (Some tp)
    obtain t' p' where s: "thread_step evp t (process (delegate_threads y)) = Some (t', p')" using Some by (cases tp) auto
    let ?y = "y\<lparr>delegate_threads := (delegate_threads y)\<lparr>process := p', pool := [t']\<rparr>\<rparr>"
    have "caller_step evp y ?y" using caller_step.delegate_step [of 0 y call evp t' p'] 1(2,3) s by simp
    moreover have "(caller_step evp)\<^sup>*\<^sup>* ?y (?y\<lparr>delegate_threads := (delegate_threads ?y)
        \<lparr>process := snd (solo evp t' p'), pool := [fst (solo evp t' p')]\<rparr>\<rparr>)"
      using 1(1) [OF s, of t' ?y] 1(2) by simp
    ultimately show ?thesis using solo_go [OF s] by simp
  qed
qed

text \<open>Up to the decision.\<close>

lemma caller_decides:
  assumes "callers y = [c]" "idle_caller c" "starts (disk_op call)"
  shows "(caller_step evp)\<^sup>*\<^sup>* y (decide 0 call (y\<lparr>callers := [Deciding call], faults := ApplyLatency (faults y)\<rparr>))"
proof -
  let ?l = "pending_latency (faults y)"
  let ?y1 = "y\<lparr>callers := [Latency call]\<rparr>" and ?y2 = "y\<lparr>callers := [Sleeping call ?l]\<rparr>"
  let ?y3 = "y\<lparr>callers := [Deciding call], faults := ApplyLatency (faults y)\<rparr>"
  have "caller_step evp y ?y1" using caller_step.call [of 0 y call evp] assms by simp
  also have "(caller_step evp)\<^sup>*\<^sup>* ?y1 ?y3"
  proof (cases "?l > 0")
    case True
    have "caller_step evp ?y1 ?y2" using caller_step.read_latency [of 0 ?y1 call evp] True by simp
    moreover have "caller_step evp ?y2 ?y3"
      using caller_step.wake [of 0 ?y2 call ?l evp] True by (simp add: ApplyLatency_def)
    ultimately show ?thesis by auto
  next
    case False
    then have "caller_step evp ?y1 ?y3"
      using caller_step.read_latency [of 0 ?y1 call evp] by (cases y) (simp add: ApplyLatency_def)
    then show ?thesis by auto
  qed
  also have "caller_step evp ?y3 (decide 0 call ?y3)" by (rule caller_step.decides) simp_all
  finally show ?thesis by auto
qed

lemma caller_alone:
  assumes "callers y = [c]" "idle_caller c" "pool (delegate_threads y) = [t]" "starts (disk_op call)"
    "process (delegate_threads y) = \<lparr>shared = s, fds = tab\<rparr>" "stripe_locks s = {}" "relock s \<noteq> Relock_blocks"
    "call_store (FaultInjecting_vtable (LocalDisk_vtable evp)) call (over (faults y) s) = (a, f)"
  shows "\<exists>z. (caller_step evp)\<^sup>*\<^sup>* y z \<and> callers z = [Came_back call a] \<and>
    over (faults z) (store_of (delegate_threads z)) = f \<and> fds (process (delegate_threads z)) = tab \<and>
    (\<exists>d. fst (ShouldInjectFault (ApplyLatency (faults y))) = d \<and> decided z = decided y @ [d] \<and>
      called (delegate_threads z) = (if d = None then disk_op call # called (delegate_threads y) else called (delegate_threads y)))"
proof -
  let ?y = "y\<lparr>callers := [Deciding call], faults := ApplyLatency (faults y)\<rparr>"
  note run = caller_decides [OF assms(1,2,4), of evp]
  obtain d f1 where d: "ShouldInjectFault (ApplyLatency (faults y)) = (d, f1)" by fastforce
  show ?thesis
  proof (cases d)
    case (Some e)
    then have "a = injected_answer call e" "f = over f1 s" using assms(8) d by (simp_all add: faulty_call)
    then show ?thesis using run d Some assms(5) by (intro exI [of _ "decide 0 call ?y"]) (simp add: decide_def)
  next
    case None
    obtain s2 where c: "call_store (LocalDisk_vtable evp) call s = (a, s2)" "f = over f1 s2"
      using assms(8) d None by (auto simp: faulty_call split_def Let_def prod_eq_iff simp del: LocalDisk_vtable_def)
    have "call \<noteq> Call_GetStats" using starts_carries_out [OF assms(4)] by simp
    then obtain out cid where so: "solo evp (disk_op call) \<lparr>shared = s, fds = tab\<rparr> = (Op_finished out cid, \<lparr>shared = s2, fds = tab\<rparr>)"
        "answer_of call out = a"
      using call_solo [OF _ assms(6,7) c(1)] by metis
    let ?w = "decide 0 call ?y"
    have w: "callers ?w = [Delegated call]" "pool (delegate_threads ?w) = [disk_op call]"
      "process (delegate_threads ?w) = \<lparr>shared = s, fds = tab\<rparr>" "faults ?w = f1" "decided ?w = decided y @ [None]"
      "called (delegate_threads ?w) = disk_op call # called (delegate_threads y)"
      using d None assms(3,5) by (simp_all add: decide_def)
    let ?z = "?w\<lparr>delegate_threads := (delegate_threads ?w)\<lparr>process := \<lparr>shared = s2, fds = tab\<rparr>, pool := [Op_finished out cid]\<rparr>\<rparr>"
    note run
    also have "(caller_step evp)\<^sup>*\<^sup>* ?w ?z" using delegate_solo [OF w(1,2), of evp] w(3) so(1) by simp
    also have "caller_step evp ?z (?z\<lparr>callers := [Came_back call a]\<rparr>)"
      using caller_step.delegate_returns [of 0 ?z call out cid evp] w(1) so(2) by simp
    finally show ?thesis using w(4-6) c(2) d None 
      by (intro exI [of _ "?z\<lparr>callers := [Came_back call a]\<rparr>"]) simp
  qed
qed

lemma caller_runs: "(caller_step evp)\<^sup>*\<^sup>* y z \<Longrightarrow> (faulty_step evp)\<^sup>*\<^sup>* y z"
  by (rule rtranclp_mono [THEN predicate2D, rotated]) (auto intro: faulty_step.caller)

section \<open>A concrete run\<close>

abbreviation demo_put_call :: store_call where
  "demo_put_call \<equiv> Call_Put demo_id demo_data"

abbreviation demo_faulty :: faulty_system where
  "demo_faulty \<equiv> faulty_start 1 (demo_empty Relock_counts)"

lemma demo_faulty_put:
  assumes "ShouldInjectFault (ApplyLatency (faults y)) = (None, f1)" "callers y = [c]" "idle_caller c"
    "delegate_threads y = system_start 1 (demo_empty Relock_counts)"
  obtains z where "(caller_step demo_evp)\<^sup>*\<^sup>* y z"
    "callers z = [Came_back demo_put_call (Put_answer (Returns (Ok ())))]"
    "stored (store_of (delegate_threads z)) demo_id = Some demo_data" "faults z = f1" "decided z = decided y @ [None]"
    "called (delegate_threads z) = [Put_start demo_id demo_data]"
proof -
  let ?s = "demo_empty Relock_counts"
  obtain s' where put: "LocalDisk_Put demo_evp demo_id demo_data ?s = (Returns (Ok ()), s')" "stored s' demo_id = Some demo_data"
    by (rule demo_put) (simp add: stored_def)
  have "call_store (FaultInjecting_vtable (LocalDisk_vtable demo_evp)) demo_put_call (over (faults y) ?s) =
      (Put_answer (Returns (Ok ())), over f1 s')"
    using put(1) assms(1) by (simp add: intercept_def)
  then obtain z where "(caller_step demo_evp)\<^sup>*\<^sup>* y z" "callers z = [Came_back demo_put_call (Put_answer (Returns (Ok ())))]"
      "over (faults z) (store_of (delegate_threads z)) = over f1 s'" "decided z = decided y @ [None]"
      "called (delegate_threads z) = [Put_start demo_id demo_data]"
    using caller_alone [of y c At_rest demo_put_call ?s "[]" demo_evp] assms by (auto simp: system_start_def)
  then show thesis using that put(2) by (simp add: over_eq)
qed

lemma came_back_put:
  assumes "faulty_inv y" "Came_back (Call_Put cid data) (Put_answer (Returns (Ok ()))) \<in> set (callers y)"
  shows "put_ok cid \<in> set (pool (delegate_threads y))"
proof -
  obtain i where i: "i < length (callers y)" "callers y ! i = Came_back (Call_Put cid data) (Put_answer (Returns (Ok ())))"
    using assms(2) by (auto simp: in_set_conv_nth)
  note ok = caller_okD [OF assms(1) i(1)]
  obtain out x where "pool (delegate_threads y) ! i = Op_finished out x" "carries_out (Op_finished out x) (Call_Put cid data)"
      "Put_answer (Returns (Ok ())) = answer_of (Call_Put cid data) out"
    using ok(1) i(2) by (auto simp: caller_ok_def answered_by_def)
  then have "pool (delegate_threads y) ! i = put_ok cid"
    by (cases out) (auto simp: carries_out_def thread_kind_def outcome_kind_def about_chunk_def)
  then show ?thesis using ok(2) nth_mem by metis
qed

section \<open>Theorems\<close>

text \<open>
  C20: When a fault is set to strike after \<open>n\<close> calls, then however the callers interleave, exactly the
  first \<open>n\<close> of them to reach the decision are passed on to the delegate and every later one gets the
  injected error without the delegate being called, until \<^verbatim>\<open>2^64\<close> calls were made.
\<close>

theorem concurrent_fault_after_n_calls:
  assumes "pending_one_shot_fault (faults y) = None"
    "(caller_step evp)\<^sup>*\<^sup>* (y\<lparr>faults := InjectFailureAfterNCalls n e (faults y)\<rparr>) z"
    "length (decided z) < length (decided y) + 2 ^ 64"
  shows "\<exists>m. decided z = decided y @ replicate (min m (unat n)) None @ replicate (m - unat n) (Some e) \<and>
    length (called (delegate_threads z)) = length (called (delegate_threads y)) + min m (unat n)"
proof -
  let ?f = "rested (InjectFailureAfterNCalls n e (faults y))"
  obtain m ds where m: "decide_many m ?f = (ds, rested (faults z))" "decided z = decided y @ ds"
      "length (called (delegate_threads z)) = length (called (delegate_threads y)) + passed_on ds"
    using run_decides [OF assms(2)] by auto
  have "length ds = m" using decide_many_length [of m ?f] m(1) by simp
  then have "m < 2 ^ 64" using assms(3) m(2) by simp
  then have "ds = replicate (min m (unat n)) None @ replicate (m - unat n) (Some e)"
    using decide_many_nth [of ?f n e m] m(1) assms(1) by (simp add: InjectFailureAfterNCalls_def)
  then show ?thesis using m(2,3) by (intro exI [of _ m]) (simp add: passed_on_def)
qed

theorem concurrent_fault_after_n_calls_witness:
  "\<exists>z. (caller_step demo_evp)\<^sup>*\<^sup>*
       (demo_faulty\<lparr>faults := InjectFailureAfterNCalls 1 ChunkStoreError_IoError (faults demo_faulty)\<rparr>) z \<and>
     decided z = [None, Some ChunkStoreError_IoError] \<and> length (called (delegate_threads z)) = 1"
proof -
  let ?y = "demo_faulty\<lparr>faults := InjectFailureAfterNCalls 1 ChunkStoreError_IoError (faults demo_faulty)\<rparr>"
  let ?f = "\<lparr>delegate = (), pending_one_shot_fault = None, pending_nth_call_fault = Some (1, ChunkStoreError_IoError),
      call_counter = 1, pending_latency = 0, slept = []\<rparr>"
  have f: "ShouldInjectFault (ApplyLatency (faults ?y)) = (None, ?f)"
    by (simp add: faulty_start_def FaultInjecting_new_def InjectFailureAfterNCalls_def ShouldInjectFault_def ApplyLatency_def)
  obtain y1 where y1: "(caller_step demo_evp)\<^sup>*\<^sup>* ?y y1" "callers y1 = [Came_back demo_put_call (Put_answer (Returns (Ok ())))]"
      "faults y1 = ?f" "decided y1 = [None]"
    by (rule demo_faulty_put [OF f, of No_call]) (simp_all add: faulty_start_def)
  let ?z = "decide 0 demo_put_call (y1\<lparr>callers := [Deciding demo_put_call], faults := ApplyLatency (faults y1)\<rparr>)"
  have run: "(caller_step demo_evp)\<^sup>*\<^sup>* ?y ?z"
    using y1(1) caller_decides [OF y1(2), of demo_put_call demo_evp] by simp
  have z: "decided ?z = [None, Some ChunkStoreError_IoError]"
    using y1(3,4) by (simp add: decide_def ShouldInjectFault_def ApplyLatency_def)
  obtain m where m: "decided ?z = replicate (min m 1) None @ replicate (m - 1) (Some ChunkStoreError_IoError)"
      "length (called (delegate_threads ?z)) = min m 1"
    using concurrent_fault_after_n_calls [OF _ run] z by (auto simp: faulty_start_def FaultInjecting_new_def system_start_def)
  then have "m \<noteq> 0" using z by (cases m) auto
  then show ?thesis using run z m(2) by (intro exI [of _ ?z]) simp
qed

text \<open>
  A one-shot fault strikes exactly one of the callers that race for it, the first to reach the
  decision; all others are passed on to the delegate.
\<close>

theorem concurrent_one_shot_fault:
  assumes "pending_nth_call_fault (faults y) = None"
    "(caller_step evp)\<^sup>*\<^sup>* (y\<lparr>faults := InjectFailureOnNextCall e (faults y)\<rparr>) z" "decided z \<noteq> decided y"
  shows "\<exists>k. decided z = decided y @ Some e # replicate k None \<and>
    length (called (delegate_threads z)) = length (called (delegate_threads y)) + k"
proof -
  let ?f = "rested (InjectFailureOnNextCall e (faults y))"
  obtain m ds where m: "decide_many m ?f = (ds, rested (faults z))" "decided z = decided y @ ds"
      "length (called (delegate_threads z)) = length (called (delegate_threads y)) + passed_on ds"
    using run_decides [OF assms(2)] by auto
  have "ds = Some e # replicate (m - 1) None"
    using decide_many_one_shot [of ?f e m] m(1,2) assms(1,3) by (auto simp: InjectFailureOnNextCall_def split: if_splits)
  then show ?thesis using m(2,3) by (intro exI [of _ "m - 1"]) (simp add: passed_on_def)
qed

theorem concurrent_one_shot_fault_witness:
  "\<exists>z. (caller_step demo_evp)\<^sup>*\<^sup>*
       (demo_faulty\<lparr>faults := InjectFailureOnNextCall ChunkStoreError_IoError (faults demo_faulty)\<rparr>) z \<and>
     decided z = [Some ChunkStoreError_IoError, None] \<and> length (called (delegate_threads z)) = 1"
proof -
  let ?y = "demo_faulty\<lparr>faults := InjectFailureOnNextCall ChunkStoreError_IoError (faults demo_faulty)\<rparr>"
  let ?y1 = "decide 0 demo_put_call (?y\<lparr>callers := [Deciding demo_put_call], faults := ApplyLatency (faults ?y)\<rparr>)"
  have run: "(caller_step demo_evp)\<^sup>*\<^sup>* ?y ?y1"
    using caller_decides [of ?y No_call demo_put_call demo_evp] by (simp add: faulty_start_def)
  have y1: "callers ?y1 = [Came_back demo_put_call (injected_answer demo_put_call ChunkStoreError_IoError)]"
      "decided ?y1 = [Some ChunkStoreError_IoError]" "delegate_threads ?y1 = system_start 1 (demo_empty Relock_counts)"
      "faults ?y1 = (FaultInjecting_new ())\<lparr>call_counter := 1\<rparr>"
    by (simp_all add: faulty_start_def FaultInjecting_new_def InjectFailureOnNextCall_def ShouldInjectFault_def
        ApplyLatency_def decide_def)
  have "ShouldInjectFault (ApplyLatency (faults ?y1)) = (None, (FaultInjecting_new ())\<lparr>call_counter := 2\<rparr>)"
    unfolding y1(4) by (simp add: FaultInjecting_new_def ShouldInjectFault_def ApplyLatency_def)
  from demo_faulty_put [OF this y1(1) _ y1(3)] obtain z where z: "(caller_step demo_evp)\<^sup>*\<^sup>* ?y1 z"
      "decided z = [Some ChunkStoreError_IoError, None]"
    using y1(2) by auto
  have go: "(caller_step demo_evp)\<^sup>*\<^sup>* ?y z" using run z(1) by (rule rtranclp_trans)
  from concurrent_one_shot_fault [OF _ go] z(2) have "length (called (delegate_threads z)) = 1"
    by (auto simp: faulty_start_def FaultInjecting_new_def system_start_def Cons_replicate_eq le_Suc_eq)
  with go z(2) show ?thesis by blast
qed

text \<open>
  Whatever faults are injected and cleared while callers run side by side: once a caller's \<open>Put\<close>
  came back with success the chunk is in the wrapped store, with bytes that hash to its address, and
  stays there until a \<open>Delete\<close> of it is passed on.
\<close>

theorem acknowledged_put_survives_faults:
  assumes "LocalDisk_inv s" "stripe_locks s = {}" "verified evp s"
    "(faulty_step evp)\<^sup>*\<^sup>* (faulty_start n s) y"
    "Came_back (Call_Put cid data) (Put_answer (Returns (Ok ()))) \<in> set (callers y)"
    "(faulty_step evp)\<^sup>*\<^sup>* y z" "Delete_lock cid \<notin> set (called (delegate_threads z))"
  shows "\<exists>b. HashBytes evp b = Returns (id_digest cid) \<and> stored (store_of (delegate_threads z)) cid = Some b"
proof -
  note inv = faulty_run [OF assms(4)]
  have "put_ok cid \<in> set (pool (delegate_threads y))" by (rule came_back_put [OF inv(1) assms(5)])
  from acked_chunk [OF assms(1-3) inv(2) this faulty_refines.run_refines [OF assms(6) inv(1)] assms(7)]
  show ?thesis by auto
qed

theorem acknowledged_put_survives_faults_witness:
  "\<exists>y b. (faulty_step demo_evp)\<^sup>*\<^sup>* demo_faulty y \<and>
     callers y = [Came_back demo_put_call (Put_answer (Returns (Ok ())))] \<and> slept (faults y) = [5] \<and>
     HashBytes demo_evp b = Returns (id_digest demo_id) \<and> stored (store_of (delegate_threads y)) demo_id = Some b"
proof -
  let ?y = "demo_faulty\<lparr>faults := InjectLatency 5 (faults demo_faulty)\<rparr>"
  have f: "ShouldInjectFault (ApplyLatency (faults ?y)) =
      (None, (FaultInjecting_new ())\<lparr>call_counter := 1, pending_latency := 5, slept := [5]\<rparr>)"
    by (simp add: faulty_start_def FaultInjecting_new_def InjectLatency_def ShouldInjectFault_def ApplyLatency_def)
  obtain z where z: "(caller_step demo_evp)\<^sup>*\<^sup>* ?y z" "callers z = [Came_back demo_put_call (Put_answer (Returns (Ok ())))]"
      "called (delegate_threads z) = [Put_start demo_id demo_data]"
      "faults z = (FaultInjecting_new ())\<lparr>call_counter := 1, pending_latency := 5, slept := [5]\<rparr>"
    by (rule demo_faulty_put [OF f, of No_call]) (simp_all add: faulty_start_def)
  have run: "(faulty_step demo_evp)\<^sup>*\<^sup>* demo_faulty z"
    using converse_rtranclp_into_rtranclp [OF faulty_step.inject_latency caller_runs [OF z(1)]] .
  from acknowledged_put_survives_faults [OF demo_empty_inv demo_empty_simps(1) demo_verified run _ rtranclp.rtrancl_refl,
      of demo_id demo_data] run z(2-4)
  show ?thesis by auto
qed

text \<open>
  A caller that runs alone gets the answer, and leaves the injector and the wrapped store in the
  state, that the one-step operation of \<open>Fault_Injecting\<close> gives, whatever faults are pending.
\<close>

theorem caller_alone_is_operation:
  assumes "starts (disk_op call)" "stripe_locks s = {}" "relock s \<noteq> Relock_blocks"
    "call_store (FaultInjecting_vtable (LocalDisk_vtable evp)) call (over f s) = (a, f')"
  shows "\<exists>z. (caller_step evp)\<^sup>*\<^sup>* ((faulty_start 1 s)\<lparr>faults := f\<rparr>) z \<and> callers z = [Came_back call a] \<and>
    over (faults z) (store_of (delegate_threads z)) = f' \<and> fds (process (delegate_threads z)) = []"
  using caller_alone [of "(faulty_start 1 s)\<lparr>faults := f\<rparr>" No_call At_rest call s "[]" evp a f'] assms
  by (auto simp: faulty_start_def system_start_def)

theorem caller_alone_is_operation_witness:
  "\<exists>z. (caller_step demo_evp)\<^sup>*\<^sup>* (demo_faulty\<lparr>faults := InjectFailureOnNextCall ChunkStoreError_IoError (faults demo_faulty)\<rparr>) z \<and>
     callers z = [Came_back demo_put_call (Put_answer (store_err ChunkStoreError_IoError ''Injected Fault''))]"
proof -
  let ?f = "InjectFailureOnNextCall ChunkStoreError_IoError (FaultInjecting_new ())"
  obtain f' where "call_store (FaultInjecting_vtable (LocalDisk_vtable demo_evp)) demo_put_call (over ?f (demo_empty Relock_counts)) =
      (Put_answer (store_err ChunkStoreError_IoError ''Injected Fault''), f')"
    by (simp add: intercept_def InjectFailureOnNextCall_def FaultInjecting_new_def over_def ShouldInjectFault_def
        ApplyLatency_def Let_def)
  from caller_alone_is_operation [OF _ _ _ this] show ?thesis by (auto simp: faulty_start_def)
qed

end
