(* ===== verification/Node_Faults.thy ===== *)
theory Node_Faults
  imports Fault_Threads Node_Concurrent_Theorems
begin

text \<open>
  The whole stack at once: the handlers of \<^verbatim>\<open>storage_node_service_impl.cpp\<close> on their worker threads,
  \<^verbatim>\<open>FaultInjectingChunkStore\<close> as the store they call, and the local disk store, system call by system
  call, as its delegate, while the driver of a test injects and clears faults at any moment.

  A worker on its way from the handler to the delegate stands at a gate: before the two critical
  sections on \<^verbatim>\<open>fault_state_mutex_\<close>, or asleep between them. Beyond the gates the node is the one of
  \<open>Node_Workers\<close>; a worker at a gate waits there, its thread under the correlation id of its request.
  A worker whose call got the injected error goes on in its handler and never comes to the delegate.
\<close>

section \<open>The node\<close>

datatype gate =
    Beyond
  | Latency_gate handler_frame store_call
  | Sleep_gate handler_frame store_call int
  | Decision_gate handler_frame store_call
  | Struck rpc "rpc_reply run"

record gated_node =
  injector :: "unit FaultInjecting"
  beyond :: node_system
  gates :: "gate list"

text \<open>The handler up to its call of the store, which is \<^verbatim>\<open>ApplyLatency\<close>.\<close>

definition rpc_at_gate :: "uint64 \<Rightarrow> nat \<Rightarrow> rpc \<Rightarrow> gated_node \<Rightarrow> gated_node" where
  "rpc_at_gate limit i r y =
     (let previous = thread_correlation_id (workers (beyond y) ! i);
          (reply, ls, corr, call) = run_handler limit r None previous (logger (node_store (beyond y)));
          b = (log_lines (rpc_correlation_id r) ls (beyond y))\<lparr>arrived := r # arrived (beyond y)\<rparr>
      in case (reply, call) of
           (Blocks, Some c) \<Rightarrow> y\<lparr>beyond := set_worker i corr Waiting_for_rpc b, gates := (gates y)[i :=
             Latency_gate \<lparr>frame_rpc = r, frame_written = length ls, frame_previous = previous\<rparr> c]\<rparr>
         | _ \<Rightarrow> y\<lparr>beyond := set_worker i corr (Replied r reply) b, gates := (gates y)[i := Beyond]\<rparr>)"

text \<open>The rest of the handler, when the call came back with the injected error.\<close>

definition struck :: "uint64 \<Rightarrow> nat \<Rightarrow> handler_frame \<Rightarrow> store_answer \<Rightarrow> gated_node \<Rightarrow> gated_node" where
  "struck limit i fr answer y =
     (let (reply, ls, corr, call) =
            run_handler limit (frame_rpc fr) (Some answer) (frame_previous fr) (logger (node_store (beyond y)))
      in y\<lparr>beyond := set_worker i corr Waiting_for_rpc
             (log_lines (rpc_correlation_id (frame_rpc fr)) (drop (frame_written fr) ls) (beyond y)),
           gates := (gates y)[i := Struck (frame_rpc fr) reply]\<rparr>)"

definition node_decides :: "uint64 \<Rightarrow> nat \<Rightarrow> handler_frame \<Rightarrow> store_call \<Rightarrow> gated_node \<Rightarrow> gated_node" where
  "node_decides limit i fr call y =
     (let (d, f) = ShouldInjectFault (injector y); y1 = y\<lparr>injector := f\<rparr>
      in case d of
           Some e \<Rightarrow> struck limit i fr (injected_answer call e) y1
         | None \<Rightarrow> y1\<lparr>beyond := enter_store i fr (thread_correlation_id (workers (beyond y) ! i)) call (beyond y),
             gates := (gates y)[i := Beyond]\<rparr>)"

inductive faulty_serving_step :: "'c EVP \<Rightarrow> uint64 \<Rightarrow> gated_node \<Rightarrow> gated_node \<Rightarrow> bool" for evp limit where
  gate_latency: "i < length (gates y) \<Longrightarrow> gates y ! i = Latency_gate fr call \<Longrightarrow>
     faulty_serving_step evp limit y (y\<lparr>gates := (gates y)[i :=
       if pending_latency (injector y) > 0 then Sleep_gate fr call (pending_latency (injector y)) else Decision_gate fr call]\<rparr>)"
| gate_wakes: "i < length (gates y) \<Longrightarrow> gates y ! i = Sleep_gate fr call ms \<Longrightarrow>
     faulty_serving_step evp limit y (y\<lparr>gates := (gates y)[i := Decision_gate fr call],
       injector := (injector y)\<lparr>slept := slept (injector y) @ [ms]\<rparr>\<rparr>)"
| gate_decides: "i < length (gates y) \<Longrightarrow> gates y ! i = Decision_gate fr call \<Longrightarrow>
     faulty_serving_step evp limit y (node_decides limit i fr call y)"
| past_gates: "serving_step evp limit (beyond y) b \<Longrightarrow> faulty_serving_step evp limit y (y\<lparr>beyond := b\<rparr>)"

fun gate_free :: "gate \<Rightarrow> worker_state \<Rightarrow> bool" where
  "gate_free Beyond st = free st"
| "gate_free (Struck r reply) st = True"
| "gate_free g st = False"

inductive faulty_node_step :: "'c EVP \<Rightarrow> uint64 \<Rightarrow> gated_node \<Rightarrow> gated_node \<Rightarrow> bool" for evp limit where
  gate_arrival: "i < length (gates y) \<Longrightarrow> gate_free (gates y ! i) (worker_state (workers (beyond y) ! i)) \<Longrightarrow>
     faulty_node_step evp limit y (rpc_at_gate limit i r y)"
| gate_serving: "faulty_serving_step evp limit y y' \<Longrightarrow> faulty_node_step evp limit y y'"
| gate_os: "uuid_wf (os_uuid osa) \<Longrightarrow> os_stat_ok osa \<Longrightarrow>
     faulty_node_step evp limit y (y\<lparr>beyond := map_process (\<lambda>p. p\<lparr>shared := (shared p)\<lparr>os := osa\<rparr>\<rparr>) (beyond y)\<rparr>)"
| drive_next: "faulty_node_step evp limit y (y\<lparr>injector := InjectFailureOnNextCall e (injector y)\<rparr>)"
| drive_nth: "faulty_node_step evp limit y (y\<lparr>injector := InjectFailureAfterNCalls n e (injector y)\<rparr>)"
| drive_latency: "faulty_node_step evp limit y (y\<lparr>injector := InjectLatency ms (injector y)\<rparr>)"
| drive_clear: "faulty_node_step evp limit y (y\<lparr>injector := ClearInjectedFaults (injector y)\<rparr>)"

inductive_cases faulty_serving_stepE: "faulty_serving_step evp limit y y'"
inductive_cases faulty_node_stepE: "faulty_node_step evp limit y y'"

definition faulty_node_start :: "nat \<Rightarrow> LocalDisk \<Rightarrow> gated_node" where
  "faulty_node_start n s = \<lparr>injector = FaultInjecting_new (), beyond = node_start n s, gates = replicate n Beyond\<rparr>"

text \<open>The reply a worker has given last.\<close>

fun gate_reply :: "gate \<Rightarrow> worker_state \<Rightarrow> (rpc \<times> rpc_reply run) option" where
  "gate_reply Beyond (Replied r reply) = Some (r, reply)"
| "gate_reply (Struck r reply) st = Some (r, reply)"
| "gate_reply g st = None"

definition replies :: "gated_node \<Rightarrow> (rpc \<times> rpc_reply run) option list" where
  "replies y = map (\<lambda>(g, w). gate_reply g (worker_state w)) (zip (gates y) (workers (beyond y)))"

section \<open>The invariant\<close>

fun at_gate :: "gate \<Rightarrow> (handler_frame \<times> store_call) option" where
  "at_gate (Latency_gate fr call) = Some (fr, call)"
| "at_gate (Sleep_gate fr call ms) = Some (fr, call)"
| "at_gate (Decision_gate fr call) = Some (fr, call)"
| "at_gate g = None"

definition gate_ok :: "uint64 \<Rightarrow> rpc list \<Rightarrow> gate \<Rightarrow> worker \<Rightarrow> bool" where
  "gate_ok limit rs g w \<longleftrightarrow> (g = Beyond \<or> worker_state w = Waiting_for_rpc) \<and>
     (\<forall>fr call. at_gate g = Some (fr, call) \<longrightarrow> asks limit (frame_rpc fr) call \<and> frame_rpc fr \<in> set rs \<and>
        thread_correlation_id w = rpc_correlation_id (frame_rpc fr)) \<and>
     (\<forall>r reply. g = Struck r reply \<longrightarrow> (\<exists>call e. asks limit r call \<and> reply = reply_to r (injected_answer call e)))"

definition faulty_node_inv :: "uint64 \<Rightarrow> gated_node \<Rightarrow> bool" where
  "faulty_node_inv limit y \<longleftrightarrow> node_inv limit (beyond y) \<and>
     list_all2 (gate_ok limit (arrived (beyond y))) (gates y) (workers (beyond y))"

lemma gate_okD:
  assumes "faulty_node_inv limit y" "i < length (gates y)"
  shows "gate_ok limit (arrived (beyond y)) (gates y ! i) (workers (beyond y) ! i)" "i < length (workers (beyond y))"
    "i < length (pool (store_threads (beyond y)))" "node_inv limit (beyond y)"
  using assms node_inv_length [of limit "beyond y"] by (auto simp: faulty_node_inv_def list_all2_conv_all_nth)

lemma gates_arrived:
  assumes "list_all2 (gate_ok limit rs) gs ws" "set rs \<subseteq> set rs'"
  shows "list_all2 (gate_ok limit rs') gs ws"
  using assms(1) by (rule list_all2_mono) (use assms(2) in \<open>auto simp: gate_ok_def\<close>)

lemma free_resting: "node_inv limit b \<Longrightarrow> i < length (workers b) \<Longrightarrow> free (worker_state (workers b ! i)) \<Longrightarrow> resting (pool (store_threads b) ! i)"
  using worker_okD(1) [of limit b i] by (cases "worker_state (workers b ! i)") (auto simp: worker_ok_def)

lemma gate_resting:
  assumes "faulty_node_inv limit y" "i < length (gates y)"
    "gates y ! i \<noteq> Beyond \<or> free (worker_state (workers (beyond y) ! i))"
  shows "resting (pool (store_threads (beyond y)) ! i)"
  using free_resting [OF gate_okD(4,2) [OF assms(1,2)]] gate_okD(1) [OF assms(1,2)] assms(3) by (auto simp: gate_ok_def)

text \<open>A worker that is sent back to wait, and one that goes beyond the gate.\<close>

lemma waiting_worker:
  assumes "node_inv limit b" "lines_sent b'" "calls_arrived limit b'" "workers b' = workers b"
    "pool (store_threads b') = pool (store_threads b)" "resting (pool (store_threads b) ! i)"
  shows "node_inv limit (set_worker i corr Waiting_for_rpc b')"
  using assms by (simp add: node_inv_def calls_arrived_def lines_sent_def list_all2_update_one worker_ok_def)

lemma enter_store_inv:
  assumes "node_inv limit b" "resting (pool (store_threads b) ! i)" "asks limit (frame_rpc fr) call" "frame_rpc fr \<in> set (arrived b)"
  shows "node_inv limit (enter_store i fr (rpc_correlation_id (frame_rpc fr)) call b)"
proof (cases "call = Call_GetStats")
  case True
  then show ?thesis using assms
    by (simp add: enter_store_def node_inv_def calls_arrived_def lines_sent_def list_all2_update_one worker_ok_def)
next
  case False
  then have "starts (disk_op call)" using asks_wf [OF assms(3)] by simp
  then show ?thesis using False assms starts_carries_out [of call]
    by (auto simp: enter_store_def node_inv_def calls_arrived_def lines_sent_def list_all2_update_cong worker_ok_def)
qed

lemma enter_store_refines:
  assumes "i < length (pool (store_threads b))" "resting (pool (store_threads b) ! i)" "asks limit r call"
  shows "(system_step evp)\<^sup>=\<^sup>= (silent b) (silent (enter_store i fr corr call b))"
proof (cases "call = Call_GetStats")
  case False
  then have "starts (disk_op call)" using asks_wf [OF assms(3)] by simp
  then have "system_step evp (silent b) ((silent b)\<lparr>pool := (pool (silent b))[i := disk_op call],
      called := disk_op call # called (silent b)\<rparr>)"
    using assms(1,2) by (intro system_step.call) simp_all
  moreover have "silent (enter_store i fr corr call b) = (silent b)\<lparr>pool := (pool (silent b))[i := disk_op call],
      called := disk_op call # called (silent b)\<rparr>"
    using False by (simp add: enter_store_def silent_def)
  ultimately show ?thesis by auto
qed (simp add: enter_store_def)

lemma enter_store_workers [simp]:
  "workers (enter_store i fr corr call b) = (workers b)[i := \<lparr>thread_correlation_id = corr, worker_state =
     if call = Call_GetStats then Stats_space fr else In_store fr call\<rparr>]"
  "arrived (enter_store i fr corr call b) = arrived b"
  by (simp_all add: enter_store_def)

lemma injected_fits: "fits call (injected_answer call e)"
  by (cases call) simp_all

section \<open>Every step keeps it\<close>

lemma at_gate_cases:
  obtains (answered) q ls corr where "refused q"
    "rpc_at_gate limit i r y = y\<lparr>beyond := set_worker i corr (Replied r (Returns q))
       ((log_lines (rpc_correlation_id r) ls (beyond y))\<lparr>arrived := r # arrived (beyond y)\<rparr>), gates := (gates y)[i := Beyond]\<rparr>"
    "list_all (sent_as (rpc_correlation_id r)) ls"
  | (asked) ls fr call where "frame_rpc fr = r" "asks limit r call"
    "rpc_at_gate limit i r y = y\<lparr>beyond := set_worker i (rpc_correlation_id r) Waiting_for_rpc
       ((log_lines (rpc_correlation_id r) ls (beyond y))\<lparr>arrived := r # arrived (beyond y)\<rparr>),
       gates := (gates y)[i := Latency_gate fr call]\<rparr>"
    "list_all (sent_as (rpc_correlation_id r)) ls"
proof -
  obtain reply ls corr call where h: "run_handler limit r None (thread_correlation_id (workers (beyond y) ! i))
      (logger (node_store (beyond y))) = (reply, ls, corr, call)"
    using prod_cases4 by blast
  note w = run_handler_writes(1,2) [OF h]
  from run_handler_asks [OF h] show thesis
  proof (elim disjE exE conjE)
    fix q assume "reply = Returns q" "refused q" "call = None"
    then show thesis using answered w h by (simp add: rpc_at_gate_def)
  next
    fix c assume "reply = Blocks" "call = Some c" "asks limit r c"
    then show thesis using w h
      by (intro asked [of "\<lparr>frame_rpc = r, frame_written = length ls, frame_previous = thread_correlation_id (workers (beyond y) ! i)\<rparr>" c ls])
         (simp_all add: rpc_at_gate_def)
  qed
qed

lemma arrived_lines:
  assumes "node_inv limit b" "list_all (sent_as (rpc_correlation_id r)) ls"
  shows "lines_sent ((log_lines (rpc_correlation_id r) ls b)\<lparr>arrived := rs @ arrived b\<rparr>)"
    "calls_arrived limit ((log_lines (rpc_correlation_id r) ls b)\<lparr>arrived := rs @ arrived b\<rparr>)"
  using assms(1) log_lines_sent [OF _ assms(2), of b]
  by (auto simp: node_inv_def lines_sent_def calls_arrived_def) (metis Un_iff)

lemma at_gate_inv:
  assumes inv: "faulty_node_inv limit y" and i: "i < length (gates y)"
    and fr: "gate_free (gates y ! i) (worker_state (workers (beyond y) ! i))"
  shows "faulty_node_inv limit (rpc_at_gate limit i r y)" "silent (beyond (rpc_at_gate limit i r y)) = silent (beyond y)"
proof -
  have rest: "resting (pool (store_threads (beyond y)) ! i)"
    using gate_resting [OF inv i] fr by (cases "gates y ! i") auto
  note b = gate_okD(4) [OF inv i]
  have gs: "list_all2 (gate_ok limit (r # arrived (beyond y))) (gates y) (workers (beyond y))"
    using inv by (auto simp: faulty_node_inv_def intro: gates_arrived)
  note lines = arrived_lines [OF b, of r _ "[r]", simplified]
  show "faulty_node_inv limit (rpc_at_gate limit i r y)"
  proof (cases rule: at_gate_cases [of limit i r y])
    case (answered q ls corr)
    have "node_inv limit (set_worker i corr (Replied r (Returns q)) ((log_lines (rpc_correlation_id r) ls (beyond y))\<lparr>arrived := r # arrived (beyond y)\<rparr>))"
      using b lines [OF answered(3)] rest answered(1)
      by (simp add: node_inv_def calls_arrived_def lines_sent_def list_all2_update_one worker_ok_def backed_def)
    then show ?thesis using gs unfolding answered(2)
      by (auto simp: faulty_node_inv_def gate_ok_def intro!: list_all2_update_cong)
  next
    case (asked ls f call)
    then show ?thesis using gs waiting_worker [OF b lines(1,2) [OF asked(4)], of i] rest unfolding asked(3)
      by (auto simp: faulty_node_inv_def gate_ok_def intro!: list_all2_update_cong)
  qed
  show "silent (beyond (rpc_at_gate limit i r y)) = silent (beyond y)"
    by (cases rule: at_gate_cases [of limit i r y]) simp_all
qed

lemma struck_inv:
  assumes inv: "faulty_node_inv limit y" and i: "i < length (gates y)" and g: "at_gate (gates y ! i) = Some (fr, call)"
  shows "faulty_node_inv limit (struck limit i fr (injected_answer call e) y)"
    "silent (beyond (struck limit i fr (injected_answer call e) y)) = silent (beyond y)"
proof -
  have rest: "resting (pool (store_threads (beyond y)) ! i)"
    using gate_resting [OF inv i] g by (cases "gates y ! i") auto
  have ok: "asks limit (frame_rpc fr) call" using gate_okD(1) [OF inv i] g by (simp add: gate_ok_def)
  note b = gate_okD(4) [OF inv i]
  let ?a = "injected_answer call e" and ?c = "rpc_correlation_id (frame_rpc fr)"
  obtain reply ls corr c where h: "run_handler limit (frame_rpc fr) (Some ?a) (frame_previous fr)
      (logger (node_store (beyond y))) = (reply, ls, corr, c)"
    using prod_cases4 by blast
  let ?ls = "drop (frame_written fr) ls"
  have lines: "lines_sent (log_lines ?c ?ls (beyond y))" "calls_arrived limit (log_lines ?c ?ls (beyond y))"
    using arrived_lines [OF b list_all_drop [OF run_handler_writes(1) [OF h]], of "[]"]
    by (simp_all add: lines_sent_def calls_arrived_def)
  have "reply = reply_to (frame_rpc fr) ?a" using run_handler_answers [OF h ok injected_fits] by simp
  then have "gate_ok limit rs (Struck (frame_rpc fr) reply) \<lparr>thread_correlation_id = corr, worker_state = Waiting_for_rpc\<rparr>" for rs
    using ok by (auto simp: gate_ok_def)
  then show "faulty_node_inv limit (struck limit i fr ?a y)"
    using inv waiting_worker [OF b lines, of i] rest h
    by (auto simp: struck_def faulty_node_inv_def intro!: list_all2_update_cong)
  show "silent (beyond (struck limit i fr ?a y)) = silent (beyond y)" using h by (simp add: struck_def)
qed

lemma decides_cases:
  obtains (strikes) e f where "ShouldInjectFault (injector y) = (Some e, f)"
    "node_decides limit i fr call y = struck limit i fr (injected_answer call e) (y\<lparr>injector := f\<rparr>)"
  | (passes) f where "ShouldInjectFault (injector y) = (None, f)"
    "node_decides limit i fr call y = y\<lparr>injector := f,
       beyond := enter_store i fr (thread_correlation_id (workers (beyond y) ! i)) call (beyond y), gates := (gates y)[i := Beyond]\<rparr>"
proof -
  obtain d f where d: "ShouldInjectFault (injector y) = (d, f)" by fastforce
  then show thesis using that by (cases d) (simp_all add: node_decides_def)
qed

lemma injector_free [simp]: "faulty_node_inv limit (y\<lparr>injector := f\<rparr>) = faulty_node_inv limit y"
  by (simp add: faulty_node_inv_def)

lemma decides_inv:
  assumes inv: "faulty_node_inv limit y" and i: "i < length (gates y)" and g: "gates y ! i = Decision_gate fr call"
  shows "faulty_node_inv limit (node_decides limit i fr call y)"
    "(system_step evp)\<^sup>=\<^sup>= (silent (beyond y)) (silent (beyond (node_decides limit i fr call y)))"
proof -
  have ok: "asks limit (frame_rpc fr) call" "frame_rpc fr \<in> set (arrived (beyond y))"
      "thread_correlation_id (workers (beyond y) ! i) = rpc_correlation_id (frame_rpc fr)"
    using gate_okD(1) [OF inv i] g by (simp_all add: gate_ok_def)
  have rest: "resting (pool (store_threads (beyond y)) ! i)" using gate_resting [OF inv i] g by simp
  show "faulty_node_inv limit (node_decides limit i fr call y)"
  proof (cases rule: decides_cases [of y limit i fr call])
    case (strikes e f)
    then show ?thesis using struck_inv(1) [of limit "y\<lparr>injector := f\<rparr>" i] inv i g by simp
  next
    case (passes f)
    then show ?thesis
      using inv enter_store_inv [OF gate_okD(4) [OF inv i] rest ok(1,2)] unfolding passes(2) ok(3)
      by (auto simp: faulty_node_inv_def gate_ok_def intro!: list_all2_update_cong)
  qed
  show "(system_step evp)\<^sup>=\<^sup>= (silent (beyond y)) (silent (beyond (node_decides limit i fr call y)))"
  proof (cases rule: decides_cases [of y limit i fr call])
    case (strikes e f)
    then show ?thesis using struck_inv(2) [of limit "y\<lparr>injector := f\<rparr>" i] inv i g by simp
  next
    case (passes f)
    then show ?thesis using enter_store_refines [OF gate_okD(3) [OF inv i] rest ok(1)] by simp
  qed
qed

lemma serving_worker:
  assumes "serving_step evp limit b b'"
  obtains i w where "i < length (workers b)" "\<not> free (worker_state (workers b ! i))" "workers b' = (workers b)[i := w]"
    "arrived b' = arrived b"
proof -
  have arr: "arrived b' = arrived b" using serving_arrived [of evp limit b b'] r_into_rtranclp [of "serving_step evp limit", OF assms] by blast
  from assms show thesis
  proof (cases rule: serving_step.cases)
    case (in_store i fr call)
    then have "workers b' = (workers b)[i := workers b ! i]" by (auto simp: store_steps_def Let_def split: option.splits)
    then show thesis using in_store arr by (intro that [of i "workers b ! i"]) simp_all
  next
    case (answered i fr call out cid)
    then show thesis using that [of i] arr store_answers_replies [of limit i fr "answer_of call out" b] by (metis free.simps(3))
  next
    case (space i corr fr)
    then show thesis using that [of i] arr by simp
  next
    case (load_count i corr fr avail)
    then show thesis using that [of i] arr by simp
  next
    case (load_bytes i fr avail chunks)
    then show thesis using that [of i] arr store_answers_replies by (metis free.simps(6))
  qed
qed

lemma beyond_inv:
  assumes "serving_step evp limit (beyond y) b" "faulty_node_inv limit y"
  shows "faulty_node_inv limit (y\<lparr>beyond := b\<rparr>)"
proof -
  obtain i w where w: "i < length (workers (beyond y))" "\<not> free (worker_state (workers (beyond y) ! i))"
      "workers b = (workers (beyond y))[i := w]" "arrived b = arrived (beyond y)"
    by (rule serving_worker [OF assms(1)])
  have "i < length (gates y)" using w(1) assms(2) list_all2_lengthD by (fastforce simp: faulty_node_inv_def)
  then have "gates y ! i = Beyond" using gate_okD(1) [OF assms(2)] w(2) by (force simp: gate_ok_def)
  then have "gate_ok limit (arrived b) (gates y ! i) w" by (simp add: gate_ok_def)
  then show ?thesis using assms(2) serving_inv [OF assms(1)] w(3,4) by (simp add: faulty_node_inv_def list_all2_update_one)
qed

lemma gate_moves:
  assumes "faulty_node_inv limit y" "i < length (gates y)" "at_gate g = at_gate (gates y ! i)" "at_gate g \<noteq> None"
  shows "faulty_node_inv limit (y\<lparr>gates := (gates y)[i := g]\<rparr>)"
proof -
  have "gate_ok limit (arrived (beyond y)) g (workers (beyond y) ! i)"
    using gate_okD(1) [OF assms(1,2)] assms(3,4) by (cases "gates y ! i"; cases g) (auto simp: gate_ok_def)
  then show ?thesis using assms(1) by (simp add: faulty_node_inv_def list_all2_update_one)
qed

lemma faulty_serving_inv:
  assumes "faulty_serving_step evp limit y y'" "faulty_node_inv limit y"
  shows "faulty_node_inv limit y'" "(system_step evp)\<^sup>=\<^sup>= (silent (beyond y)) (silent (beyond y'))"
proof -
  from assms(1) show "faulty_node_inv limit y'"
  proof (cases rule: faulty_serving_step.cases)
    case (gate_latency i fr call)
    then show ?thesis using gate_moves [OF assms(2) gate_latency(2)] by simp
  next
    case (gate_wakes i fr call ms)
    then show ?thesis using gate_moves [OF assms(2) gate_wakes(2), of "Decision_gate fr call"] by (simp add: faulty_node_inv_def)
  next
    case (gate_decides i fr call)
    then show ?thesis using decides_inv(1) [OF assms(2)] by simp
  next
    case (past_gates b)
    then show ?thesis using beyond_inv assms(2) by blast
  qed
  from assms(1) show "(system_step evp)\<^sup>=\<^sup>= (silent (beyond y)) (silent (beyond y'))"
  proof (cases rule: faulty_serving_step.cases)
    case (gate_decides i fr call)
    then show ?thesis using decides_inv(2) [OF assms(2)] by simp
  next
    case (past_gates b)
    then show ?thesis using serving_refines [of evp limit "beyond y" b] assms(2) by (simp add: faulty_node_inv_def)
  qed simp_all
qed

interpretation faulty_node_refines:
  step_refinement "faulty_node_step evp limit" "faulty_node_inv limit" "system_step evp" "\<lambda>y. silent (beyond y)" for evp limit
proof unfold_locales
  fix y y' assume step: "faulty_node_step evp limit y y'"
  show "faulty_node_inv limit y \<Longrightarrow> faulty_node_inv limit y'"
    using step
    by (cases rule: faulty_node_step.cases)
       (auto intro: at_gate_inv faulty_serving_inv(1), simp add: faulty_node_inv_def node_inv_def calls_arrived_def lines_sent_def)
  assume inv: "faulty_node_inv limit y"
  from step have "(system_step evp)\<^sup>=\<^sup>= (silent (beyond y)) (silent (beyond y'))"
  proof (cases rule: faulty_node_step.cases)
    case (gate_os osa)
    have "node_step evp limit (beyond y) (map_process (\<lambda>p. p\<lparr>shared := (shared p)\<lparr>os := osa\<rparr>\<rparr>) (beyond y))"
      using gate_os(2,3) by (rule node_step.os_changes)
    from node_step_refines [OF this] inv show ?thesis by (simp add: gate_os(1) faulty_node_inv_def)
  qed (use inv in \<open>auto simp: at_gate_inv(2) dest: faulty_serving_inv(2)\<close>)
  then show "(system_step evp)\<^sup>*\<^sup>* (silent (beyond y)) (silent (beyond y'))" by (rule refl_run)
qed

lemma faulty_node_inv_start: "faulty_node_inv limit (faulty_node_start n s)"
  using node_inv_start [of limit n s]
  by (simp add: faulty_node_inv_def faulty_node_start_def node_start_def list_all2_conv_all_nth gate_ok_def)

lemma faulty_node_run:
  assumes "(faulty_node_step evp limit)\<^sup>*\<^sup>* (faulty_node_start n s) y"
  shows "faulty_node_inv limit y" "(system_step evp)\<^sup>*\<^sup>* (system_start n (s\<lparr>logger := mute\<rparr>)) (silent (beyond y))"
  using faulty_node_refines.run_keeps [OF assms faulty_node_inv_start]
    faulty_node_refines.run_refines [OF assms faulty_node_inv_start]
  by (simp_all add: silent_start faulty_node_start_def)

section \<open>Every call is answered\<close>

definition entry_left :: "store_call \<Rightarrow> nat" where
  "entry_left call = (if call = Call_GetStats then 3 else Suc (steps_left (disk_op call)))"

fun gate_left :: "gate \<Rightarrow> nat" where
  "gate_left (Latency_gate fr call) = entry_left call + 3"
| "gate_left (Sleep_gate fr call ms) = entry_left call + 2"
| "gate_left (Decision_gate fr call) = entry_left call + 1"
| "gate_left g = 0"

definition faulty_left :: "gated_node \<Rightarrow> nat" where
  "faulty_left y = serving_left (beyond y) + sum_list (map gate_left (gates y))"

lemma gates_left_update:
  "i < length gs \<Longrightarrow> sum_list (map gate_left (gs[i := g])) + gate_left (gs ! i) = sum_list (map gate_left gs) + gate_left g"
  using sum_list_update_add [of i gs gate_left g] by simp

lemma serving_left_change:
  assumes "i < length (workers b)" "length (pool (store_threads b)) = length (workers b)"
    "workers b' = (workers b)[i := w]" "pool (store_threads b') = (pool (store_threads b))[i := t]"
    "worker_state (workers b ! i) = Waiting_for_rpc"
  shows "serving_left b' = serving_left b + worker_left (worker_state w) t"
  using sum_list_update_add [of i "zip (workers b) (pool (store_threads b))" "\<lambda>(w, t). worker_left (worker_state w) t" "(w, t)"]
    assms
  by (simp add: serving_left_def zip_update)

lemma enter_store_left:
  assumes "i < length (workers b)" "length (pool (store_threads b)) = length (workers b)"
    "worker_state (workers b ! i) = Waiting_for_rpc"
  shows "serving_left (enter_store i fr corr call b) = serving_left b + entry_left call"
proof (cases "call = Call_GetStats")
  case True
  then show ?thesis using assms
    by (subst serving_left_change [OF assms(1,2), of _ "\<lparr>thread_correlation_id = corr, worker_state = Stats_space fr\<rparr>"
          "pool (store_threads b) ! i"]) (simp_all add: entry_left_def enter_store_def)
next
  case False
  then show ?thesis using assms
    by (subst serving_left_change [OF assms(1,2), of _ "\<lparr>thread_correlation_id = corr, worker_state = In_store fr call\<rparr>" "disk_op call"])
       (simp_all add: entry_left_def enter_store_def)
qed

lemma struck_left:
  assumes "i < length (workers (beyond y))" "length (pool (store_threads (beyond y))) = length (workers (beyond y))"
    "worker_state (workers (beyond y) ! i) = Waiting_for_rpc"
  shows "serving_left (beyond (struck limit i fr a y)) = serving_left (beyond y)"
proof -
  obtain reply ls corr c where "run_handler limit (frame_rpc fr) (Some a) (frame_previous fr)
      (logger (node_store (beyond y))) = (reply, ls, corr, c)"
    using prod_cases4 by blast
  then show ?thesis using assms
    by (subst serving_left_change [OF assms(1,2), of _ "\<lparr>thread_correlation_id = corr, worker_state = Waiting_for_rpc\<rparr>"
          "pool (store_threads (beyond y)) ! i"]) (simp_all add: struck_def)
qed

lemma struck_gates: "\<exists>reply. gates (struck limit i fr a y) = (gates y)[i := Struck (frame_rpc fr) reply]"
  by (cases "run_handler limit (frame_rpc fr) (Some a) (frame_previous fr) (logger (node_store (beyond y)))")
     (auto simp: struck_def)

lemma decides_left:
  assumes inv: "faulty_node_inv limit y" and i: "i < length (gates y)" and g: "gates y ! i = Decision_gate fr call"
  shows "faulty_left (node_decides limit i fr call y) < faulty_left y"
proof -
  have w: "worker_state (workers (beyond y) ! i) = Waiting_for_rpc" using gate_okD(1) [OF inv i] g by (simp add: gate_ok_def)
  note len = node_inv_length [OF gate_okD(4) [OF inv i]]
  have gl: "sum_list (map gate_left ((gates y)[i := g'])) + gate_left (Decision_gate fr call) = sum_list (map gate_left (gates y)) + gate_left g'" for g'
    using gates_left_update [OF i, of g'] g by simp
  show ?thesis
  proof (cases rule: decides_cases [of y limit i fr call])
    case (strikes e f)
    obtain reply where "gates (struck limit i fr (injected_answer call e) (y\<lparr>injector := f\<rparr>)) = (gates y)[i := Struck (frame_rpc fr) reply]"
      using struck_gates [of limit i fr "injected_answer call e" "y\<lparr>injector := f\<rparr>"] by auto
    then show ?thesis
      using gl [of "Struck (frame_rpc fr) reply"] struck_left [of i "y\<lparr>injector := f\<rparr>"] gate_okD(2) [OF inv i] len w
      unfolding strikes(2) by (simp add: faulty_left_def)
  next
    case (passes f)
    then show ?thesis using gl [of Beyond] enter_store_left [OF gate_okD(2) [OF inv i] len w] by (simp add: faulty_left_def)
  qed
qed

definition faulty_busy_inv :: "'c EVP \<Rightarrow> uint64 \<Rightarrow> gated_node \<Rightarrow> bool" where
  "faulty_busy_inv evp limit y \<longleftrightarrow> faulty_node_inv limit y \<and> system_inv evp (silent (beyond y))"

interpretation faulty_serving: step_measure "faulty_serving_step evp limit" "faulty_busy_inv evp limit" faulty_left for evp limit
proof unfold_locales
  fix y y' assume step: "faulty_serving_step evp limit y y'"
  show "faulty_busy_inv evp limit y \<Longrightarrow> faulty_busy_inv evp limit y'"
    using faulty_serving_inv [OF step] system_run.run_keeps [OF refl_run]
    by (auto simp: faulty_busy_inv_def)
  assume inv: "faulty_busy_inv evp limit y"
  from step show "faulty_left y' < faulty_left y"
  proof (cases rule: faulty_serving_step.cases)
    case (gate_latency i fr call)
    then show ?thesis using gates_left_update [OF gate_latency(2), of "gates y' ! i"] by (auto simp: faulty_left_def)
  next
    case (gate_wakes i fr call ms)
    then show ?thesis using gates_left_update [OF gate_wakes(2), of "Decision_gate fr call"] by (simp add: faulty_left_def)
  next
    case (gate_decides i fr call)
    then show ?thesis using decides_left inv by (simp add: faulty_busy_inv_def)
  next
    case (past_gates b)
    then show ?thesis using serving_decreases [OF past_gates(2)] inv by (simp add: faulty_busy_inv_def faulty_node_inv_def faulty_left_def)
  qed
qed

lemma faulty_progress:
  assumes "faulty_busy_inv evp limit y" "relock (node_store (beyond y)) \<noteq> Relock_blocks" "i < length (gates y)"
    "\<not> gate_free (gates y ! i) (worker_state (workers (beyond y) ! i))"
  shows "\<exists>y'. faulty_serving_step evp limit y y'"
proof (cases "gates y ! i")
  case Beyond
  have inv: "faulty_node_inv limit y" using assms(1) by (simp add: faulty_busy_inv_def)
  have "busy_inv evp limit (beyond y)" using assms(1) by (simp add: faulty_busy_inv_def faulty_node_inv_def busy_inv_def)
  from serving_progress [OF this assms(2) nth_mem [OF gate_okD(2) [OF inv assms(3)]]] assms(4) Beyond
  show ?thesis by (auto intro: faulty_serving_step.past_gates)
qed (use assms(3,4) faulty_serving_step.intros(1-3) in \<open>fastforce+\<close>)

lemma faulty_busy_run:
  assumes "LocalDisk_inv s" "stripe_locks s = {}" "(faulty_node_step evp limit)\<^sup>*\<^sup>* (faulty_node_start n s) y"
  shows "faulty_busy_inv evp limit y"
  using faulty_node_run [OF assms(3)] reachable_inv [of "s\<lparr>logger := mute\<rparr>" evp n "silent (beyond y)"] assms(1,2)
  by (simp add: faulty_busy_inv_def)

lemma faulty_relock:
  "(faulty_node_step evp limit)\<^sup>*\<^sup>* (faulty_node_start n s) y \<Longrightarrow> relock (node_store (beyond y)) = relock s"
  using system_relock [OF faulty_node_run(2)] by (fastforce simp: system_start_def)

lemma faulty_serving_runs: "(faulty_serving_step evp limit)\<^sup>*\<^sup>* y z \<Longrightarrow> (faulty_node_step evp limit)\<^sup>*\<^sup>* y z"
  by (rule rtranclp_mono [THEN predicate2D, rotated]) (auto intro: faulty_node_step.gate_serving)

section \<open>A worker alone\<close>

lemma through_gate:
  assumes "i < length (gates y)" "gates y ! i = Latency_gate fr call"
  shows "(faulty_serving_step evp limit)\<^sup>*\<^sup>* y
    (node_decides limit i fr call (y\<lparr>injector := ApplyLatency (injector y), gates := (gates y)[i := Decision_gate fr call]\<rparr>))"
proof -
  let ?l = "pending_latency (injector y)"
  let ?y1 = "y\<lparr>gates := (gates y)[i := Sleep_gate fr call ?l]\<rparr>"
  let ?y2 = "y\<lparr>injector := ApplyLatency (injector y), gates := (gates y)[i := Decision_gate fr call]\<rparr>"
  have "(faulty_serving_step evp limit)\<^sup>*\<^sup>* y ?y2"
  proof (cases "?l > 0")
    case True
    have "faulty_serving_step evp limit y ?y1" using faulty_serving_step.gate_latency [OF assms, of evp limit] True by simp
    moreover have "faulty_serving_step evp limit ?y1 ?y2"
      using faulty_serving_step.gate_wakes [of i ?y1 fr call ?l evp limit] assms(1) True by (cases y) (simp add: ApplyLatency_def)
    ultimately show ?thesis by auto
  next
    case False
    then have "faulty_serving_step evp limit y ?y2"
      using faulty_serving_step.gate_latency [OF assms, of evp limit] by (cases y) (simp add: ApplyLatency_def)
    then show ?thesis by auto
  qed
  also have "faulty_serving_step evp limit ?y2 (node_decides limit i fr call ?y2)"
    using assms(1) by (intro faulty_serving_step.gate_decides) simp_all
  finally show ?thesis .
qed

text \<open>A call that no fault strikes comes to the delegate as if the injector were not there.\<close>

lemma passes_as_arrival:
  assumes "asks limit r call" "i < length (gates y)" "i < length (workers (beyond y))"
    "ShouldInjectFault (ApplyLatency (injector y)) = (None, f)"
  shows "(faulty_serving_step evp limit)\<^sup>*\<^sup>* (rpc_at_gate limit i r y)
    (y\<lparr>injector := f, beyond := rpc_arrives limit i r (beyond y), gates := (gates y)[i := Beyond]\<rparr>)"
proof -
  define previous where "previous = thread_correlation_id (workers (beyond y) ! i)"
  obtain ls where h: "run_handler limit r None previous (logger (node_store (beyond y))) = (Blocks, ls, rpc_correlation_id r, Some call)"
    using run_handler_first [OF assms(1)] by blast
  define fr where "fr = \<lparr>frame_rpc = r, frame_written = length ls, frame_previous = previous\<rparr>"
  define b where "b = (log_lines (rpc_correlation_id r) ls (beyond y))\<lparr>arrived := r # arrived (beyond y)\<rparr>"
  define y1 where "y1 = y\<lparr>beyond := set_worker i (rpc_correlation_id r) Waiting_for_rpc b, gates := (gates y)[i := Latency_gate fr call]\<rparr>"
  have gate: "rpc_at_gate limit i r y = y1"
    using h by (simp add: rpc_at_gate_def y1_def b_def fr_def Let_def flip: previous_def)
  have arrival: "rpc_arrives limit i r (beyond y) = enter_store i fr (rpc_correlation_id r) call b"
    using h by (simp add: rpc_arrives_def b_def fr_def Let_def flip: previous_def)
  have "(faulty_serving_step evp limit)\<^sup>*\<^sup>* y1
      (node_decides limit i fr call (y1\<lparr>injector := ApplyLatency (injector y1), gates := (gates y1)[i := Decision_gate fr call]\<rparr>))"
    by (rule through_gate) (use assms(2) in \<open>simp_all add: y1_def\<close>)
  moreover have "enter_store i fr (rpc_correlation_id r) call (set_worker i (rpc_correlation_id r) Waiting_for_rpc b) =
      enter_store i fr (rpc_correlation_id r) call b"
    by (cases b) (simp add: enter_store_def)
  then have "node_decides limit i fr call (y1\<lparr>injector := ApplyLatency (injector y1), gates := (gates y1)[i := Decision_gate fr call]\<rparr>) =
      y\<lparr>injector := f, beyond := rpc_arrives limit i r (beyond y), gates := (gates y)[i := Beyond]\<rparr>"
    using assms(3,4) unfolding arrival by (cases y) (simp add: y1_def node_decides_def b_def)
  ultimately show ?thesis by (simp add: gate)
qed

lemma past_gates_run:
  "(serving_step evp limit)\<^sup>*\<^sup>* (beyond y) b \<Longrightarrow> (faulty_serving_step evp limit)\<^sup>*\<^sup>* y (y\<lparr>beyond := b\<rparr>)"
proof (induction rule: rtranclp_induct)
  case (step b c)
  then show ?case using faulty_serving_step.past_gates [of evp limit "y\<lparr>beyond := b\<rparr>" c] by (auto intro: rtranclp.rtrancl_into_rtrancl)
qed simp

definition faulty_service :: "'c EVP \<Rightarrow> uint64 \<Rightarrow> LocalDisk FaultInjecting StorageNodeService" where
  "faulty_service evp limit = \<lparr>svc_store = FaultInjecting_vtable (LocalDisk_vtable evp),
     service_logger = FaultInjecting_log LocalDisk_log, max_chunk_bytes = limit\<rparr>"

lemma faulty_service_simps [simp]:
  "max_chunk_bytes (faulty_service evp limit) = limit"
  "svc_store (faulty_service evp limit) = FaultInjecting_vtable (LocalDisk_vtable evp)"
  "service_logger (faulty_service evp limit) = FaultInjecting_log LocalDisk_log"
  by (simp_all add: faulty_service_def del: LocalDisk_vtable_def)

lemma over_log [simp]:
  "modify (FaultInjecting_log LocalDisk_log) g (over f s) = over f (modify LocalDisk_log g s)"
  "deref (FaultInjecting_log LocalDisk_log) (over f s) = deref LocalDisk_log s"
  by (simp_all add: FaultInjecting_log_def)

lemma over_logs: "svc_logs (faulty_service evp limit) ls (over f s) = over f (svc_logs (disk_service evp limit) ls s)"
  by (induction ls arbitrary: s) (auto simp del: LocalDisk_vtable_def)

lemma over_scope:
  assumes "\<And>u. block (over f u) = apsnd (over f') (block' u)"
  shows "correlation_scope (FaultInjecting_log LocalDisk_log) c block (over f s) =
    apsnd (over f') (correlation_scope LocalDisk_log c block' s)"
proof -
  obtain m v where "block' (modify LocalDisk_log (\<lambda>lg. snd (WithCorrelationId c lg)) s) = (m, v)" by fastforce
  then show ?thesis using assms by (cases m) (simp_all add: correlation_scope_def WithCorrelationId_def)
qed

lemma serve_faulty_passes:
  assumes "asks limit r call" "ShouldInjectFault (ApplyLatency f) = (None, f1)"
  shows "serve (faulty_service evp limit) r (over f s) = apsnd (over f1) (serve (disk_service evp limit) r s)"
proof -
  have "serve (faulty_service evp limit) r (over f s) = planned (faulty_service evp limit) r call (over f s)"
    "serve (disk_service evp limit) r s = planned (disk_service evp limit) r call s"
    using assms(1) by (simp_all add: serve_planned del: serve.simps)
  then show ?thesis unfolding planned_def faulty_service_simps disk_service_simps using assms(2)
    by (simp add: over_logs faulty_call split_def Let_def over_scope del: serve.simps LocalDisk_vtable_def)
qed

lemma serve_faulty_struck:
  assumes "asks limit r call" "ShouldInjectFault (ApplyLatency f) = (Some e, f1)" "t_correlation_id (logger s) = []"
  shows "serve (faulty_service evp limit) r (over f s) = (reply_to r (injected_answer call e), over f1
    (log_with (append_log (lines_as (rpc_correlation_id r) (before r call @ after r call (injected_answer call e)))) s))"
proof -
  let ?a = "injected_answer call e" and ?d = "disk_service evp limit"
  have "serve (faulty_service evp limit) r (over f s) = planned (faulty_service evp limit) r call (over f s)"
    using assms(1) by (simp add: serve_planned del: serve.simps)
  also have "\<dots> = apsnd (over f1) (correlation_scope LocalDisk_log (rpc_correlation_id r)
      (\<lambda>u. (reply_to r ?a, svc_logs ?d (after r call ?a) (svc_logs ?d (before r call) u))) s)"
    unfolding planned_def faulty_service_simps
    by (rule over_scope) (use assms(2) in \<open>simp add: over_logs faulty_call\<close>)
  finally have whole: "serve (faulty_service evp limit) r (over f s) = apsnd (over f1) (correlation_scope LocalDisk_log (rpc_correlation_id r)
      (\<lambda>u. (reply_to r ?a, svc_logs ?d (after r call ?a) (svc_logs ?d (before r call) u))) s)" .
  have "reply_to r ?a \<noteq> Blocks" using reply_blocks [OF assms(1) injected_fits] by (cases call) auto
  then show ?thesis using assms(3) unfolding whole
    by (cases "reply_to r ?a"; cases s; cases "logger s")
       (simp_all add: correlation_scope_def WithCorrelationId_def ScopedCorrelationId_dtor_def LocalDisk_log_def disk_logs
          del: LocalDisk_vtable_def)
qed

lemma struck_alone:
  fixes s f and limit :: uint64
  defines "y \<equiv> (faulty_node_start 1 s)\<lparr>injector := f\<rparr>"
  assumes "asks limit r call" "ShouldInjectFault (ApplyLatency f) = (Some e, f1)" "t_correlation_id (logger s) = []"
  shows "\<exists>z. (faulty_serving_step evp limit)\<^sup>*\<^sup>* (rpc_at_gate limit 0 r y) z \<and>
    replies z = [Some (r, reply_to r (injected_answer call e))] \<and> injector z = f1 \<and>
    process (store_threads (beyond z)) = \<lparr>shared = log_with (append_log (lines_as (rpc_correlation_id r)
      (before r call @ after r call (injected_answer call e)))) s, fds = []\<rparr>"
proof -
  let ?a = "injected_answer call e" and ?c = "rpc_correlation_id r"
  let ?ls = "\<lambda>ks. if op_logger (logger s) = None then [] else lines_as ?c ks"
  define fr where "fr = \<lparr>frame_rpc = r, frame_written = length (?ls (before r call)), frame_previous = ([] :: string)\<rparr>"
  define b where "b = set_worker 0 ?c Waiting_for_rpc ((log_lines ?c (?ls (before r call)) (node_start 1 s))\<lparr>arrived := [r]\<rparr>)"
  have b: "workers b = only_worker ?c Waiting_for_rpc"
    "process (store_threads b) = \<lparr>shared = log_with (append_log (lines_as ?c (before r call))) s, fds = []\<rparr>"
    by (simp_all add: b_def node_start_def log_lines_def system_start_def append_nobody)
  have gate: "rpc_at_gate limit 0 r y = \<lparr>injector = f, beyond = b, gates = [Latency_gate fr call]\<rparr>"
    using run_handler_first [OF assms(2), of "[]" "logger s"]
    by (simp add: rpc_at_gate_def y_def faulty_node_start_def node_start_def system_start_def b_def fr_def Let_def)
  let ?y = "\<lparr>injector = ApplyLatency f, beyond = b, gates = [Decision_gate fr call]\<rparr>"
  let ?z = "node_decides limit 0 fr call ?y"
  have run: "(faulty_serving_step evp limit)\<^sup>*\<^sup>* (rpc_at_gate limit 0 r y) ?z"
    unfolding gate using through_gate [of 0 "\<lparr>injector = f, beyond = b, gates = [Latency_gate fr call]\<rparr>" fr call evp limit] by simp
  have nb: "\<not> answer_blocks ?a" by (cases call) simp_all
  have op: "op_logger (logger (node_store b)) = None \<longleftrightarrow> op_logger (logger s) = None" using b(2) by simp
  have h: "run_handler limit r (Some ?a) [] (logger (node_store b)) =
      (reply_to r ?a, ?ls (before r call @ after r call ?a), [], None)"
    using run_handler_second [OF assms(2) injected_fits nb, of "[]" "logger (node_store b)"] op by simp
  have drop: "drop (frame_written fr) (?ls (before r call @ after r call ?a)) = ?ls (after r call ?a)" by (simp add: fr_def)
  have z: "?z = \<lparr>injector = f1, beyond = set_worker 0 [] Waiting_for_rpc (log_lines ?c (?ls (after r call ?a)) b),
      gates = [Struck r (reply_to r ?a)]\<rparr>"
    using assms(3) h drop by (simp add: node_decides_def struck_def fr_def del: if_image_distrib)
  have "log_with (append_log (?ls (after r call ?a))) (node_store b) = log_with (append_log (lines_as ?c (after r call ?a))) (node_store b)"
    using append_nobody [of "node_store b" "lines_as ?c (after r call ?a)"] op by simp
  then have "process (store_threads (beyond ?z)) = \<lparr>shared = log_with (append_log (lines_as ?c (before r call @ after r call ?a))) s, fds = []\<rparr>"
    unfolding z using b(2) by (simp add: log_lines_def comp_def)
  moreover have "replies ?z = [Some (r, reply_to r ?a)]" unfolding z replies_def using b(1) by simp
  ultimately show ?thesis using run z by auto
qed

lemma faulty_alone:
  assumes "asks limit r call" "stripe_locks s = {}" "relock s \<noteq> Relock_blocks" "t_correlation_id (logger s) = []"
    "serve (faulty_service evp limit) r (over f s) = (reply, f')" "reply \<noteq> Blocks"
  shows "\<exists>y. (faulty_serving_step evp limit)\<^sup>*\<^sup>* (rpc_at_gate limit 0 r ((faulty_node_start 1 s)\<lparr>injector := f\<rparr>)) y \<and>
    replies y = [Some (r, reply)] \<and> f' = over (injector y) (shared (switch_log [] (process (store_threads (beyond y))))) \<and>
    fds (process (store_threads (beyond y))) = []"
proof -
  let ?y = "(faulty_node_start 1 s)\<lparr>injector := f\<rparr>"
  obtain d f1 where d: "ShouldInjectFault (ApplyLatency f) = (d, f1)" by fastforce
  show ?thesis
  proof (cases d)
    case None
    obtain s' where s': "serve (disk_service evp limit) r s = (reply, s')" "f' = over f1 s'"
      using serve_faulty_passes [OF assms(1) d [unfolded None], of evp s] assms(5) by (cases "serve (disk_service evp limit) r s") auto
    obtain b where b: "(serving_step evp limit)\<^sup>*\<^sup>* (rpc_arrives limit 0 r (node_start 1 s)) b"
        "workers b = only_worker [] (Replied r reply)" "switch_log [] (process (store_threads b)) = \<lparr>shared = s', fds = []\<rparr>"
      using alone_serves [OF assms(1-4) s'(1) assms(6)] by blast
    let ?z = "?y\<lparr>injector := f1, beyond := rpc_arrives limit 0 r (node_start 1 s), gates := [Beyond]\<rparr>"
    have "(faulty_serving_step evp limit)\<^sup>*\<^sup>* (rpc_at_gate limit 0 r ?y) ?z"
      using passes_as_arrival [OF assms(1), of 0 ?y f1 evp] d None by (simp add: faulty_node_start_def node_start_def)
    also have "(faulty_serving_step evp limit)\<^sup>*\<^sup>* ?z (?z\<lparr>beyond := b\<rparr>)" by (rule past_gates_run) (use b(1) in simp)
    finally have "(faulty_serving_step evp limit)\<^sup>*\<^sup>* (rpc_at_gate limit 0 r ?y) (?z\<lparr>beyond := b\<rparr>)" .
    moreover have "fds (switch_log [] (process (store_threads b))) = []" unfolding b(3) by simp
    then have "fds (process (store_threads b)) = []" by simp
    ultimately show ?thesis using b(2,3) s'(2)
      by (intro exI [of _ "?z\<lparr>beyond := b\<rparr>"]) (simp add: replies_def)
  next
    case (Some e)
    obtain z where "(faulty_serving_step evp limit)\<^sup>*\<^sup>* (rpc_at_gate limit 0 r ?y) z" "replies z = [Some (r, reply_to r (injected_answer call e))]"
        "injector z = f1" "process (store_threads (beyond z)) = \<lparr>shared = log_with (append_log (lines_as (rpc_correlation_id r)
          (before r call @ after r call (injected_answer call e)))) s, fds = []\<rparr>"
      using struck_alone [OF assms(1) d [unfolded Some] assms(4)] by blast
    then show ?thesis using serve_faulty_struck [OF assms(1) d [unfolded Some] assms(4), of evp] assms(4,5)
      by (intro exI [of _ z]) (simp add: switch_log_same)
  qed
qed

section \<open>Concrete runs\<close>

lemma faulty_serving_arrived: "(faulty_serving_step evp limit)\<^sup>*\<^sup>* y y' \<Longrightarrow> arrived (beyond y') = arrived (beyond y)"
proof (induction rule: rtranclp_induct)
  case (step u v)
  from step.hyps(2) have "arrived (beyond v) = arrived (beyond u)"
  proof (cases rule: faulty_serving_step.cases)
    case (gate_decides i fr call)
    then show ?thesis
      by (auto simp: node_decides_def struck_def Let_def split: option.splits prod.splits)
  next
    case (past_gates b)
    then show ?thesis using serving_worker [OF past_gates(2)] by (metis gated_node.select_convs(2) gated_node.surjective gated_node.update_convs(2))
  qed simp_all
  then show ?case using step.IH by simp
qed simp

abbreviation demo_slow :: "unit FaultInjecting" where
  "demo_slow \<equiv> InjectLatency 5 (FaultInjecting_new ())"

lemma demo_slow_passes: "ShouldInjectFault (ApplyLatency demo_slow) =
    (None, (FaultInjecting_new ())\<lparr>call_counter := 1, pending_latency := 5, slept := [5]\<rparr>)"
  by (simp add: FaultInjecting_new_def InjectLatency_def ShouldInjectFault_def ApplyLatency_def)

lemma demo_gate:
  assumes "asks 100 r call"
  shows "(faulty_node_step demo_evp 100)\<^sup>*\<^sup>* (faulty_node_start 1 s) (rpc_at_gate 100 0 r ((faulty_node_start 1 s)\<lparr>injector := demo_slow\<rparr>))"
    "arrived (beyond (rpc_at_gate 100 0 r ((faulty_node_start 1 s)\<lparr>injector := demo_slow\<rparr>))) = [r]"
proof -
  let ?y = "(faulty_node_start 1 s)\<lparr>injector := demo_slow\<rparr>"
  have "faulty_node_step demo_evp 100 (faulty_node_start 1 s) ?y"
    using faulty_node_step.drive_latency [of demo_evp 100 "faulty_node_start 1 s" 5] by (simp add: faulty_node_start_def)
  moreover have "faulty_node_step demo_evp 100 ?y (rpc_at_gate 100 0 r ?y)"
    by (rule faulty_node_step.gate_arrival) (simp_all add: faulty_node_start_def node_start_def)
  ultimately show "(faulty_node_step demo_evp 100)\<^sup>*\<^sup>* (faulty_node_start 1 s) (rpc_at_gate 100 0 r ?y)" by auto
  show "arrived (beyond (rpc_at_gate 100 0 r ?y)) = [r]"
    by (cases rule: at_gate_cases [of 100 0 r ?y]) (simp_all add: faulty_node_start_def node_start_def)
qed

lemma demo_slow_upload:
  obtains y resp where "(faulty_node_step demo_evp 100)\<^sup>*\<^sup>* (faulty_node_start 1 (demo_empty Relock_counts)) y"
    "replies y = [Some (demo_upload, Returns (Reply_PutChunk Status_OK resp))]" "putr_status resp = CS_OK"
    "arrived (beyond y) = [demo_upload]" "slept (injector y) = [5]"
proof -
  let ?s = "demo_empty Relock_counts"
  obtain resp s' where p: "PutChunk (demo_svc 100) demo_ctx (put_request demo_id 3 [[1], [2, 3]]) ?s = (Returns (Status_OK, resp), s')"
      "putr_status resp = CS_OK"
    by (rule demo_PutChunk)
  have "serve (disk_service demo_evp 100) demo_upload ?s = (Returns (Reply_PutChunk Status_OK resp), s')"
    using p(1) by (simp add: disk_service_demo)
  then have "serve (faulty_service demo_evp 100) demo_upload (over demo_slow ?s) = (Returns (Reply_PutChunk Status_OK resp),
      over ((FaultInjecting_new ())\<lparr>call_counter := 1, pending_latency := 5, slept := [5]\<rparr>) s')"
    unfolding serve_faulty_passes [OF demo_upload_asks demo_slow_passes] by (simp only: apsnd_conv)
  from faulty_alone [OF demo_upload_asks _ _ _ this]
  obtain y where y: "(faulty_serving_step demo_evp 100)\<^sup>*\<^sup>* (rpc_at_gate 100 0 demo_upload ((faulty_node_start 1 ?s)\<lparr>injector := demo_slow\<rparr>)) y"
      "replies y = [Some (demo_upload, Returns (Reply_PutChunk Status_OK resp))]"
      "over ((FaultInjecting_new ())\<lparr>call_counter := 1, pending_latency := 5, slept := [5]\<rparr>) s' =
         over (injector y) (shared (switch_log [] (process (store_threads (beyond y)))))"
    by auto
  have "slept (injector y) = [5]" using arg_cong [OF y(3), of slept] by (simp add: over_def)
  then show thesis
    using that [OF rtranclp_trans [OF demo_gate(1) [OF demo_upload_asks] faulty_serving_runs [OF y(1)]] y(2) p(2)]
      faulty_serving_arrived [OF y(1)] demo_gate(2) [OF demo_upload_asks] by simp
qed

section \<open>Theorems\<close>

lemma reply_of:
  assumes "Some (r, reply) \<in> set (replies y)" "faulty_node_inv limit y"
  obtains (passed) i where "i < length (workers (beyond y))" "worker_state (workers (beyond y) ! i) = Replied r reply"
  | (injected) call e where "asks limit r call" "reply = reply_to r (injected_answer call e)"
proof -
  have len: "length (workers (beyond y)) = length (gates y)"
    using assms(2) list_all2_lengthD by (fastforce simp: faulty_node_inv_def)
  obtain i where i: "i < length (gates y)" "gate_reply (gates y ! i) (worker_state (workers (beyond y) ! i)) = Some (r, reply)"
    using assms(1) len by (auto simp: replies_def in_set_conv_nth)
  show thesis
  proof (cases "gates y ! i")
    case Beyond
    then show thesis using passed [of i] i len by (cases "worker_state (workers (beyond y) ! i)") auto
  next
    case (Struck r' reply')
    then show thesis using injected gate_okD(1) [OF assms(2) i(1)] i(2) by (auto simp: gate_ok_def)
  qed (use i(2) in simp_all)
qed

lemma injected_not_acknowledged: "reply_to r (injected_answer call e) = Returns q \<Longrightarrow> \<not> acknowledges q"
  using reply_acknowledges [of r "injected_answer call e" q] by (cases call) auto

lemma injected_no_data:
  "reply_to (Rpc_GetChunk sctx request write_ok) (injected_answer call e) = Returns (Reply_GetChunk st frames) \<Longrightarrow>
     get_stream_data frames = []"
  by (cases call) (auto simp: get_frames_def get_stream_data_def)



text \<open>
  C8: With faults injected and latencies set, every RPC is still answered unless relocking a mutex hangs: from
  every reachable state the workers can take only so many steps before a new request or a new fault
  comes, they can get to a state where all have replied, and where no worker can take a step, all have.
\<close>

theorem faulty_node_answers_every_rpc:
  assumes "LocalDisk_inv s" "stripe_locks s = {}" "relock s \<noteq> Relock_blocks"
    "(faulty_node_step evp limit)\<^sup>*\<^sup>* (faulty_node_start n s) y"
  shows "(\<forall>k y'. (faulty_serving_step evp limit ^^ k) y y' \<longrightarrow> k \<le> faulty_left y) \<and>
    (\<exists>y'. (faulty_serving_step evp limit)\<^sup>*\<^sup>* y y' \<and> list_all2 (\<lambda>g w. gate_free g (worker_state w)) (gates y') (workers (beyond y'))) \<and>
    (\<forall>y'. (faulty_serving_step evp limit)\<^sup>*\<^sup>* y y' \<and> (\<forall>z. \<not> faulty_serving_step evp limit y' z) \<longrightarrow>
       list_all2 (\<lambda>g w. gate_free g (worker_state w)) (gates y') (workers (beyond y')))"
proof -
  have inv: "faulty_busy_inv evp limit y" by (rule faulty_busy_run [OF assms(1,2,4)])
  have stuck: "list_all2 (\<lambda>g w. gate_free g (worker_state w)) (gates y') (workers (beyond y'))"
    if r: "(faulty_serving_step evp limit)\<^sup>*\<^sup>* y y'" and no: "\<forall>z. \<not> faulty_serving_step evp limit y' z" for y'
  proof -
    have rl: "relock (node_store (beyond y')) \<noteq> Relock_blocks"
      using faulty_relock [OF rtranclp_trans [OF assms(4) faulty_serving_runs [OF r]]] assms(3) by simp
    have "faulty_busy_inv evp limit y'" using faulty_serving.run_keeps [OF r inv] .
    moreover from this have "length (gates y') = length (workers (beyond y'))"
      using list_all2_lengthD by (fastforce simp: faulty_busy_inv_def faulty_node_inv_def)
    ultimately show ?thesis using faulty_progress [OF _ rl] no by (auto simp: list_all2_conv_all_nth)
  qed
  have "k \<le> faulty_left y" if "(faulty_serving_step evp limit ^^ k) y y'" for k y'
    using faulty_serving.run_bounded [OF that inv] by simp
  then show ?thesis using faulty_serving.run_ends [OF inv] stuck by blast
qed

theorem faulty_node_answers_every_rpc_witness:
  "\<exists>y y'. (faulty_node_step demo_evp 100)\<^sup>*\<^sup>* (faulty_node_start 1 (demo_empty Relock_counts)) y \<and> arrived (beyond y) = [demo_upload] \<and>
     (faulty_serving_step demo_evp 100)\<^sup>*\<^sup>* y y' \<and> list_all2 (\<lambda>g w. gate_free g (worker_state w)) (gates y') (workers (beyond y'))"
proof -
  note y = demo_gate [OF demo_upload_asks, of "demo_empty Relock_counts"]
  show ?thesis using faulty_node_answers_every_rpc [OF demo_empty_inv demo_empty_simps(1) _ y(1)] y by auto
qed

text \<open>
  C9: A worker that serves a request alone, through its handler, the two critical sections of the
  injector and the sleep between them, and the system calls of the delegate, gives the reply and
  leaves the injector, the store and the log that the handler gives in one go over the one-step
  injector of \<open>Fault_Injecting\<close>, whatever faults are pending.
\<close>

theorem faulty_worker_alone_is_handler:
  assumes "asks limit r call" "stripe_locks s = {}" "relock s \<noteq> Relock_blocks" "t_correlation_id (logger s) = []"
    "serve (faulty_service evp limit) r (over f s) = (reply, f')" "reply \<noteq> Blocks"
  shows "\<exists>y. (faulty_serving_step evp limit)\<^sup>*\<^sup>* (rpc_at_gate limit 0 r ((faulty_node_start 1 s)\<lparr>injector := f\<rparr>)) y \<and>
    replies y = [Some (r, reply)] \<and> f' = over (injector y) (shared (switch_log [] (process (store_threads (beyond y))))) \<and>
    fds (process (store_threads (beyond y))) = []"
  by (rule faulty_alone [OF assms])

theorem faulty_worker_alone_is_handler_witness:
  "\<exists>y q. (faulty_serving_step demo_evp 100)\<^sup>*\<^sup>* (rpc_at_gate 100 0 demo_upload
       ((faulty_node_start 1 (demo_empty Relock_counts))\<lparr>injector := InjectFailureOnNextCall ChunkStoreError_IoError (FaultInjecting_new ())\<rparr>)) y \<and>
     replies y = [Some (demo_upload, Returns (Reply_PutChunk Status_OK q))] \<and> putr_status q = IO_ERROR"
proof -
  let ?f = "InjectFailureOnNextCall ChunkStoreError_IoError (FaultInjecting_new ())" and ?s = "demo_empty Relock_counts"
  have "ShouldInjectFault (ApplyLatency ?f) = (Some ChunkStoreError_IoError, (FaultInjecting_new ())\<lparr>call_counter := 1\<rparr>)"
    by (simp add: FaultInjecting_new_def InjectFailureOnNextCall_def ShouldInjectFault_def ApplyLatency_def)
  from serve_faulty_struck [OF demo_upload_asks this, of ?s demo_evp]
  obtain q f' where q: "serve (faulty_service demo_evp 100) demo_upload (over ?f ?s) = (Returns (Reply_PutChunk Status_OK q), f')"
      "putr_status q = IO_ERROR"
    by (simp add: put_response_def del: serve.simps)
  from faulty_worker_alone_is_handler [OF demo_upload_asks _ _ _ q(1)] q(2) show ?thesis by auto
qed

end
