(* ===== verification/Disk_Listing.thy ===== *)
theory Disk_Listing
  imports Disk_Durability
begin

text \<open>
  \<^verbatim>\<open>LocalDiskChunkStore::ListAllChunkIds\<close> beside other operations. It takes no lock, so the directories
  change while it walks through them. POSIX says what \<^verbatim>\<open>readdir\<close> then returns: every entry that was
  there when the walk began and stays, once; an entry that is added or removed meanwhile may be
  returned or not. \<open>listing\<close> keeps the entries of both kinds, and the result so far.
\<close>

section \<open>The walk\<close>

datatype listing =
    Listing "path list" "(path \<times> node) list" "ChunkId list"
  | Listed "ChunkId list run"

definition begin_listing :: "LocalDisk \<Rightarrow> listing" where
  "begin_listing s =
     (if snd (fs_exists (os s) (data_root s) (disk s)) then Listed (Throws filesystem_error)
      else if \<not> fst (fs_exists (os s) (data_root s) (disk s)) then Listed (Returns [])
      else (case fs_iterate (os s) (data_root s) (disk s) of
              None \<Rightarrow> Listed (Throws filesystem_error)
            | Some es \<Rightarrow> Listing (map fst es) [] []))"

text \<open>What the walk still has to return, and may return, when the disk changes from \<open>d\<close> to \<open>d'\<close>.\<close>

fun note_entries :: "path \<Rightarrow> fs \<Rightarrow> fs \<Rightarrow> listing \<Rightarrow> listing" where
  "note_entries root d d' (Listing due maybe result) =
     Listing (filter (\<lambda>p. map_of d' p \<noteq> None) due)
       (filter (\<lambda>(p, n). strict_prefix root p \<and> map_of d p = None) d' @
        filter (\<lambda>(p, n). p \<in> set due \<and> map_of d' p = None) d @ maybe) result"
| "note_entries root d d' (Listed r) = Listed r"

text \<open>
  An entry that is returned goes through the body of the loop; one that is gone by then may be taken
  for a regular file, as the directory had it, or not.
\<close>

inductive listing_step :: "'c EVP \<Rightarrow> disk_system \<times> listing \<Rightarrow> disk_system \<times> listing \<Rightarrow> bool" for evp where
  beside: "system_step evp y y' \<Longrightarrow>
     listing_step evp (y, l) (y', note_entries (data_root (store_of y)) (disk (store_of y)) (disk (store_of y')) l)"
| returned: "p \<in> set due \<Longrightarrow> map_of (disk (store_of y)) p = Some n \<Longrightarrow>
     listing_step evp (y, Listing due maybe result) (y, Listing (removeAll p due) maybe (list_loop [(p, n)] result))"
| maybe_returned: "(p, n) \<in> set maybe \<Longrightarrow>
     listing_step evp (y, Listing due maybe result) (y, Listing due (remove1 (p, n) maybe) (list_loop [(p, n)] result))"
| not_returned: "(p, n) \<in> set maybe \<Longrightarrow>
     listing_step evp (y, Listing due maybe result) (y, Listing due (remove1 (p, n) maybe) result)"
| at_end: "listing_step evp (y, Listing [] maybe result) (y, Listed (Returns result))"
| refused: "\<not> os_iterate_ok (os (store_of y)) \<Longrightarrow>
     listing_step evp (y, Listing due maybe result) (y, Listed (Throws filesystem_error))"

section \<open>A walk is a run of the store\<close>

lemma listing_system: "listing_step evp x x' \<Longrightarrow> (system_step evp)\<^sup>=\<^sup>= (fst x) (fst x')"
  by (auto elim: listing_step.cases)

lemma listing_run: "(listing_step evp)\<^sup>*\<^sup>* x x' \<Longrightarrow> (system_step evp)\<^sup>*\<^sup>* (fst x) (fst x')"
  by (induction rule: rtranclp_induct) (auto dest: listing_system)

text \<open>The chunk files of the store are all its own work.\<close>

definition own_files :: "LocalDisk \<Rightarrow> bool" where
  "own_files s \<longleftrightarrow> (\<forall>p b. map_of (disk s) p = Some (File b) \<longrightarrow> is_chunk_path (data_root s) p \<longrightarrow>
     (\<exists>cid. ChunkId_wf cid \<and> p = FinalPathFor s cid))"

lemma own_files_iff:
  assumes "distinct (map fst (disk s))"
  shows "own_files s \<longleftrightarrow> (\<forall>(p, b) \<in> set (chunk_files (data_root s) (disk s)). \<exists>cid. ChunkId_wf cid \<and> p = FinalPathFor s cid)"
proof -
  have "map_of (disk s) p = Some n \<longleftrightarrow> (p, n) \<in> set (disk s)" for p n using assms by (rule map_of_eq_Some_iff)
  then show ?thesis unfolding own_files_def by (fastforce simp: in_chunk_files simp del: map_of_eq_Some_iff)
qed

lemma step_own_files:
  assumes "thread_step evp t p = Some (t', p')" "thread_ok evp (shared p) t" "disk_ok (shared p)" "own_files (shared p)"
  shows "own_files (shared p')"
proof -
  have root: "data_root (shared p') = data_root (shared p)" using step_constants [OF assms(1)] by simp
  note final = FinalPathFor_root [OF root]
  have dist: "distinct (map fst (disk (shared p)))" using assms(3) by (simp add: disk_ok_def)
  from assms(1-3) show ?thesis
  proof (cases rule: step_chunks)
    case same
    then have "distinct (map fst (disk (shared p')))" using dist by (simp add: same_chunks_def)
    then show ?thesis
      using same(1) assms(4) own_files_iff [OF dist] own_files_iff [of "shared p'"] root final by (simp add: same_chunks_def)
  next
    case (renamed cid data q g)
    have "ChunkId_wf cid" using assms(2) renamed(1) by (simp add: thread_defs)
    then show ?thesis using assms(4) renamed(3) root final
      by (auto simp: own_files_def update_conv' delete_conv' split: if_splits)
  next
    case (removed cid b)
    then show ?thesis using assms(4) root final by (auto simp: own_files_def delete_conv' split: if_splits)
  qed
qed

definition tidy_inv :: "'c EVP \<Rightarrow> disk_system \<Rightarrow> bool" where
  "tidy_inv evp y \<longleftrightarrow> history_inv evp y \<and> own_files (store_of y)"

interpretation tidy: step_invariant "system_step evp" "tidy_inv evp" for evp
proof unfold_locales
  fix y y' assume step: "system_step evp y y'" and inv: "tidy_inv evp y"
  have "own_files (store_of y')"
    using step
  proof (cases rule: system_step.cases)
    case (advance i t p)
    then have "thread_ok evp (store_of y) (pool y ! i)" "disk_ok (store_of y)"
      using inv nth_mem [OF advance(2)] by (auto simp: tidy_inv_def history_inv_def system_inv_def)
    then show ?thesis using step_own_files [OF advance(3)] inv advance(1) by (simp add: tidy_inv_def)
  qed (use inv in \<open>auto simp: tidy_inv_def own_files_def FinalPathFor_def ShardDirFor_def\<close>)
  then show "tidy_inv evp y'" using history.step_keeps [OF step] inv by (simp add: tidy_inv_def)
qed

lemma list_loop_entry:
  "list_loop [(p, n)] result = result @ (if n \<noteq> Dir \<and> extension (last p) = ''.chunk''
     then (case Parse (stem (last p)) of Ok cid \<Rightarrow> [cid] | Err _ \<Rightarrow> []) else [])"
  by (simp split: Result.splits)

lemma list_loop_final:
  assumes "ChunkId_wf cid"
  shows "list_loop [(FinalPathFor s cid, n)] result = (if n = Dir then result else result @ [cid])"
  using chunk_name [OF assms] Parse_id_hex [OF assms] by (simp add: FinalPathFor_def)

text \<open>An entry below the root adds to the list only the id of a chunk file.\<close>

lemma list_loop_own:
  assumes "strict_prefix (data_root s) p"
    "\<And>b. n = File b \<Longrightarrow> is_chunk_path (data_root s) p \<Longrightarrow> \<exists>cid. ChunkId_wf cid \<and> p = FinalPathFor s cid"
  obtains (nothing) "list_loop [(p, n)] result = result"
  | (chunk) b cid where "n = File b" "ChunkId_wf cid" "p = FinalPathFor s cid" "list_loop [(p, n)] result = result @ [cid]"
proof (cases "n \<noteq> Dir \<and> extension (last p) = ''.chunk''")
  case True
  then obtain b where b: "n = File b" by (cases n) auto
  have "is_chunk_path (data_root s) p" using True assms(1) by (simp add: is_chunk_path_def)
  then obtain cid where "ChunkId_wf cid" "p = FinalPathFor s cid" using assms(2) b by blast
  then show thesis using chunk b list_loop_final [of cid s n result] by simp
next
  case False
  then have "list_loop [(p, n)] result = result" by (subst list_loop_entry) auto
  then show thesis by (rule nothing)
qed

section \<open>What the walk has seen\<close>

definition seen :: "('x \<Rightarrow> 'x \<Rightarrow> bool) \<Rightarrow> 'x \<Rightarrow> 'x \<Rightarrow> ('x \<Rightarrow> bool) \<Rightarrow> bool" where
  "seen r a x P \<longleftrightarrow> (\<exists>u. r\<^sup>*\<^sup>* a u \<and> r\<^sup>*\<^sup>* u x \<and> P u)"

lemma seen_now: "r\<^sup>*\<^sup>* a x \<Longrightarrow> P x \<Longrightarrow> seen r a x P"
  by (auto simp: seen_def)

lemma seen_step: "seen r a x P \<Longrightarrow> r x x' \<Longrightarrow> seen r a x' P"
  unfolding seen_def by (meson rtranclp.rtrancl_into_rtrancl)

lemma seen_mono: "seen r a x P \<Longrightarrow> (\<And>u. r\<^sup>*\<^sup>* a u \<Longrightarrow> P u \<Longrightarrow> Q u) \<Longrightarrow> seen r a x Q"
  by (auto simp: seen_def)

abbreviation disk_at :: "disk_system \<times> listing \<Rightarrow> fs" where
  "disk_at x \<equiv> disk (store_of (fst x))"

lemma tidy_run: "(listing_step evp)\<^sup>*\<^sup>* x x' \<Longrightarrow> tidy_inv evp (fst x) \<Longrightarrow> tidy_inv evp (fst x')"
  by (rule tidy.run_keeps [OF listing_run])

lemma root_run: "(listing_step evp)\<^sup>*\<^sup>* x x' \<Longrightarrow> data_root (store_of (fst x')) = data_root (store_of (fst x))"
  by (rule system_root [OF listing_run])

lemma tidy_distinct: "tidy_inv evp y \<Longrightarrow> distinct (map fst (disk (store_of y)))"
  by (simp add: tidy_inv_def history_inv_def system_inv_def disk_ok_def)

text \<open>Whatever the walk appends for an entry it once saw on the disk was a stored chunk then.\<close>

lemma entry_sound:
  assumes run: "(listing_step evp)\<^sup>*\<^sup>* a x" and inv: "tidy_inv evp (fst a)"
    and below: "strict_prefix (data_root (store_of (fst a))) p"
    and onfile: "\<And>b. n = File b \<Longrightarrow> seen (listing_step evp) a x (\<lambda>u. map_of (disk_at u) p = Some n)"
  obtains (nothing) "list_loop [(p, n)] result = result"
  | (chunk) cid where "ChunkId_wf cid" "p = FinalPathFor (store_of (fst a)) cid"
      "seen (listing_step evp) a x (\<lambda>u. stored (store_of (fst u)) cid \<noteq> None)" "list_loop [(p, n)] result = result @ [cid]"
proof (rule list_loop_own [OF below])
  fix b assume n: "n = File b" and ch: "is_chunk_path (data_root (store_of (fst a))) p"
  obtain u where u: "(listing_step evp)\<^sup>*\<^sup>* a u" "map_of (disk_at u) p = Some (File b)"
    using onfile [OF n] unfolding n seen_def by blast
  then show "\<exists>cid. ChunkId_wf cid \<and> p = FinalPathFor (store_of (fst a)) cid"
    using tidy_run [OF u(1) inv] ch root_run [OF u(1)] FinalPathFor_root [OF root_run [OF u(1)]]
    by (auto simp: tidy_inv_def own_files_def)
next
  fix b cid assume c: "n = File b" "ChunkId_wf cid" "p = FinalPathFor (store_of (fst a)) cid" "list_loop [(p, n)] result = result @ [cid]"
  have "seen (listing_step evp) a x (\<lambda>u. stored (store_of (fst u)) cid \<noteq> None)"
    by (rule seen_mono [OF onfile [OF c(1)]]) (use c in \<open>simp add: stored_def FinalPathFor_root [OF root_run] split: option.splits\<close>)
  with c chunk show thesis by blast
qed (rule nothing)

section \<open>What is listed was stored\<close>

definition was_stored :: "'c EVP \<Rightarrow> disk_system \<times> listing \<Rightarrow> disk_system \<times> listing \<Rightarrow> ChunkId \<Rightarrow> bool" where
  "was_stored evp a x cid \<longleftrightarrow> ChunkId_wf cid \<and> seen (listing_step evp) a x (\<lambda>u. stored (store_of (fst u)) cid \<noteq> None)"

fun walk_sound :: "'c EVP \<Rightarrow> disk_system \<times> listing \<Rightarrow> disk_system \<times> listing \<Rightarrow> bool" where
  "walk_sound evp a (y, Listing due maybe result) \<longleftrightarrow>
     (\<forall>p \<in> set due. map_of (disk (store_of y)) p \<noteq> None \<and> strict_prefix (data_root (store_of (fst a))) p) \<and>
     (\<forall>(p, n) \<in> set maybe. strict_prefix (data_root (store_of (fst a))) p \<and>
        seen (listing_step evp) a (y, Listing due maybe result) (\<lambda>u. map_of (disk_at u) p = Some n)) \<and>
     list_all (was_stored evp a (y, Listing due maybe result)) result"
| "walk_sound evp a (y, Listed (Returns ids)) \<longleftrightarrow> list_all (was_stored evp a (y, Listed (Returns ids))) ids"
| "walk_sound evp a (y, Listed r) \<longleftrightarrow> True"

lemma walk_soundI:
  "x = (y, Listing due maybe result) \<Longrightarrow>
   (\<And>p. p \<in> set due \<Longrightarrow> map_of (disk (store_of y)) p \<noteq> None \<and> strict_prefix (data_root (store_of (fst a))) p) \<Longrightarrow>
   (\<And>p n. (p, n) \<in> set maybe \<Longrightarrow> strict_prefix (data_root (store_of (fst a))) p \<and>
      seen (listing_step evp) a x (\<lambda>u. map_of (disk_at u) p = Some n)) \<Longrightarrow>
   list_all (was_stored evp a x) result \<Longrightarrow> walk_sound evp a x"
  by auto

lemma was_stored_step: "was_stored evp a x cid \<Longrightarrow> listing_step evp x x' \<Longrightarrow> was_stored evp a x' cid"
  by (auto simp: was_stored_def intro: seen_step)

lemma list_was_stored: "list_all (was_stored evp a x) l \<Longrightarrow> listing_step evp x x' \<Longrightarrow> list_all (was_stored evp a x') l"
  by (auto simp: list_all_iff intro: was_stored_step)

lemma entry_was_stored:
  assumes "(listing_step evp)\<^sup>*\<^sup>* a x" "tidy_inv evp (fst a)" "strict_prefix (data_root (store_of (fst a))) p"
    "seen (listing_step evp) a x (\<lambda>u. map_of (disk_at u) p = Some n)" "list_all (was_stored evp a x) result"
  shows "list_all (was_stored evp a x) (list_loop [(p, n)] result)"
  using assms(1-4)
proof (cases rule: entry_sound [where n = n and result = result])
  case (chunk cid)
  show ?thesis unfolding chunk(4) using chunk(1,3) assms(5) by (simp add: was_stored_def)
qed (use assms(5) in simp_all)

lemma seen_entry:
  "seen (listing_step evp) a x (\<lambda>u. map_of (disk_at u) p = Some n) \<Longrightarrow> listing_step evp x x' \<Longrightarrow>
     seen (listing_step evp) a x' (\<lambda>u. map_of (disk_at u) p = Some n)"
  by (rule seen_step)

lemma sound_beside:
  assumes step: "system_step evp y y'" and run: "(listing_step evp)\<^sup>*\<^sup>* a (y, l)" and inv: "tidy_inv evp (fst a)"
    and ws: "walk_sound evp a (y, l)"
  shows "walk_sound evp a (y', note_entries (data_root (store_of y)) (disk (store_of y)) (disk (store_of y')) l)"
proof -
  let ?x' = "(y', note_entries (data_root (store_of y)) (disk (store_of y)) (disk (store_of y')) l)"
  have ls: "listing_step evp (y, l) ?x'" using step by (rule listing_step.beside)
  have run': "(listing_step evp)\<^sup>*\<^sup>* a ?x'" using run ls by (rule rtranclp.rtrancl_into_rtrancl)
  have root: "data_root (store_of y) = data_root (store_of (fst a))" using root_run [OF run] by simp
  have on: "map_of (disk (store_of y)) p = Some n" if "(p, n) \<in> set (disk (store_of y))" for p n
    using that tidy_distinct [OF tidy_run [OF run inv]] by simp
  have on': "map_of (disk (store_of y')) p = Some n" if "(p, n) \<in> set (disk (store_of y'))" for p n
    using that tidy_distinct [OF tidy_run [OF run' inv]] by simp
  have before: "seen (listing_step evp) a ?x' (\<lambda>u. map_of (disk_at u) p = Some n)" if "(p, n) \<in> set (disk (store_of y))" for p n
    by (rule seen_step [OF seen_now [OF run] ls]) (use on [OF that] in simp)
  have after: "seen (listing_step evp) a ?x' (\<lambda>u. map_of (disk_at u) p = Some n)" if "(p, n) \<in> set (disk (store_of y'))" for p n
    by (rule seen_now [OF run']) (use on' [OF that] in simp)
  show ?thesis
  proof (cases l)
    case (Listing due maybe result)
    have due: "map_of (disk (store_of y)) p \<noteq> None \<and> strict_prefix (data_root (store_of (fst a))) p" if "p \<in> set due" for p
      using ws that by (simp add: Listing)
    have maybe: "strict_prefix (data_root (store_of (fst a))) p \<and>
        seen (listing_step evp) a ?x' (\<lambda>u. map_of (disk_at u) p = Some n)" if "(p, n) \<in> set maybe" for p n
      using ws that seen_entry [OF _ ls, of a p n] by (auto simp: Listing)
    let ?due = "filter (\<lambda>p. map_of (disk (store_of y')) p \<noteq> None) due"
    let ?maybe = "filter (\<lambda>(p, n). strict_prefix (data_root (store_of y)) p \<and> map_of (disk (store_of y)) p = None) (disk (store_of y')) @
      filter (\<lambda>(p, n). p \<in> set due \<and> map_of (disk (store_of y')) p = None) (disk (store_of y)) @ maybe"
    have eq: "?x' = (y', Listing ?due ?maybe result)" by (simp add: Listing)
    show ?thesis
    proof (rule walk_soundI [OF eq])
      show "list_all (was_stored evp a ?x') result" using ws list_was_stored [OF _ ls, of a result] by (simp add: Listing)
    qed (use due maybe before after root in \<open>auto simp del: note_entries.simps map_of_eq_Some_iff\<close>)
  next
    case (Listed r)
    then show ?thesis using ws list_was_stored [OF _ ls, of a] by (cases r) auto
  qed
qed

lemma maybe_step:
  assumes "walk_sound evp a x" "listing_step evp x x'" "x = (y, Listing due maybe result)" "(q, m) \<in> set (remove1 e maybe)"
  shows "strict_prefix (data_root (store_of (fst a))) q \<and> seen (listing_step evp) a x' (\<lambda>u. map_of (disk_at u) q = Some m)"
  using subsetD [OF set_remove1_subset assms(4)] assms(1) seen_entry [OF _ assms(2), of a q m] by (auto simp: assms(3))

lemma sound_step:
  assumes "listing_step evp x x'" "(listing_step evp)\<^sup>*\<^sup>* a x" "tidy_inv evp (fst a)" "walk_sound evp a x"
  shows "walk_sound evp a x'"
proof -
  have run': "(listing_step evp)\<^sup>*\<^sup>* a x'" using assms(2,1) by (rule rtranclp.rtrancl_into_rtrancl)
  note seen = seen_entry [OF _ assms(1)] and list = list_was_stored [OF _ assms(1)]
  from assms(1) show ?thesis
  proof (cases rule: listing_step.cases)
    case (beside y y' l)
    then show ?thesis using sound_beside [where a = a] assms(2-4) by simp
  next
    case (returned p due y n maybe result)
    have "seen (listing_step evp) a x' (\<lambda>u. map_of (disk_at u) p = Some n)" by (rule seen_now [OF run']) (simp add: returned)
    then have "list_all (was_stored evp a x') (list_loop [(p, n)] result)"
      by (rule entry_was_stored [OF run' assms(3), rotated])
        (use assms(4) returned list [of a result] in \<open>auto simp del: list_loop.simps\<close>)
    then show ?thesis using assms(4) returned seen [of a] by (auto simp del: list_loop.simps)
  next
    case (maybe_returned p n maybe y due result)
    have "list_all (was_stored evp a x') (list_loop [(p, n)] result)"
      by (rule entry_was_stored [OF run' assms(3)])
        (use assms(4) maybe_returned list [of a result] seen [of a] in \<open>auto simp del: list_loop.simps\<close>)
    then show ?thesis using assms(4) maybe_step [OF assms(4,1) maybe_returned(1)]
      by (intro walk_soundI [OF maybe_returned(2)]) (auto simp: maybe_returned(1) simp del: list_loop.simps)
  next
    case (not_returned p n maybe y due result)
    then show ?thesis using assms(4) maybe_step [OF assms(4,1) not_returned(1)] list [of a result]
      by (intro walk_soundI [OF not_returned(2)]) auto
  next
    case (at_end y maybe result)
    then show ?thesis using assms(4) list [of a] by auto
  qed simp
qed

lemma sound_begin: "walk_sound evp (y, l) (y, begin_listing (store_of y))"
  by (auto simp: begin_listing_def fs_iterate_def map_of_eq_None_iff split: if_splits)

lemma sound_run:
  assumes "(listing_step evp)\<^sup>*\<^sup>* (y, begin_listing (store_of y)) x" "tidy_inv evp y"
  shows "walk_sound evp (y, begin_listing (store_of y)) x"
  using assms(1)
proof (induction rule: rtranclp_induct)
  case (step u v)
  then show ?case using sound_step [OF step.hyps(2,1)] assms(2) by simp
qed (rule sound_begin)

section \<open>What stays stored is listed, once\<close>

fun walk_complete :: "path \<Rightarrow> ChunkId \<Rightarrow> listing \<Rightarrow> bool" where
  "walk_complete f cid (Listing due maybe result) \<longleftrightarrow> distinct due \<and> f \<notin> fst ` set maybe \<and>
     count_list result cid = (if f \<in> set due then 0 else 1)"
| "walk_complete f cid (Listed r) \<longleftrightarrow> (\<forall>ids. r = Returns ids \<longrightarrow> count_list ids cid = 1)"

lemma fst_in_filter: "f \<in> fst ` set (filter Q d) \<longleftrightarrow> (\<exists>n. (f, n) \<in> set d \<and> Q (f, n))"
  by force

lemma in_remove1_fst: "(f, n) \<in> set (remove1 e l) \<Longrightarrow> f \<in> fst ` set l"
  using set_remove1_subset [of e l] by force

lemma complete_beside:
  assumes "walk_complete f cid l" "map_of d f \<noteq> None" "map_of d' f \<noteq> None"
  shows "walk_complete f cid (note_entries root d d' l)"
  using assms by (cases l) (auto simp: fst_in_filter image_iff simp del: map_of_eq_Some_iff)

lemma complete_entry:
  assumes "list_loop [(p, n)] result = result \<or> (\<exists>c. p = FinalPathFor s c \<and> ChunkId_wf c \<and> list_loop [(p, n)] result = result @ [c])"
    "ChunkId_wf cid" "p \<noteq> FinalPathFor s cid"
  shows "count_list (list_loop [(p, n)] result) cid = count_list result cid"
  using assms by (auto simp del: list_loop.simps)

lemma complete_step:
  assumes step: "listing_step evp x x'" and run: "(listing_step evp)\<^sup>*\<^sup>* a x" and inv: "tidy_inv evp (fst a)"
    and ws: "walk_sound evp a x" and wf: "ChunkId_wf cid"
    and st: "stored (store_of (fst x)) cid = Some b" "stored (store_of (fst x')) cid = Some b"
    and wc: "walk_complete (FinalPathFor (store_of (fst a)) cid) cid (snd x)"
  shows "walk_complete (FinalPathFor (store_of (fst a)) cid) cid (snd x')"
proof -
  let ?f = "FinalPathFor (store_of (fst a)) cid"
  have run': "(listing_step evp)\<^sup>*\<^sup>* a x'" using run step by (rule rtranclp.rtrancl_into_rtrancl)
  have f: "map_of (disk_at x) ?f = Some (File b)" "map_of (disk_at x') ?f = Some (File b)"
    using st FinalPathFor_root [OF root_run [OF run]] FinalPathFor_root [OF root_run [OF run']]
    by (auto simp: stored_def split: option.splits node.splits)
  have other: "count_list (list_loop [(p, n)] result) cid = count_list result cid"
    if "strict_prefix (data_root (store_of (fst a))) p" "p \<noteq> ?f" "seen (listing_step evp) a x (\<lambda>u. map_of (disk_at u) p = Some n)"
    for p n result
    using run inv that(1,3)
    by (cases rule: entry_sound [where n = n and result = result]) (use complete_entry [OF _ wf that(2)] in blast)+
  from step show ?thesis
  proof (cases rule: listing_step.cases)
    case (beside y y' l)
    then show ?thesis using complete_beside [of ?f cid l] wc f by simp
  next
    case (returned p due y n maybe result)
    show ?thesis
    proof (cases "p = ?f")
      case True
      then have "n = File b" using returned f by simp
      then show ?thesis using returned wc list_loop_final [OF wf, of "store_of (fst a)" n result] True
        by (simp add: distinct_removeAll del: list_loop.simps)
    next
      case False
      have "seen (listing_step evp) a x (\<lambda>u. map_of (disk_at u) p = Some n)" by (rule seen_now [OF run]) (simp add: returned)
      then show ?thesis using returned wc ws other [of p n result] False by (simp add: distinct_removeAll del: list_loop.simps)
    qed
  next
    case (maybe_returned p n maybe y due result)
    then have "p \<noteq> ?f" using wc by force
    then show ?thesis using maybe_returned wc ws other [of p n result]
      by (auto simp del: list_loop.simps dest: in_remove1_fst)
  qed (use wc in \<open>auto dest: in_remove1_fst\<close>)
qed

lemma complete_begin:
  assumes "tidy_inv evp y" "ChunkId_wf cid" "stored (store_of y) cid = Some b"
  shows "walk_complete (FinalPathFor (store_of y) cid) cid (begin_listing (store_of y))"
proof -
  have f: "map_of (disk (store_of y)) (FinalPathFor (store_of y) cid) = Some (File b)"
    using assms(3) by (auto simp: stored_def split: option.splits node.splits)
  have d: "distinct (map fst (disk (store_of y)))" using tidy_distinct [OF assms(1)] .
  have "fs_lookup (data_root (store_of y)) (disk (store_of y)) = Some Dir"
    using assms(1) by (simp add: tidy_inv_def history_inv_def system_inv_def disk_ok_def)
  then show ?thesis
    using is_chunk_path_final [OF assms(2), of "store_of y"] map_of_SomeD [OF f] distinct_map_filter [OF d]
    by (force simp: begin_listing_def fs_exists_def fs_iterate_def is_chunk_path_def split: if_splits)
qed

lemma complete_run:
  assumes run: "(listing_step evp)\<^sup>*\<^sup>* (y, begin_listing (store_of y)) x" and inv: "tidy_inv evp y"
    and wf: "ChunkId_wf cid" and st: "stored (store_of y) cid = Some b" and del: "Delete_lock cid \<notin> set (called (fst x))"
  shows "walk_complete (FinalPathFor (store_of y) cid) cid (snd x)"
  using run del
proof (induction rule: rtranclp_induct)
  case base
  show ?case using complete_begin [OF inv wf st] by simp
next
  case (step u v)
  have h: "history_inv evp y" using inv by (simp add: tidy_inv_def)
  have run': "(listing_step evp)\<^sup>*\<^sup>* (y, begin_listing (store_of y)) v" using step.hyps by (rule rtranclp.rtrancl_into_rtrancl)
  have del: "Delete_lock cid \<notin> set (called (fst u))"
    using step.prems called_grows [OF listing_run [of evp u v]] step.hyps(2) by blast
  have "stored (store_of (fst u)) cid = Some b" "stored (store_of (fst v)) cid = Some b"
    using stored_stays [OF listing_run [OF step.hyps(1)] _ wf _ del] stored_stays [OF listing_run [OF run'] _ wf _ step.prems] h st by simp_all
  then show ?case using complete_step [OF step.hyps(2,1) _ sound_run [OF step.hyps(1) inv] wf] step.IH [OF del] inv by simp
qed

section \<open>A walk with nothing beside it\<close>

lemma walk_entries:
  assumes "distinct (map fst es)" "set es \<subseteq> set (disk (store_of y))" "distinct (map fst (disk (store_of y)))"
  shows "(listing_step evp)\<^sup>*\<^sup>* (y, Listing (map fst es) maybe result) (y, Listed (Returns (list_loop es result)))"
  using assms(1,2)
proof (induction es arbitrary: result)
  case Nil
  show ?case using listing_step.at_end [of evp y maybe result] by simp
next
  case (Cons e es)
  obtain p n where e: "e = (p, n)" by fastforce
  have "map_of (disk (store_of y)) p = Some n" using Cons.prems(2) assms(3) by (simp add: e)
  then have "listing_step evp (y, Listing (map fst (e # es)) maybe result) (y, Listing (removeAll p (map fst (e # es))) maybe (list_loop [(p, n)] result))"
    by (intro listing_step.returned) (simp_all add: e)
  moreover have "removeAll p (map fst (e # es)) = map fst es" using Cons.prems(1) by (simp add: e removeAll_id)
  moreover have "list_loop es (list_loop [(p, n)] result) = list_loop (e # es) result" by (simp add: e split: Result.splits)
  ultimately show ?case using Cons.IH [of "list_loop [(p, n)] result"] Cons.prems
    by (metis (no_types, lifting) converse_rtranclp_into_rtranclp distinct.simps(2) list.simps(9) set_subset_Cons subset_trans)
qed

lemma walk_alone:
  assumes "distinct (map fst (disk (store_of y)))" "LocalDisk_ListAllChunkIds (store_of y) = (r, s')"
  shows "(listing_step evp)\<^sup>*\<^sup>* (y, begin_listing (store_of y)) (y, Listed r)"
proof (cases "fs_iterate (os (store_of y)) (data_root (store_of y)) (disk (store_of y))")
  case None
  then show ?thesis using assms(2) by (auto simp: begin_listing_def LocalDisk_ListAllChunkIds_def split: if_splits)
next
  case (Some es)
  then have "es = filter (\<lambda>(p, _). strict_prefix (data_root (store_of y)) p) (disk (store_of y))"
    by (auto simp: fs_iterate_def split: if_splits)
  then have "(listing_step evp)\<^sup>*\<^sup>* (y, Listing (map fst es) [] []) (y, Listed (Returns (list_loop es [])))"
    using walk_entries [OF _ _ assms(1), of es] assms(1) by (auto simp: distinct_map_filter)
  then show ?thesis using assms(2) Some by (auto simp: begin_listing_def LocalDisk_ListAllChunkIds_def split: if_splits)
qed

section \<open>Theorems\<close>

lemma tidy_start: "LocalDisk_inv s \<Longrightarrow> stripe_locks s = {} \<Longrightarrow> own_files s \<Longrightarrow> tidy_inv evp (system_start n s)"
  using history_inv_start [of s evp n] by (simp add: tidy_inv_def system_start_def)

text \<open>
  C26: Listing takes no lock, and yet: of a list that is returned while any other calls run, every id
  belongs to a chunk that was stored at some moment of the walk, and every chunk that was stored when
  the walk began and that nobody asked to delete is on it exactly once. With nothing beside it the walk
  ends, and returns what \<open>ListAllChunkIds\<close> of the sequential model does.
\<close>

theorem listing_beside_other_calls:
  assumes "LocalDisk_inv s" "stripe_locks s = {}" "own_files s" "(system_step evp)\<^sup>*\<^sup>* (system_start n s) y"
  shows "(\<forall>z ids. (listing_step evp)\<^sup>*\<^sup>* (y, begin_listing (store_of y)) (z, Listed (Returns ids)) \<longrightarrow>
      (\<forall>cid \<in> set ids. ChunkId_wf cid \<and> (\<exists>u l. (listing_step evp)\<^sup>*\<^sup>* (y, begin_listing (store_of y)) (u, l) \<and>
         (listing_step evp)\<^sup>*\<^sup>* (u, l) (z, Listed (Returns ids)) \<and> stored (store_of u) cid \<noteq> None)) \<and>
      (\<forall>cid. ChunkId_wf cid \<and> stored (store_of y) cid \<noteq> None \<and> Delete_lock cid \<notin> set (called z) \<longrightarrow> count_list ids cid = 1)) \<and>
    (listing_step evp)\<^sup>*\<^sup>* (y, begin_listing (store_of y)) (y, Listed (fst (LocalDisk_ListAllChunkIds (store_of y))))"
proof -
  have inv: "tidy_inv evp y" using tidy.run_keeps [OF assms(4) tidy_start [OF assms(1-3)]] .
  have "list_all (was_stored evp (y, begin_listing (store_of y)) (z, Listed (Returns ids))) ids"
    if "(listing_step evp)\<^sup>*\<^sup>* (y, begin_listing (store_of y)) (z, Listed (Returns ids))" for z ids
    using sound_run [OF that inv] by simp
  moreover have "count_list ids cid = 1"
    if "(listing_step evp)\<^sup>*\<^sup>* (y, begin_listing (store_of y)) (z, Listed (Returns ids))" "ChunkId_wf cid"
      "stored (store_of y) cid = Some b" "Delete_lock cid \<notin> set (called z)" for z ids cid b
    using complete_run [OF that(1) inv that(2,3)] that(4) by simp
  moreover have "(listing_step evp)\<^sup>*\<^sup>* (y, begin_listing (store_of y)) (y, Listed (fst (LocalDisk_ListAllChunkIds (store_of y))))"
    using walk_alone [OF tidy_distinct [OF inv]] by (metis prod.collapse)
  ultimately show ?thesis by (fastforce simp: list_all_iff was_stored_def seen_def)
qed

theorem listing_beside_other_calls_witness:
  "\<exists>y ids. (system_step demo_evp)\<^sup>*\<^sup>* (system_start 1 (demo_empty Relock_counts)) y \<and>
     (listing_step demo_evp)\<^sup>*\<^sup>* (y, begin_listing (store_of y)) (y, Listed (Returns ids)) \<and> count_list ids demo_id = 1"
proof -
  obtain y where y: "(system_step demo_evp)\<^sup>*\<^sup>* (system_start 1 (demo_empty Relock_counts)) y"
    "stored (store_of y) demo_id = Some demo_data" "called y = [Put_start demo_id demo_data]" "os (store_of y) = demo_os"
    by (rule demo_concurrent)
  have own: "own_files (demo_empty Relock_counts)" by (simp add: own_files_def demo_empty_def)
  have "disk_ok (store_of y)" using reachable_inv [OF demo_empty_inv demo_empty_simps(1) y(1)] by (simp add: system_inv_def)
  then obtain ids where ids: "fst (LocalDisk_ListAllChunkIds (store_of y)) = Returns ids"
    using y(4) by (auto simp: LocalDisk_ListAllChunkIds_def disk_ok_def fs_exists_def fs_iterate_def demo_os_def)
  note walk = listing_beside_other_calls [OF demo_empty_inv demo_empty_simps(1) own y(1)]
  then have run: "(listing_step demo_evp)\<^sup>*\<^sup>* (y, begin_listing (store_of y)) (y, Listed (Returns ids))" by (simp add: ids)
  then have "count_list ids demo_id = 1" using walk demo_id_wf y(2,3) by auto
  with y(1) run show ?thesis by blast
qed

end
