(* ===== verification/Object_Lifetimes.thy ===== *)
theory Object_Lifetimes
  imports Logger Local_Disk_Theorems
begin

text \<open>
  The special member functions of the two classes that keep their state behind a
  \<^verbatim>\<open>std::unique_ptr<Impl>\<close>: \<^verbatim>\<open>Logger\<close> and \<^verbatim>\<open>Sha256\<close>. An object is what its \<open>impl_\<close> points to, \<open>None\<close> for
  the null pointer a defaulted move leaves in the source; reading through it is undefined behaviour,
  here the value \<open>None\<close> of the operation.
\<close>

section \<open>Logger objects\<close>

record logger_impl =
  impl_op_logger :: "spd_logger option"
  impl_audit_logger :: "spd_logger option"
  impl_component_name :: string

type_synonym logger_object = "logger_impl option"

definition impl_of :: "Logger \<Rightarrow> logger_impl" where
  "impl_of lg = \<lparr>impl_op_logger = op_logger lg, impl_audit_logger = audit_logger lg,
     impl_component_name = component_name lg\<rparr>"

definition with_thread :: "string \<Rightarrow> logger_impl \<Rightarrow> Logger" where
  "with_thread corr i = \<lparr>op_logger = impl_op_logger i, audit_logger = impl_audit_logger i,
     component_name = impl_component_name i, t_correlation_id = corr\<rparr>"

text \<open>The constructor, once the log directory could be made.\<close>

definition Logger_object :: "LoggerConfig \<Rightarrow> logger_object" where
  "Logger_object config = (case Logger_new True config of Returns lg \<Rightarrow> Some (impl_of lg) | _ \<Rightarrow> None)"

text \<open>The defaulted moves: the new value of the destination and of the source.\<close>

definition Logger_move :: "logger_object \<Rightarrow> logger_object \<times> logger_object" where
  "Logger_move source = (source, None)"

text \<open>The destructor; its result names the spdlog loggers it flushes.\<close>

definition Logger_dtor :: "logger_object \<Rightarrow> string list option" where
  "Logger_dtor obj = (case obj of
      None \<Rightarrow> None
    | Some i \<Rightarrow> Some ((case impl_op_logger i of None \<Rightarrow> [] | Some lg \<Rightarrow> [spd_name lg]) @
                    (case impl_audit_logger i of None \<Rightarrow> [] | Some lg \<Rightarrow> [spd_name lg])))"

definition Logger_object_log ::
  "string \<Rightarrow> LogLevel \<Rightarrow> string \<Rightarrow> LogField list \<Rightarrow> logger_object \<Rightarrow> logger_object option" where
  "Logger_object_log corr l message flds obj = (case obj of
      None \<Rightarrow> None
    | Some i \<Rightarrow> Some (Some (impl_of (Logger_log l message flds (with_thread corr i)))))"

section \<open>A scope with loggers\<close>

text \<open>
  A block of code whose local variables are loggers, by their position in the order of declaration:
  it declares them, moves between them and logs through them, and at its end they are destroyed, the
  last one first. An assignment from a variable to itself changes nothing (\<^verbatim>\<open>unique_ptr\<close> resets itself
  to what it released).
\<close>

datatype logger_stmt =
    Declare LoggerConfig
  | Declare_moved nat
  | Assign_moved nat nat
  | Log_call nat string LogLevel string "LogField list"

fun stmt_wf :: "nat \<Rightarrow> logger_stmt \<Rightarrow> bool" where
  "stmt_wf n (Declare config) = True"
| "stmt_wf n (Declare_moved j) = (j < n)"
| "stmt_wf n (Assign_moved i j) = (i < n \<and> j < n)"
| "stmt_wf n (Log_call i corr l message flds) = (i < n)"

fun declares :: "logger_stmt \<Rightarrow> bool" where
  "declares (Declare config) = True"
| "declares (Declare_moved j) = True"
| "declares s = False"

fun exec_stmt :: "logger_stmt \<Rightarrow> logger_object list \<Rightarrow> logger_object list option" where
  "exec_stmt (Declare config) objs = Some (objs @ [Logger_object config])"
| "exec_stmt (Declare_moved j) objs =
     (let (new, old) = Logger_move (objs ! j) in Some (objs[j := old] @ [new]))"
| "exec_stmt (Assign_moved i j) objs =
     (if i = j then Some objs
      else let (new, old) = Logger_move (objs ! j) in Some (objs[j := old, i := new]))"
| "exec_stmt (Log_call i corr l message flds) objs =
     map_option (\<lambda>obj. objs[i := obj]) (Logger_object_log corr l message flds (objs ! i))"

fun exec_block :: "logger_stmt list \<Rightarrow> logger_object list \<Rightarrow> logger_object list option" where
  "exec_block [] objs = Some objs"
| "exec_block (s # ss) objs = Option.bind (exec_stmt s objs) (exec_block ss)"

fun destroy_all :: "logger_object list \<Rightarrow> string list option" where
  "destroy_all [] = Some []"
| "destroy_all (obj # objs) =
     Option.bind (Logger_dtor obj) (\<lambda>names. map_option ((@) names) (destroy_all objs))"

definition run_scope :: "logger_stmt list \<Rightarrow> string list option" where
  "run_scope ss = Option.bind (exec_block ss []) (\<lambda>objs. destroy_all (rev objs))"

fun block_wf :: "nat \<Rightarrow> logger_stmt list \<Rightarrow> bool" where
  "block_wf n [] = True"
| "block_wf n (s # ss) = (stmt_wf n s \<and> block_wf (if declares s then Suc n else n) ss)"

fun moves :: "logger_stmt \<Rightarrow> bool" where
  "moves (Declare_moved j) = True"
| "moves (Assign_moved i j) = (i \<noteq> j)"
| "moves s = False"

definition flushed_names :: "LoggerConfig \<Rightarrow> string list" where
  "flushed_names config = cfg_component_name config #
     (if cfg_log_directory config = [] then [] else [cfg_component_name config @ ''_audit''])"

fun declared :: "logger_stmt list \<Rightarrow> LoggerConfig list" where
  "declared [] = []"
| "declared (Declare config # ss) = config # declared ss"
| "declared (s # ss) = declared ss"

lemma exec_length:
  "exec_stmt s objs = Some objs' \<Longrightarrow> length objs' = (if declares s then Suc (length objs) else length objs)"
  by (cases s) (auto simp: Logger_move_def split: if_splits)

lemma null_not_destroyed: "None \<in> set objs \<Longrightarrow> destroy_all objs = None"
proof (induction objs)
  case (Cons obj objs)
  then show ?case by (cases "obj = None") (auto simp: Logger_dtor_def split: option.splits)
qed simp

lemma None_in_update: "j < length xs \<Longrightarrow> None \<in> set (xs[j := None])"
  by (rule set_update_memI)

text \<open>A null pointer never goes away again: moves only pass it on.\<close>

lemma exec_keeps_null:
  assumes "exec_stmt s objs = Some objs'" "stmt_wf (length objs) s" "None \<in> set objs"
  shows "None \<in> set objs'"
proof (cases s)
  case (Assign_moved i j)
  then show ?thesis using assms by (auto simp: Logger_move_def in_set_conv_nth nth_list_update split: if_splits)
next
  case (Log_call i corr l message flds)
  obtain k where "k < length objs" "objs ! k = None" using assms(3) by (auto simp: in_set_conv_nth)
  moreover from this have "k \<noteq> i" using assms(1) Log_call by (auto simp: Logger_object_log_def)
  ultimately show ?thesis using assms(1) Log_call by (auto simp: in_set_conv_nth nth_list_update intro!: exI [of _ k])
qed (use assms in \<open>auto simp: Logger_move_def intro: None_in_update\<close>)

lemma exec_moves_null:
  assumes "exec_stmt s objs = Some objs'" "stmt_wf (length objs) s" "moves s"
  shows "None \<in> set objs'"
proof (cases s)
  case (Assign_moved i j)
  then have "objs' ! j = None" "j < length objs'" using assms by (auto simp: Logger_move_def)
  then show ?thesis by (metis nth_mem)
qed (use assms in \<open>auto simp: Logger_move_def intro: None_in_update\<close>)

lemma block_null:
  assumes "exec_block ss objs = Some objs'" "block_wf (length objs) ss" "None \<in> set objs \<or> (\<exists>s \<in> set ss. moves s)"
  shows "None \<in> set objs'"
  using assms
proof (induction ss arbitrary: objs)
  case (Cons s ss)
  obtain objs1 where o1: "exec_stmt s objs = Some objs1" "exec_block ss objs1 = Some objs'"
    using Cons.prems(1) by (auto simp: bind_eq_Some_conv)
  have "None \<in> set objs1 \<or> (\<exists>s \<in> set ss. moves s)"
    using exec_keeps_null [OF o1(1)] exec_moves_null [OF o1(1)] Cons.prems(2,3) by auto
  then show ?case using Cons.IH [OF o1(2)] exec_length [OF o1(1)] Cons.prems(2) by simp
qed simp

text \<open>Without a move, every object lives, and flushes the loggers of its configuration.\<close>

lemma Logger_object_dtor: "Logger_dtor (Logger_object config) = Some (flushed_names config)"
  by (auto simp: Logger_dtor_def Logger_object_def Logger_new_def impl_of_def flushed_names_def Let_def)

lemma log_keeps_names:
  "Logger_object_log corr l message flds obj = Some obj' \<Longrightarrow> Logger_dtor obj' = Logger_dtor obj"
  by (auto simp: Logger_object_log_def Logger_dtor_def impl_of_def with_thread_def Logger_log_def spd_log_def
      split: option.splits)

lemma log_alive: "Logger_dtor obj \<noteq> None \<Longrightarrow> \<exists>obj'. Logger_object_log corr l message flds obj = Some obj'"
  by (auto simp: Logger_object_log_def Logger_dtor_def split: option.splits)

lemma block_alive:
  assumes "\<forall>s \<in> set ss. \<not> moves s" "block_wf (length objs) ss" "map Logger_dtor objs = map (Some \<circ> flushed_names) cs"
  shows "\<exists>objs'. exec_block ss objs = Some objs' \<and> map Logger_dtor objs' = map (Some \<circ> flushed_names) (cs @ declared ss)"
  using assms
proof (induction ss arbitrary: objs cs)
  case (Cons s ss)
  show ?case
  proof (cases s)
    case (Declare config)
    then show ?thesis using Cons.IH [of "objs @ [Logger_object config]" "cs @ [config]"] Cons.prems
      by (simp add: Logger_object_dtor)
  next
    case (Log_call i corr l message flds)
    then have i: "i < length objs" using Cons.prems(2) by simp
    then have "Logger_dtor (objs ! i) \<noteq> None"
      using arg_cong [OF Cons.prems(3), of "\<lambda>xs. xs ! i"] arg_cong [OF Cons.prems(3), of length] by simp
    then obtain obj where obj: "Logger_object_log corr l message flds (objs ! i) = Some obj" using log_alive by blast
    have "map Logger_dtor (objs[i := obj]) = map Logger_dtor objs"
      using log_keeps_names [OF obj] i by (simp add: map_update list_update_same_conv)
    then show ?thesis using Cons.IH [of "objs[i := obj]" cs] Cons.prems Log_call obj by simp
  qed (use Cons in auto)
qed simp

lemma destroy_all_names: "map Logger_dtor objs = map (Some \<circ> flushed_names) cs \<Longrightarrow> destroy_all objs = Some (concat (map flushed_names cs))"
  by (induction objs arbitrary: cs) (auto simp: Cons_eq_map_conv)

section \<open>Hashers\<close>

record 'c sha_object =
  sha_impl :: "'c option"
  sha_finalized :: bool

definition sha_of :: "'c Sha256 \<Rightarrow> 'c sha_object" where
  "sha_of h = \<lparr>sha_impl = Some (ctx h), sha_finalized = finalized h\<rparr>"

text \<open>The moves take the context along and copy the flag; the destructor has nothing to read.\<close>

definition Sha256_move :: "'c sha_object \<Rightarrow> 'c sha_object \<times> 'c sha_object" where
  "Sha256_move source = (source, source\<lparr>sha_impl := None\<rparr>)"

definition sha_object_Update :: "'c EVP \<Rightarrow> byte list \<Rightarrow> 'c sha_object \<Rightarrow> (unit run \<times> 'c sha_object) option" where
  "sha_object_Update evp data obj =
     (if sha_finalized obj then Some (Throws (logic_error ''Called Update after Finalize''), obj)
      else if data = [] then Some (Returns (), obj)
      else case sha_impl obj of
          None \<Rightarrow> None
        | Some c \<Rightarrow> Some (apsnd sha_of (Sha256_Update evp data \<lparr>ctx = c, finalized = sha_finalized obj\<rparr>)))"

definition sha_object_Finalize :: "'c EVP \<Rightarrow> 'c sha_object \<Rightarrow> (byte list run \<times> 'c sha_object) option" where
  "sha_object_Finalize evp obj =
     (if sha_finalized obj then Some (Throws (logic_error ''Called Finalize twice''), obj)
      else case sha_impl obj of
          None \<Rightarrow> None
        | Some c \<Rightarrow> Some (apsnd sha_of (Sha256_Finalize evp \<lparr>ctx = c, finalized = sha_finalized obj\<rparr>)))"

fun sha_object_Updates :: "'c EVP \<Rightarrow> byte list list \<Rightarrow> 'c sha_object \<Rightarrow> (unit run \<times> 'c sha_object) option" where
  "sha_object_Updates evp [] obj = Some (Returns (), obj)"
| "sha_object_Updates evp (d # ds) obj = (case sha_object_Update evp d obj of
      Some (Returns _, obj1) \<Rightarrow> sha_object_Updates evp ds obj1
    | r \<Rightarrow> r)"

lemma sha_of_fields [simp]: "sha_impl (sha_of h) = Some (ctx h)" "sha_finalized (sha_of h) = finalized h"
  by (simp_all add: sha_of_def)

lemma live_object_is_hasher:
  "sha_object_Update evp d (sha_of h) = Some (apsnd sha_of (Sha256_Update evp d h))"
  "sha_object_Finalize evp (sha_of h) = Some (apsnd sha_of (Sha256_Finalize evp h))"
proof -
  obtain c f where "h = \<lparr>ctx = c, finalized = f\<rparr>" by (cases h) auto
  then show "sha_object_Update evp d (sha_of h) = Some (apsnd sha_of (Sha256_Update evp d h))"
    "sha_object_Finalize evp (sha_of h) = Some (apsnd sha_of (Sha256_Finalize evp h))"
    by (simp_all add: sha_object_Update_def sha_object_Finalize_def finalized_stays Sha256_Update_def [of _ "[]"] sha_of_def)
qed

lemma live_object_streams:
  "sha_object_Updates evp ds (sha_of h) = Some (apsnd sha_of (Sha256_Updates evp ds h))"
proof (induction ds arbitrary: h)
  case (Cons d ds)
  obtain r h1 where "Sha256_Update evp d h = (r, h1)" by fastforce
  then show ?case using Cons.IH by (cases r) (simp_all add: live_object_is_hasher)
qed simp

section \<open>Theorems\<close>

text \<open>
  C32: A block of code that declares loggers, logs through them and moves between them runs to the end
  of the block without reading through a null pointer exactly if it moves none: a moved-from
  \<^verbatim>\<open>Logger\<close> is destroyed through its null \<open>impl_\<close> at the latest when the block is left. Without moves
  every logger is flushed once, operational before audit, the last one declared first.
\<close>

theorem moved_loggers_cannot_be_destroyed:
  assumes "block_wf 0 ss"
  shows "run_scope ss = (if \<exists>s \<in> set ss. moves s then None else Some (concat (map flushed_names (rev (declared ss)))))"
proof (cases "\<exists>s \<in> set ss. moves s")
  case True
  then show ?thesis using block_null [of ss "[]"] assms null_not_destroyed
    by (cases "exec_block ss []") (auto simp: run_scope_def)
next
  case False
  then obtain objs where "exec_block ss [] = Some objs" "map Logger_dtor objs = map (Some \<circ> flushed_names) (declared ss)"
    using block_alive [of ss "[]" "[]"] assms by auto
  then show ?thesis using False destroy_all_names [of "rev objs" "rev (declared ss)"]
    by (simp add: run_scope_def flip: rev_map)
qed

abbreviation demo_log_config :: LoggerConfig where
  "demo_log_config \<equiv> \<lparr>cfg_component_name = ''a'', cfg_log_directory = ''logs'', cfg_level = LogLevel_Info,
     cfg_rotation_max_bytes = 1, cfg_rotation_max_files = 1\<rparr>"

theorem moved_loggers_cannot_be_destroyed_witness:
  "block_wf 0 [Declare demo_log_config, Declare_moved 0] \<and> run_scope [Declare demo_log_config, Declare_moved 0] = None \<and>
   block_wf 0 [Declare demo_log_config, Log_call 0 [] LogLevel_Info ''m'' []] \<and>
   run_scope [Declare demo_log_config, Log_call 0 [] LogLevel_Info ''m'' []] = Some [''a'', ''a_audit'']"
  by (simp add: moved_loggers_cannot_be_destroyed flushed_names_def)

text \<open>
  A hasher that is moved in the middle of a message goes on where it was: the digest is that of the
  whole message. The object it was moved from accepts only empty updates; reading or finalizing it
  goes through a null pointer.
\<close>

theorem moved_hasher_continues:
  assumes "evp_computes evp absorbed H" "Sha256_new evp = Returns h"
  shows "\<exists>there. sha_object_Updates evp ds (sha_of h) = Some (Returns (), there) \<and>
    (\<exists>on. sha_object_Updates evp es (fst (Sha256_move there)) = Some (Returns (), on) \<and>
       map_option fst (sha_object_Finalize evp on) = Some (HashBytes evp (concat ds @ concat es))) \<and>
    (\<forall>d. sha_object_Update evp d (snd (Sha256_move there)) =
       (if d = [] then Some (Returns (), snd (Sha256_move there)) else None)) \<and>
    sha_object_Finalize evp (snd (Sha256_move there)) = None"
proof -
  have h: "absorbed (ctx h) = []" "\<not> finalized h" using Sha256_new_ok [OF assms(1)] assms(2) by auto
  obtain h1 where h1: "Sha256_Updates evp ds h = (Returns (), h1)" "absorbed (ctx h1) = concat ds" "\<not> finalized h1"
    using Sha256_Updates_ok [OF assms(1) h(2), of ds] h(1) by auto
  obtain h2 where h2: "Sha256_Updates evp es h1 = (Returns (), h2)" "absorbed (ctx h2) = concat ds @ concat es" "\<not> finalized h2"
    using Sha256_Updates_ok [OF assms(1) h1(3), of es] h1(2) by auto
  have "map_option fst (sha_object_Finalize evp (sha_of h2)) = Some (HashBytes evp (concat ds @ concat es))"
    using Sha256_Finalize_ok [OF assms(1) h2(3)] h2(2) by (auto simp: live_object_is_hasher HashBytes_eq [OF assms(1)])
  then show ?thesis using h1(1,3) h2(1)
    by (intro exI [of _ "sha_of h1"])
       (auto simp: live_object_streams Sha256_move_def sha_object_Update_def sha_object_Finalize_def)
qed

theorem moved_hasher_continues_witness:
  "\<exists>h there on. Sha256_new demo_evp = Returns h \<and> sha_object_Updates demo_evp [[1]] (sha_of h) = Some (Returns (), there) \<and>
     sha_object_Updates demo_evp [[2, 3]] (fst (Sha256_move there)) = Some (Returns (), on) \<and>
     map_option fst (sha_object_Finalize demo_evp on) = Some (HashBytes demo_evp [1, 2, 3])"
proof -
  obtain h where "Sha256_new demo_evp = Returns h" using Sha256_new_ok [OF demo_evp_computes] by blast
  then show ?thesis using moved_hasher_continues [OF demo_evp_computes, of h "[[1]]" "[[2, 3]]"] by auto
qed

end
