(* ===== verification/Uuid.thy ===== *)
theory Uuid
  imports Local_Disk
begin

text \<open>
  \<^verbatim>\<open>libs/common/src/uuid.cpp\<close>: \<^verbatim>\<open>GenerateUuidV4\<close> with its three \<^verbatim>\<open>thread_local\<close> variables. The engine
  \<^verbatim>\<open>std::mt19937\<close> and \<^verbatim>\<open>std::random_device\<close> are the standard library's and are modelled here; the
  \<^verbatim>\<open>uuids\<close> package, which turns numbers of the engine into UUIDs and prints them, is the parameter
  \<open>uuids_lib\<close>. The node names its temporary files and unlabelled requests with these strings
  (\<open>os_uuid\<close> and \<open>uuids\<close> in \<open>File_System\<close> and \<open>Storage_Service\<close>).
\<close>

section \<open>The Mersenne twister\<close>

text \<open>
  The state is the last 624 words of the sequence, oldest first, as the C++ standard defines it
  (word size 32, shift size 397, mask bits 31).
\<close>

type_synonym mt19937 = "uint32 list"

primrec mt_fill :: "nat \<Rightarrow> uint32 \<Rightarrow> uint32 \<Rightarrow> uint32 list" where
  "mt_fill 0 i x = []"
| "mt_fill (Suc k) i x = (let y = 1812433253 * (x XOR drop_bit 30 x) + i in y # mt_fill k (i + 1) y)"

definition mt_seed :: "uint32 \<Rightarrow> mt19937" where
  "mt_seed v = v # mt_fill 623 1 v"

definition mt_twist :: "uint32 \<Rightarrow> uint32 \<Rightarrow> uint32 \<Rightarrow> uint32" where
  "mt_twist x0 x1 xm =
     (let y = (x0 AND 0x80000000) OR (x1 AND 0x7FFFFFFF)
      in xm XOR drop_bit 1 y XOR (if bit y 0 then 0x9908B0DF else 0))"

definition mt_temper :: "uint32 \<Rightarrow> uint32" where
  "mt_temper x =
     (let z = x XOR drop_bit 11 x;
          z1 = z XOR (push_bit 7 z AND 0x9D2C5680);
          z2 = z1 XOR (push_bit 15 z1 AND 0xEFC60000)
      in z2 XOR drop_bit 18 z2)"

definition mt_next :: "mt19937 \<Rightarrow> uint32 \<times> mt19937" where
  "mt_next xs = (let x = mt_twist (xs ! 0) (xs ! 1) (xs ! 397) in (mt_temper x, tl xs @ [x]))"

section \<open>The generator\<close>

record ('u, 'g) uuids_lib =
  uuid_generator_new :: 'g \<comment> \<open>what the generator keeps besides its reference to the engine\<close>
  uuid_generator_call :: "'g \<Rightarrow> mt19937 \<Rightarrow> 'u \<times> 'g \<times> mt19937"
  uuid_to_string :: "'u \<Rightarrow> string"

text \<open>What \<^verbatim>\<open>std::random_device\<close> does when it is made and when it is asked for a number.\<close>

record entropy =
  rd_open :: "unit run"
  rd_value :: "uint32 run"

record 'g uuid_locals =
  rd :: bool \<comment> \<open>made\<close>
  gen :: "mt19937 option"
  uuid_gen :: "'g option"

definition fresh_locals :: "'g uuid_locals" where
  "fresh_locals = \<lparr>rd = False, gen = None, uuid_gen = None\<rparr>"

text \<open>
  A \<^verbatim>\<open>thread_local\<close> variable is initialized when the thread first passes its declaration; when the
  initializer throws, it stays uninitialized and the next call tries again.
\<close>

definition init_rd :: "entropy \<Rightarrow> 'g uuid_locals \<Rightarrow> unit run \<times> 'g uuid_locals" where
  "init_rd ent l =
     (if rd l then (Returns (), l)
      else case rd_open ent of
          Returns _ \<Rightarrow> (Returns (), l\<lparr>rd := True\<rparr>)
        | Throws e \<Rightarrow> (Throws e, l)
        | Blocks \<Rightarrow> (Blocks, l))"

definition init_gen :: "entropy \<Rightarrow> 'g uuid_locals \<Rightarrow> mt19937 run \<times> 'g uuid_locals" where
  "init_gen ent l = (case gen l of
      Some m \<Rightarrow> (Returns m, l)
    | None \<Rightarrow> (case rd_value ent of
          Returns v \<Rightarrow> (Returns (mt_seed v), l\<lparr>gen := Some (mt_seed v)\<rparr>)
        | Throws e \<Rightarrow> (Throws e, l)
        | Blocks \<Rightarrow> (Blocks, l)))"

definition init_uuid_gen :: "('u, 'g) uuids_lib \<Rightarrow> 'g uuid_locals \<Rightarrow> 'g run \<times> 'g uuid_locals" where
  "init_uuid_gen lib l = (case uuid_gen l of
      Some g \<Rightarrow> (Returns g, l)
    | None \<Rightarrow> (Returns (uuid_generator_new lib), l\<lparr>uuid_gen := Some (uuid_generator_new lib)\<rparr>))"

definition GenerateUuidV4 :: "('u, 'g) uuids_lib \<Rightarrow> entropy \<Rightarrow> 'g uuid_locals \<Rightarrow> string run \<times> 'g uuid_locals" where
  "GenerateUuidV4 lib ent l =
     run_bind (init_rd ent l) (\<lambda>_ l1.
     run_bind (init_gen ent l1) (\<lambda>m l2.
     run_bind (init_uuid_gen lib l2) (\<lambda>g l3.
       let (u, g', m') = uuid_generator_call lib g m
       in (Returns (uuid_to_string lib u), l3\<lparr>gen := Some m', uuid_gen := Some g'\<rparr>))))"

text \<open>
  Calls of several threads in the order in which they happen, each with its thread's number and what
  the random device would answer at that time.
\<close>

fun uuid_calls ::
  "('u, 'g) uuids_lib \<Rightarrow> (nat \<times> entropy) list \<Rightarrow> (nat \<Rightarrow> 'g uuid_locals) \<Rightarrow> (nat \<times> string run) list" where
  "uuid_calls lib [] ls = []"
| "uuid_calls lib ((i, ent) # cs) ls =
     (let (r, l) = GenerateUuidV4 lib ent (ls i) in (i, r) # uuid_calls lib cs (ls(i := l)))"

text \<open>The strings one engine gives, without the variables around it.\<close>

fun uuid_stream :: "('u, 'g) uuids_lib \<Rightarrow> 'g \<Rightarrow> mt19937 \<Rightarrow> nat \<Rightarrow> string list" where
  "uuid_stream lib g m 0 = []"
| "uuid_stream lib g m (Suc k) =
     (let (u, g', m') = uuid_generator_call lib g m in uuid_to_string lib u # uuid_stream lib g' m' k)"

section \<open>Lemmas\<close>

lemma mt_fill_length: "length (mt_fill k i x) = k"
  by (induction k arbitrary: i x) (simp_all add: Let_def)

lemma mt_length: "length (mt_seed v) = 624" "length xs = 624 \<Longrightarrow> length (snd (mt_next xs)) = 624"
  by (simp_all add: mt_seed_def mt_next_def mt_fill_length Let_def)

text \<open>The first number the standard's engine gives for its default seed.\<close>

lemma mt_first_of_default_seed: "fst (mt_next (mt_seed 5489)) = 3499211612"
  by code_simp

definition calls_of :: "nat \<Rightarrow> (nat \<times> 'a) list \<Rightarrow> 'a list" where
  "calls_of i cs = map snd (filter (\<lambda>(j, _). j = i) cs)"

lemma calls_of_simps [simp]:
  "calls_of i [] = []" "calls_of i ((j, x) # cs) = (if j = i then x # calls_of i cs else calls_of i cs)"
  by (simp_all add: calls_of_def)

lemma GenerateUuidV4_running:
  assumes "rd l" "gen l = Some m" "uuid_gen l = Some g" "uuid_generator_call lib g m = (u, g', m')"
  shows "GenerateUuidV4 lib ent l = (Returns (uuid_to_string lib u), l\<lparr>gen := Some m', uuid_gen := Some g'\<rparr>)"
  using assms by (simp add: GenerateUuidV4_def init_rd_def init_gen_def init_uuid_gen_def)

lemma GenerateUuidV4_first:
  assumes "rd_open ent = Returns ()" "rd_value ent = Returns v"
    "uuid_generator_call lib (uuid_generator_new lib) (mt_seed v) = (u, g', m')"
  shows "GenerateUuidV4 lib ent fresh_locals =
    (Returns (uuid_to_string lib u), \<lparr>rd = True, gen = Some m', uuid_gen = Some g'\<rparr>)"
  using assms by (simp add: GenerateUuidV4_def init_rd_def init_gen_def init_uuid_gen_def fresh_locals_def)

text \<open>With the text form the package documents, the strings are as the rest of the development expects them.\<close>

lemma GenerateUuidV4_wf:
  assumes "\<And>u. uuid_wf (uuid_to_string lib u)" "GenerateUuidV4 lib ent l = (Returns s, l')"
  shows "uuid_wf s"
  using assms by (auto simp: GenerateUuidV4_def run_bind_eq_Returns split_def Let_def)

lemma running_stream:
  assumes "ls i = \<lparr>rd = True, gen = Some m, uuid_gen = Some g\<rparr>"
  shows "calls_of i (uuid_calls lib cs ls) = map Returns (uuid_stream lib g m (length (calls_of i cs)))"
  using assms
proof (induction cs arbitrary: ls g m)
  case (Cons c cs)
  obtain j ent where c: "c = (j, ent)" by (cases c)
  obtain r l where call: "GenerateUuidV4 lib ent (ls j) = (r, l)" by fastforce
  show ?case
  proof (cases "j = i")
    case True
    obtain u g' m' where u: "uuid_generator_call lib g m = (u, g', m')" using prod_cases3 by blast
    then have "r = Returns (uuid_to_string lib u)" "l = \<lparr>rd = True, gen = Some m', uuid_gen = Some g'\<rparr>"
      using GenerateUuidV4_running [of "ls j" m g lib u g' m' ent] Cons.prems call True by simp_all
    then show ?thesis using Cons.IH [of "ls(i := l)" m' g'] c call u True by (simp del: fun_upd_apply add: fun_upd_same)
  next
    case False
    then show ?thesis using Cons.IH [of "ls(j := l)" m g] Cons.prems c call by (simp del: fun_upd_apply add: fun_upd_other)
  qed
qed simp

section \<open>Theorems\<close>

text \<open>
  C40: The strings a thread gets from \<open>GenerateUuidV4\<close> are those of one Mersenne twister, seeded with the
  32-bit number the random device returned at the thread's first call: calls of other threads in
  between change nothing, and neither does what the device would say later.
\<close>

theorem uuids_depend_on_first_seed:
  assumes "calls_of i cs = ent # later" "rd_open ent = Returns ()" "rd_value ent = Returns v"
  shows "calls_of i (uuid_calls lib cs (\<lambda>_. fresh_locals)) =
    map Returns (uuid_stream lib (uuid_generator_new lib) (mt_seed v) (Suc (length later)))"
proof -
  have "calls_of i (uuid_calls lib cs ls) =
      map Returns (uuid_stream lib (uuid_generator_new lib) (mt_seed v) (Suc (length later)))"
    if "calls_of i cs = ent # later" "ls i = fresh_locals" for cs and ls :: "nat \<Rightarrow> 'b uuid_locals"
    using that
  proof (induction cs arbitrary: ls)
    case (Cons c cs)
    obtain j x where c: "c = (j, x)" by (cases c)
    obtain r l where call: "GenerateUuidV4 lib x (ls j) = (r, l)" by fastforce
    show ?case
    proof (cases "j = i")
      case True
      obtain u g m where u: "uuid_generator_call lib (uuid_generator_new lib) (mt_seed v) = (u, g, m)" using prod_cases3 by blast
      have x: "x = ent" "calls_of i cs = later" using Cons.prems(1) c True by simp_all
      then have "r = Returns (uuid_to_string lib u)" "l = \<lparr>rd = True, gen = Some m, uuid_gen = Some g\<rparr>"
        using GenerateUuidV4_first [OF assms(2,3) u] call Cons.prems(2) True by simp_all
      then show ?thesis using running_stream [of "ls(i := l)" i m g lib cs] c call u True x
        by (simp del: fun_upd_apply add: fun_upd_same)
    next
      case False
      then show ?thesis using Cons.IH [of "ls(j := l)"] Cons.prems c call by (simp del: fun_upd_apply add: fun_upd_other)
    qed
  qed simp
  then show ?thesis using assms(1) by simp
qed

text \<open>A package that prints the engine's next number in decimal.\<close>

definition demo_uuids :: "(uint32, unit) uuids_lib" where
  "demo_uuids = \<lparr>uuid_generator_new = (), uuid_generator_call = (\<lambda>_ m. let (x, m') = mt_next m in (x, (), m')),
     uuid_to_string = (\<lambda>x. to_string (uint x))\<rparr>"

lemma demo_uuids_stream:
  "uuid_stream demo_uuids () m 2 =
     [to_string (uint (fst (mt_next m))), to_string (uint (fst (mt_next (snd (mt_next m)))))]"
  by (simp add: demo_uuids_def numeral_2_eq_2 split_def Let_def)

theorem uuids_depend_on_first_seed_witness:
  "\<exists>second. calls_of 0 (uuid_calls demo_uuids
       [(0, \<lparr>rd_open = Returns (), rd_value = Returns 5489\<rparr>), (1, \<lparr>rd_open = Returns (), rd_value = Returns 7\<rparr>),
        (0, \<lparr>rd_open = Returns (), rd_value = Throws system_error\<rparr>)] (\<lambda>_. fresh_locals)) =
     [Returns (to_string 3499211612), Returns second]"
proof -
  let ?late = "\<lparr>rd_open = Returns (), rd_value = Throws system_error\<rparr>"
  let ?cs = "[(0, \<lparr>rd_open = Returns (), rd_value = Returns 5489\<rparr>), (1, \<lparr>rd_open = Returns (), rd_value = Returns 7\<rparr>), (0, ?late)]"
  have new: "uuid_generator_new demo_uuids = ()" by simp
  have two: "Suc (length [?late]) = 2" by simp
  have "calls_of 0 (uuid_calls demo_uuids ?cs (\<lambda>_. fresh_locals)) = map Returns (uuid_stream demo_uuids () (mt_seed 5489) 2)"
    using uuids_depend_on_first_seed [of 0 ?cs "\<lparr>rd_open = Returns (), rd_value = Returns 5489\<rparr>" "[?late]" 5489 demo_uuids]
    unfolding two new by simp
  then show ?thesis unfolding demo_uuids_stream mt_first_of_default_seed by simp
qed

end
