(* ===== verification/Clock_Lease.thy ===== *)
theory Clock_Lease
  imports Prelude "HOL-Library.Monad_Syntax"
begin

text \<open>
  \<^verbatim>\<open>libs/common/src/clock.cpp\<close> and \<^verbatim>\<open>lease.cpp\<close>: the injectable clock and time-bounded leases.
  Time points and durations are signed 64-bit tick counts; a sum outside that range is undefined
  behaviour of the C++ program and the value \<open>None\<close> here. The real clock is the operating system's,
  its state the tick count \<^verbatim>\<open>system_clock::now\<close> would return; the fake clock has state of its own.
  \<open>measured_clock\<close> is what a user of the interface \<^verbatim>\<open>IClock\<close> relies on.
\<close>

type_synonym ticks = int

definition add64 :: "ticks \<Rightarrow> ticks \<Rightarrow> ticks option" where
  "add64 a b = (if in_range 64 (a + b) then Some (a + b) else None)"

record 'c IClock =
  Now :: "'c \<Rightarrow> ticks"

definition RealClock_Now :: "ticks \<Rightarrow> ticks" where
  "RealClock_Now system_now = system_now"

definition RealClock_vtable :: "ticks IClock" where
  "RealClock_vtable = \<lparr>Now = RealClock_Now\<rparr>"

record FakeClock =
  current :: ticks

definition FakeClock_new :: "ticks \<Rightarrow> FakeClock" where
  "FakeClock_new start = \<lparr>current = start\<rparr>"

definition FakeClock_Now :: "FakeClock \<Rightarrow> ticks" where
  "FakeClock_Now c = current c"

definition FakeClock_Advance :: "ticks \<Rightarrow> FakeClock \<Rightarrow> FakeClock option" where
  "FakeClock_Advance by c = do { t \<leftarrow> add64 (current c) by; Some (c\<lparr>current := t\<rparr>) }"

definition FakeClock_SetTo :: "ticks \<Rightarrow> FakeClock \<Rightarrow> FakeClock" where
  "FakeClock_SetTo when c = c\<lparr>current := when\<rparr>"

definition FakeClock_vtable :: "FakeClock IClock" where
  "FakeClock_vtable = \<lparr>Now = FakeClock_Now\<rparr>"

record Lease =
  issued_at :: ticks
  ttl :: ticks

definition IssueNow :: "ticks \<Rightarrow> ticks \<Rightarrow> Lease" where
  "IssueNow t now = \<lparr>issued_at = now, ttl = t\<rparr>"

definition IsExpired :: "Lease \<Rightarrow> ticks \<Rightarrow> ticks \<Rightarrow> bool option" where
  "IsExpired l now clock_skew_tolerance =
     do { expires \<leftarrow> add64 (issued_at l) (ttl l);
          deadline \<leftarrow> add64 expires clock_skew_tolerance;
          Some (now > deadline) }"

definition IssuedAt :: "Lease \<Rightarrow> ticks" where
  "IssuedAt l = issued_at l"

definition ExpiresAt :: "Lease \<Rightarrow> ticks option" where
  "ExpiresAt l = add64 (issued_at l) (ttl l)"

section \<open>Lemmas\<close>

lemma add64_Some_iff: "add64 a b = Some c \<longleftrightarrow> c = a + b \<and> in_range 64 c"
  by (auto simp: add64_def)

lemma IsExpired_Some_iff:
  "IsExpired l now tol = Some e \<longleftrightarrow>
     in_range 64 (issued_at l + ttl l) \<and> in_range 64 (issued_at l + ttl l + tol) \<and>
     (e \<longleftrightarrow> issued_at l + ttl l + tol < now)"
  by (auto simp: IsExpired_def add64_def)

section \<open>The clock interface\<close>

text \<open>
  A clock, and when \<open>d\<close> ticks pass on it between two states; for the system clock \<open>d\<close> may be negative,
  since the machine's time can be set back.
\<close>

locale measured_clock =
  fixes clock :: "'c IClock" and passes :: "ticks \<Rightarrow> 'c \<Rightarrow> 'c \<Rightarrow> bool"
  assumes passes_now: "passes d c c' \<Longrightarrow> Now clock c' = Now clock c + d"
begin

lemma lease_at:
  assumes "passes d c c'" "in_range 64 (Now clock c + t)" "in_range 64 (Now clock c + t + tol)"
  shows "IsExpired (IssueNow t (Now clock c)) (Now clock c') tol = Some (t + tol < d)"
  using assms passes_now [OF assms(1)] by (auto simp: IssueNow_def IsExpired_Some_iff)

end

interpretation fake_clock: measured_clock FakeClock_vtable "\<lambda>d c c'. FakeClock_Advance d c = Some c'"
  by unfold_locales
     (auto simp: FakeClock_vtable_def FakeClock_Advance_def FakeClock_Now_def add64_Some_iff split: Option.bind_splits)

interpretation real_clock: measured_clock RealClock_vtable "\<lambda>d c c'. c' = c + d"
  by unfold_locales (simp add: RealClock_vtable_def RealClock_Now_def)

section \<open>What leases promise\<close>

text \<open>
  A lease issued from the fake clock, looked at after the clock has advanced, is expired
  exactly when more time has passed than its lifetime and the skew tolerance together; the answer
  is defined whenever the two deadline sums fit the 64-bit time type.
\<close>

theorem lease_lifetime_is_exact:
  assumes "FakeClock_Advance elapsed c = Some c'" "in_range 64 (FakeClock_Now c + t)"
    "in_range 64 (FakeClock_Now c + t + tol)"
  shows "IsExpired (IssueNow t (FakeClock_Now c)) (FakeClock_Now c') tol = Some (t + tol < elapsed)"
  using fake_clock.lease_at [OF assms(1), of t tol] assms(2,3) by (simp add: FakeClock_vtable_def)

theorem lease_lifetime_is_exact_witness:
  "IsExpired (IssueNow 10 (FakeClock_Now (FakeClock_new 1000))) 1013 2 = Some True \<and>
   IsExpired (IssueNow 10 (FakeClock_Now (FakeClock_new 1000))) 1012 2 = Some False"
  using lease_lifetime_is_exact [of 13 "FakeClock_new 1000" "FakeClock_new 1013" 10 2]
    lease_lifetime_is_exact [of 12 "FakeClock_new 1000" "FakeClock_new 1012" 10 2]
  by (simp add: FakeClock_new_def FakeClock_Advance_def FakeClock_Now_def add64_def in_range_def)

text \<open>
  Expiry is final and the tolerance only ever delays it: once a lease is expired it stays so at
  every later time, it is expired for every smaller tolerance too, and with a tolerance that is not
  negative no lease is expired before the time \<open>ExpiresAt\<close> names.
\<close>

theorem lease_expiry_is_monotone:
  assumes "IsExpired l now tol = Some True" "now \<le> now'" "tol' \<le> tol" "0 \<le> tol'"
  shows "IsExpired l now' tol' = Some True \<and> (\<exists>e. ExpiresAt l = Some e \<and> e < now')"
proof -
  have l: "in_range 64 (issued_at l + ttl l)" "in_range 64 (issued_at l + ttl l + tol)"
      "issued_at l + ttl l + tol < now"
    using assms(1) by (simp_all add: IsExpired_Some_iff)
  then have "in_range 64 (issued_at l + ttl l + tol')" using assms(3,4) by (auto simp: in_range_def)
  with l assms(2-4) show ?thesis by (auto simp: IsExpired_Some_iff ExpiresAt_def add64_def)
qed

theorem lease_expiry_is_monotone_witness:
  "IsExpired (IssueNow 10 1000) 2000 0 = Some True"
proof -
  have "IsExpired (IssueNow 10 1000) 1013 2 = Some True"
    by (simp add: IsExpired_Some_iff IssueNow_def in_range_def)
  from lease_expiry_is_monotone [OF this, of 2000 0] show ?thesis by simp
qed

text \<open>
  On the system clock a lease is not final: when the machine's time is set back behind the deadline, a
  lease that was expired is valid again.
\<close>

theorem setting_the_clock_back_revives_leases:
  assumes "in_range 64 (RealClock_Now c + t)" "in_range 64 (RealClock_Now c + t + tol)" "t + tol < d" "d + back \<le> t + tol"
  shows "IsExpired (IssueNow t (RealClock_Now c)) (RealClock_Now (c + d)) tol = Some True \<and>
    IsExpired (IssueNow t (RealClock_Now c)) (RealClock_Now (c + d + back)) tol = Some False"
  using real_clock.lease_at [of "c + d" c d t tol] real_clock.lease_at [of "c + d + back" c "d + back" t tol] assms
  by (simp add: RealClock_vtable_def)

theorem setting_the_clock_back_revives_leases_witness:
  "IsExpired (IssueNow 10 (RealClock_Now 1000)) (RealClock_Now 1020) 2 = Some True \<and>
   IsExpired (IssueNow 10 (RealClock_Now 1000)) (RealClock_Now 1005) 2 = Some False"
  using setting_the_clock_back_revives_leases [of 1000 10 2 20 "-15"] by (simp add: RealClock_Now_def in_range_def)

end
