(* ===== verification/Path_Validator.thy ===== *)
theory Path_Validator
  imports Result "HOL-Library.Sublist"
begin

text \<open>
  \<^verbatim>\<open>libs/common/src/path_validator.cpp\<close>: validation of absolute paths and their normal form for
  display. The loop works with indices into the path and \<^verbatim>\<open>string_view::find\<close>, as the code does; it
  is shown equal to a scan over the components. The configured pattern is a bracket expression (as
  the default is): a class of characters \<open>allowed\<close>, and \<^verbatim>\<open>^(class)+$\<close> matches the non-empty strings
  over it.
\<close>

datatype PathValidationError =
    NotAbsolute | ContainsParentTraversal | ContainsNullByte | ComponentTooLong
  | PathTooLong | InvalidCharacter | EmptyComponent

record PathValidatorConfig =
  max_component_length :: nat
  max_path_length :: nat
  allowed :: "char \<Rightarrow> bool"

text \<open>The default of \<^verbatim>\<open>allowed_character_pattern\<close>.\<close>

definition default_allowed :: "char \<Rightarrow> bool" where
  "default_allowed c \<longleftrightarrow>
     isupper c \<or> islower c \<or> isdigit c \<or> c = CHR ''.'' \<or> c = CHR ''_'' \<or> c = CHR ''-'' \<or> c = CHR '' ''"

definition PathValidatorConfig_default :: PathValidatorConfig where
  "PathValidatorConfig_default = \<lparr>max_component_length = 255, max_path_length = 4096, allowed = default_allowed\<rparr>"

definition regex_match :: "string \<Rightarrow> (char \<Rightarrow> bool) \<Rightarrow> bool" where
  "regex_match s cls \<longleftrightarrow> s \<noteq> [] \<and> list_all cls s"

text \<open>\<^verbatim>\<open>find(c, pos)\<close>: the first index from \<open>pos\<close> on, or \<^verbatim>\<open>npos\<close>.\<close>

definition find_from :: "char \<Rightarrow> string \<Rightarrow> nat \<Rightarrow> nat option" where
  "find_from c s pos =
     (let k = length (takeWhile (\<lambda>d. d \<noteq> c) (drop pos s))
      in if pos + k < length s then Some (pos + k) else None)"

definition check_component :: "PathValidatorConfig \<Rightarrow> string \<Rightarrow> PathValidationError option" where
  "check_component config component =
     (if component = [] then Some EmptyComponent
      else if length component > max_component_length config then Some ComponentTooLong
      else if component = ''..'' then Some ContainsParentTraversal
      else if \<not> regex_match component (allowed config) then Some InvalidCharacter
      else None)"

function Validate_loop :: "PathValidatorConfig \<Rightarrow> string \<Rightarrow> nat \<Rightarrow> (unit, PathValidationError) Result" where
  "Validate_loop config path start =
     (if start < length path then
        let found = find_from (CHR ''/'') path start;
            component = (case found of None \<Rightarrow> drop start path | Some e \<Rightarrow> take (e - start) (drop start path))
        in case check_component config component of
             Some err \<Rightarrow> Err err
           | None \<Rightarrow>
               (case found of None \<Rightarrow> Ok () | Some e \<Rightarrow> Validate_loop config path (e + 1))
      else Ok ())"
  by pat_completeness auto
termination
  by (relation "measure (\<lambda>(config, path, start). length path - start)")
     (auto simp: find_from_def Let_def split: if_splits)

declare Validate_loop.simps [simp del]

definition PathValidator_Validate :: "PathValidatorConfig \<Rightarrow> string \<Rightarrow> (unit, PathValidationError) Result" where
  "PathValidator_Validate config path =
     (if path = [] \<or> hd path \<noteq> CHR ''/'' then Err NotAbsolute
      else if length path > max_path_length config then Err PathTooLong
      else if CHR 0x00 \<in> set path then Err ContainsNullByte
      else if path = ''/'' then Ok ()
      else Validate_loop config path 1)"

text \<open>The display loop: \<open>result\<close> is what has been emitted so far.\<close>

fun Normalize_loop :: "string \<Rightarrow> string \<Rightarrow> string" where
  "Normalize_loop [] result = result"
| "Normalize_loop (c # cs) result =
     (if c = CHR ''/'' \<and> last result = CHR ''/'' then Normalize_loop cs result
      else Normalize_loop cs (result @ [c]))"

definition NormalizeForDisplay :: "string \<Rightarrow> string" where
  "NormalizeForDisplay path = (case path of [] \<Rightarrow> [] | c # cs \<Rightarrow> Normalize_loop cs [c])"

section \<open>The loop is a scan over the components\<close>

text \<open>Components of the text after the leading slash; one trailing slash adds no component.\<close>

function components :: "string \<Rightarrow> string list" where
  "components s =
     (if s = [] then []
      else takeWhile (\<lambda>d. d \<noteq> CHR ''/'') s # components (drop 1 (dropWhile (\<lambda>d. d \<noteq> CHR ''/'') s)))"
  by pat_completeness auto
termination
  by (relation "measure length") (auto intro!: le_less_trans [OF diff_le_mono [OF length_dropWhile_le]])

declare components.simps [simp del]

lemma components_Nil [simp]: "components [] = []"
  by (simp add: components.simps)

fun first_error :: "PathValidatorConfig \<Rightarrow> string list \<Rightarrow> (unit, PathValidationError) Result" where
  "first_error config [] = Ok ()"
| "first_error config (c # cs) =
     (case check_component config c of Some err \<Rightarrow> Err err | None \<Rightarrow> first_error config cs)"

lemma Validate_loop_eq: "Validate_loop config path start = first_error config (components (drop start path))"
proof (induction config path start rule: Validate_loop.induct)
  case (1 config path start)
  let ?rest = "drop start path" and ?P = "\<lambda>d. d \<noteq> CHR ''/''"
  define k where "k = length (takeWhile ?P ?rest)"
  show ?case
  proof (cases "start < length path")
    case True
    then have comps: "components ?rest = takeWhile ?P ?rest # components (drop 1 (dropWhile ?P ?rest))"
      by (subst components.simps) simp
    show ?thesis
    proof (cases "start + k < length path")
      case found: True
      then have f: "find_from (CHR ''/'') path start = Some (start + k)" by (simp add: find_from_def k_def Let_def)
      have tk: "take (start + k - start) ?rest = takeWhile ?P ?rest"
        unfolding k_def by (simp add: takeWhile_eq_take [symmetric])
      have dr: "drop (start + k + 1) path = drop 1 (dropWhile ?P ?rest)"
        unfolding k_def by (simp add: dropWhile_eq_drop add.commute)
      have IH: "Validate_loop config path (start + k + 1) = first_error config (components (drop (start + k + 1) path))"
        if "check_component config (takeWhile ?P ?rest) = None"
        using 1 [OF True refl refl, unfolded f option.case tk, OF that refl] .
      show ?thesis
        unfolding Validate_loop.simps [of _ _ start] Let_def f option.case tk comps first_error.simps
        using True IH dr by (cases "check_component config (takeWhile ?P ?rest)") simp_all
    next
      case False
      then have f: "find_from (CHR ''/'') path start = None" by (simp add: find_from_def k_def Let_def)
      have "length ?rest \<le> k" using False by simp
      then have td: "takeWhile ?P ?rest = ?rest" "dropWhile ?P ?rest = []"
        using k_def by (metis take_all takeWhile_eq_take, metis drop_all dropWhile_eq_drop)
      show ?thesis
        unfolding Validate_loop.simps [of _ _ start] Let_def f option.case comps td first_error.simps
        using True by (cases "check_component config ?rest") simp_all
    qed
  qed (simp add: Validate_loop.simps)
qed

lemma first_error_Ok: "first_error config cs = Ok () \<longleftrightarrow> list_all (\<lambda>c. check_component config c = None) cs"
  by (induction cs) (auto split: option.splits)

text \<open>The components joined by slashes are the text again.\<close>

lemma components_step:
  assumes "s \<noteq> []"
  obtains (single) "CHR ''/'' \<notin> set s" "components s = [s]"
  | (more) c r where "s = c @ CHR ''/'' # r" "CHR ''/'' \<notin> set c" "components s = c # components r"
proof (cases "dropWhile (\<lambda>d. d \<noteq> CHR ''/'') s")
  case Nil
  then have "CHR ''/'' \<notin> set s" "takeWhile (\<lambda>d. d \<noteq> CHR ''/'') s = s" by auto
  moreover have "components s = [s]"
    using assms by (subst components.simps) (simp only: Nil \<open>takeWhile _ s = s\<close> if_False drop_Nil components_Nil)
  ultimately show thesis using single by blast
next
  case (Cons x r)
  then have "x = CHR ''/''" using hd_dropWhile [of "\<lambda>d. d \<noteq> CHR ''/''" s] by (metis list.discI list.sel(1))
  with Cons assms show thesis
    using more [of "takeWhile (\<lambda>d. d \<noteq> CHR ''/'') s" r] takeWhile_dropWhile_id [of "\<lambda>d. d \<noteq> CHR ''/''" s]
      set_takeWhileD by (fastforce simp: components.simps [of s])
qed

lemma components_join:
  "concat (map (\<lambda>c. c @ ''/'') (components s)) = s @ (if s = [] \<or> last s = CHR ''/'' then [] else ''/'')"
proof (induction s rule: measure_induct_rule [of length])
  case (less s)
  show ?case
  proof (cases "s = []")
    case False
    then show ?thesis
    proof (cases rule: components_step)
      case single
      then have "last s \<noteq> CHR ''/''" using False last_in_set [of s] by metis
      with single False show ?thesis by simp
    next
      case (more c r)
      then show ?thesis using less [of r] by auto
    qed
  qed simp
qed

section \<open>The display form\<close>

fun squeeze :: "char \<Rightarrow> string \<Rightarrow> string" where
  "squeeze p [] = []"
| "squeeze p (c # cs) = (if c = CHR ''/'' \<and> p = CHR ''/'' then squeeze p cs else c # squeeze c cs)"

lemma Normalize_loop_eq: "result \<noteq> [] \<Longrightarrow> Normalize_loop cs result = result @ squeeze (last result) cs"
  by (induction cs result rule: Normalize_loop.induct) auto

lemma NormalizeForDisplay_Cons: "NormalizeForDisplay (c # cs) = c # squeeze c cs"
  by (simp add: NormalizeForDisplay_def Normalize_loop_eq)

abbreviation single_slashes :: "string \<Rightarrow> bool" where
  "single_slashes \<equiv> successively (\<lambda>a b. \<not> (a = CHR ''/'' \<and> b = CHR ''/''))"

lemma squeeze_single: "single_slashes (p # squeeze p cs)"
  by (induction p cs rule: squeeze.induct) auto

lemma squeeze_id: "single_slashes (p # cs) \<Longrightarrow> squeeze p cs = cs"
  by (induction p cs rule: squeeze.induct) auto

lemma squeeze_other: "filter (\<lambda>c. c \<noteq> CHR ''/'') (squeeze p cs) = filter (\<lambda>c. c \<noteq> CHR ''/'') cs"
  by (induction p cs rule: squeeze.induct) auto

lemma no_slash_single: "CHR ''/'' \<notin> set c \<Longrightarrow> single_slashes c"
  by (induction c rule: induct_list012) auto

lemma nonempty_components_single:
  "list_all (\<lambda>c. c \<noteq> []) (components s) \<Longrightarrow> single_slashes (CHR ''/'' # s)"
proof (induction s rule: measure_induct_rule [of length])
  case (less s)
  show ?case
  proof (cases "s = []")
    case False
    then show ?thesis
    proof (cases rule: components_step)
      case single
      then show ?thesis using no_slash_single by (cases s) auto
    next
      case (more c r)
      then have "single_slashes (CHR ''/'' # r)" "c \<noteq> []" using less by simp_all
      moreover have "last c \<noteq> CHR ''/''" "hd c \<noteq> CHR ''/''" using more(2) \<open>c \<noteq> []\<close> by (metis last_in_set, metis hd_in_set)
      ultimately show ?thesis
        using more(1) no_slash_single [OF more(2)] by (simp add: successively_append_iff successively_Cons)
    qed
  qed simp
qed

section \<open>What the validator promises\<close>

text \<open>
  C35: The index arithmetic of \<open>Validate\<close> amounts to a scan over the components: a path is accepted
  exactly if it starts with a slash, is not too long, contains no NUL byte, and each component
  between its slashes is non-empty, within the length limit, different from ``..'' and made of
  allowed characters; the components are a faithful split of the path.
\<close>

theorem Validate_is_component_scan:
  "(PathValidator_Validate config path = Ok ()) =
     (\<exists>rest. path = CHR ''/'' # rest \<and> length path \<le> max_path_length config \<and> CHR 0x00 \<notin> set path \<and>
        list_all (\<lambda>c. c \<noteq> [] \<and> length c \<le> max_component_length config \<and> c \<noteq> ''..'' \<and> list_all (allowed config) c)
          (components rest) \<and>
        concat (map (\<lambda>c. c @ ''/'') (components rest)) =
          rest @ (if rest = [] \<or> last rest = CHR ''/'' then [] else ''/''))"
proof (cases path)
  case (Cons c rest)
  have "(\<lambda>x. check_component config x = None) = (\<lambda>c. c \<noteq> [] \<and> length c \<le> max_component_length config \<and>
      c \<noteq> ''..'' \<and> list_all (allowed config) c)"
    by (auto simp: fun_eq_iff check_component_def regex_match_def)
  then show ?thesis
    using Cons by (auto simp: PathValidator_Validate_def Validate_loop_eq first_error_Ok components_join)
qed (simp add: PathValidator_Validate_def)

text \<open>
  \<open>NormalizeForDisplay\<close> yields no two adjacent slashes, drops nothing but slashes, and is
  idempotent; on every path that validates it is the identity.
\<close>

theorem NormalizeForDisplay_squeezes:
  "single_slashes (NormalizeForDisplay path) \<and>
   filter (\<lambda>c. c \<noteq> CHR ''/'') (NormalizeForDisplay path) = filter (\<lambda>c. c \<noteq> CHR ''/'') path \<and>
   NormalizeForDisplay (NormalizeForDisplay path) = NormalizeForDisplay path \<and>
   (PathValidator_Validate config path = Ok () \<longrightarrow> NormalizeForDisplay path = path)"
proof (cases path)
  case Nil
  then show ?thesis by (simp add: NormalizeForDisplay_def)
next
  case (Cons c cs)
  have "squeeze c cs = cs" if "PathValidator_Validate config path = Ok ()"
  proof -
    from that Cons have "c = CHR ''/''" "list_all (\<lambda>c. check_component config c = None) (components cs)"
      by (auto simp: PathValidator_Validate_def Validate_loop_eq first_error_Ok split: if_splits)
    then have "list_all (\<lambda>c. c \<noteq> []) (components cs)"
      by (auto simp: list_all_iff check_component_def)
    with nonempty_components_single squeeze_id \<open>c = CHR ''/''\<close> show ?thesis by blast
  qed
  then show ?thesis
    using Cons squeeze_single [of c cs] squeeze_id [of c "squeeze c cs"]
    by (simp add: NormalizeForDisplay_Cons squeeze_other)
qed

theorem NormalizeForDisplay_squeezes_witness:
  "PathValidator_Validate PathValidatorConfig_default ''/a/b.txt'' = Ok () \<and>
   NormalizeForDisplay ''/a/b.txt'' = ''/a/b.txt''"
proof -
  have "PathValidator_Validate PathValidatorConfig_default ''/a/b.txt'' = Ok ()" by code_simp
  with NormalizeForDisplay_squeezes [of "''/a/b.txt''" PathValidatorConfig_default] show ?thesis by blast
qed

text \<open>
  What the rules let through: with the default configuration a path may end in a slash and may
  contain ``.'' components, so distinct accepted paths can name the same file.
\<close>

theorem Validate_admits_aliases:
  "PathValidator_Validate PathValidatorConfig_default ''/a/b'' = Ok () \<and>
   PathValidator_Validate PathValidatorConfig_default ''/a/b/'' = Ok () \<and>
   PathValidator_Validate PathValidatorConfig_default ''/a/./b'' = Ok () \<and>
   PathValidator_Validate PathValidatorConfig_default ''/a/../b'' = Err ContainsParentTraversal \<and>
   PathValidator_Validate PathValidatorConfig_default ''/a//b'' = Err EmptyComponent"
  by code_simp

end
