(* ===== verification/Bounded_Queue.thy ===== *)
theory Bounded_Queue
  imports Result
begin

text \<open>
  \<^verbatim>\<open>libs/common/include/nimbus/common/bounded_blocking_queue.h\<close>: the producer-consumer queue. A call
  runs under the queue's mutex, so each of its stretches between lock and unlock (or between two
  waits) is one atomic step; \<open>attempt\<close> is such a stretch: it finishes the call, or the wait
  predicate is false and the thread goes to sleep on its condition variable.

  \<open>bq_step\<close> interleaves any number of threads. Notifications, spurious wake-ups and time-outs move a
  sleeping thread to \<open>Woken\<close>, from where it has to take the mutex and look again; which sleeper
  \<^verbatim>\<open>notify_one\<close> wakes is left open. \<open>pushed\<close> and \<open>popped\<close> record the items that went in and out.
\<close>

datatype QueueError = QueueError_ShutDown | QueueError_Timeout

record 'a BoundedBlockingQueue =
  items :: "'a list"
  capacity :: nat
  shutdown :: bool

definition BoundedBlockingQueue_new :: "nat \<Rightarrow> 'a BoundedBlockingQueue run" where
  "BoundedBlockingQueue_new cap =
     (if cap = 0 then Throws (logic_error ''BoundedBlockingQueue capacity cannot be zero'')
      else Returns \<lparr>items = [], capacity = cap, shutdown = False\<rparr>)"

datatype 'a call = Push 'a | Pop | TryPush 'a | TryPop

datatype 'a outcome =
    Push_result "(unit, QueueError) Result"
  | Pop_result "'a option"
  | TryPop_result "('a option, QueueError) Result"

datatype signal = No_signal | Signal_not_empty | Signal_not_full

text \<open>The two wait predicates, and the code after the wait.\<close>

definition can_push :: "'a BoundedBlockingQueue \<Rightarrow> bool" where
  "can_push q \<longleftrightarrow> shutdown q \<or> length (items q) < capacity q"

definition can_pop :: "'a BoundedBlockingQueue \<Rightarrow> bool" where
  "can_pop q \<longleftrightarrow> shutdown q \<or> items q \<noteq> []"

definition Push_body :: "'a \<Rightarrow> 'a BoundedBlockingQueue \<Rightarrow> 'a outcome \<times> 'a BoundedBlockingQueue \<times> signal" where
  "Push_body item q =
     (if shutdown q then (Push_result (Err QueueError_ShutDown), q, No_signal)
      else (Push_result (Ok ()), q\<lparr>items := items q @ [item]\<rparr>, Signal_not_empty))"

definition Pop_body ::
  "('a option \<Rightarrow> 'a outcome) \<Rightarrow> 'a BoundedBlockingQueue \<Rightarrow> 'a outcome \<times> 'a BoundedBlockingQueue \<times> signal" where
  "Pop_body answer q =
     (if shutdown q \<and> items q = [] then (answer None, q, No_signal)
      else (answer (Some (hd (items q))), q\<lparr>items := tl (items q)\<rparr>, Signal_not_full))"

text \<open>\<open>expired\<close>: the timed wait has run out, so a false predicate ends the call instead of sleeping on.\<close>

fun attempt ::
  "'a call \<Rightarrow> bool \<Rightarrow> 'a BoundedBlockingQueue \<Rightarrow> ('a outcome \<times> 'a BoundedBlockingQueue \<times> signal) option" where
  "attempt (Push item) expired q = (if can_push q then Some (Push_body item q) else None)"
| "attempt Pop expired q = (if can_pop q then Some (Pop_body Pop_result q) else None)"
| "attempt (TryPush item) expired q =
     (if can_push q then Some (Push_body item q)
      else if expired then Some (Push_result (Err QueueError_Timeout), q, No_signal) else None)"
| "attempt TryPop expired q =
     (if can_pop q then Some (Pop_body (\<lambda>x. TryPop_result (Ok x)) q)
      else if expired then Some (TryPop_result (Err QueueError_Timeout), q, No_signal) else None)"

definition Shutdown :: "'a BoundedBlockingQueue \<Rightarrow> 'a BoundedBlockingQueue" where
  "Shutdown q = q\<lparr>shutdown := True\<rparr>"

definition SizeApprox :: "'a BoundedBlockingQueue \<Rightarrow> nat" where
  "SizeApprox q = length (items q)"

section \<open>Threads\<close>

datatype 'a thread = Idle | Sleeping "'a call" | Woken "'a call" bool | Finished "'a outcome"

fun is_push :: "'a call \<Rightarrow> bool" where
  "is_push (Push _) = True" | "is_push (TryPush _) = True" | "is_push _ = False"

fun timed :: "'a call \<Rightarrow> bool" where
  "timed (TryPush _) = True" | "timed TryPop = True" | "timed _ = False"

record 'a bq_system =
  queue :: "'a BoundedBlockingQueue"
  threads :: "'a thread list"
  pushed :: "'a list"
  popped :: "'a list"

definition bq_start :: "nat \<Rightarrow> nat \<Rightarrow> 'a bq_system" where
  "bq_start cap n = \<lparr>queue = \<lparr>items = [], capacity = cap, shutdown = False\<rparr>,
     threads = replicate n Idle, pushed = [], popped = []\<rparr>"

text \<open>\<open>wake_one side\<close>: \<^verbatim>\<open>notify_one\<close> on the condition variable of the pushers (\<open>True\<close>) or poppers.\<close>

definition wake_one :: "bool \<Rightarrow> 'a thread list \<Rightarrow> 'a thread list \<Rightarrow> bool" where
  "wake_one side ths ths' \<longleftrightarrow>
     (\<exists>j c. j < length ths \<and> ths ! j = Sleeping c \<and> is_push c = side \<and> ths' = ths[j := Woken c False]) \<or>
     (\<forall>c. Sleeping c \<in> set ths \<longrightarrow> is_push c \<noteq> side) \<and> ths' = ths"

fun notify :: "signal \<Rightarrow> 'a thread list \<Rightarrow> 'a thread list \<Rightarrow> bool" where
  "notify No_signal ths ths' = (ths' = ths)"
| "notify Signal_not_empty ths ths' = wake_one False ths ths'"
| "notify Signal_not_full ths ths' = wake_one True ths ths'"

fun wake :: "'a thread \<Rightarrow> 'a thread" where
  "wake (Sleeping c) = Woken c False" | "wake th = th"

text \<open>A thread that can take the mutex for call \<open>c\<close>: a new call, or one whose wait has ended.\<close>

fun runnable :: "'a thread \<Rightarrow> 'a call \<Rightarrow> bool \<Rightarrow> bool" where
  "runnable (Woken c' e') c e = (c = c' \<and> e = e')"
| "runnable (Sleeping c') c e = False"
| "runnable th c e = (\<not> e)"

fun pushed_by :: "'a call \<Rightarrow> 'a outcome \<Rightarrow> 'a list" where
  "pushed_by (Push x) (Push_result (Ok _)) = [x]"
| "pushed_by (TryPush x) (Push_result (Ok _)) = [x]"
| "pushed_by _ _ = []"

fun popped_by :: "'a outcome \<Rightarrow> 'a list" where
  "popped_by (Pop_result (Some x)) = [x]"
| "popped_by (TryPop_result (Ok (Some x))) = [x]"
| "popped_by _ = []"

inductive bq_step :: "'a bq_system \<Rightarrow> 'a bq_system \<Rightarrow> bool" where
  finish: "i < length (threads s) \<Longrightarrow> runnable (threads s ! i) c e \<Longrightarrow>
     attempt c e (queue s) = Some (res, q, sig) \<Longrightarrow>
     notify sig ((threads s)[i := Finished res]) ths \<Longrightarrow>
     bq_step s (s\<lparr>queue := q, threads := ths, pushed := pushed s @ pushed_by c res,
       popped := popped s @ popped_by res\<rparr>)"
| sleep: "i < length (threads s) \<Longrightarrow> runnable (threads s ! i) c e \<Longrightarrow> attempt c e (queue s) = None \<Longrightarrow>
     bq_step s (s\<lparr>threads := (threads s)[i := Sleeping c]\<rparr>)"
| spurious: "i < length (threads s) \<Longrightarrow> threads s ! i = Sleeping c \<Longrightarrow>
     bq_step s (s\<lparr>threads := (threads s)[i := Woken c False]\<rparr>)"
| timeout: "i < length (threads s) \<Longrightarrow> threads s ! i = Sleeping c \<Longrightarrow> timed c \<Longrightarrow>
     bq_step s (s\<lparr>threads := (threads s)[i := Woken c True]\<rparr>)"
| shut: "bq_step s (s\<lparr>queue := Shutdown (queue s), threads := map wake (threads s)\<rparr>)"

inductive_cases bq_stepE: "bq_step s s'"

section \<open>Counting threads\<close>

fun sleeps :: "bool \<Rightarrow> 'a thread \<Rightarrow> bool" where
  "sleeps side (Sleeping c) = (is_push c = side)" | "sleeps side _ = False"

fun roused :: "bool \<Rightarrow> 'a thread \<Rightarrow> bool" where
  "roused side (Woken c e) = (is_push c = side)" | "roused side _ = False"

definition asleep :: "bool \<Rightarrow> 'a thread list \<Rightarrow> nat" where
  "asleep side ths = length (filter (sleeps side) ths)"

definition awake :: "bool \<Rightarrow> 'a thread list \<Rightarrow> nat" where
  "awake side ths = length (filter (roused side) ths)"

lemma length_filter_update:
  assumes "i < length xs"
  shows "length (filter P (xs[i := y])) + (if P (xs ! i) then 1 else 0) =
         length (filter P xs) + (if P y then 1 else 0)"
  using assms
proof (induction xs arbitrary: i)
  case (Cons x xs)
  then show ?case by (cases i) auto
qed simp

lemma asleep_update:
  "i < length ths \<Longrightarrow> asleep side (ths[i := th]) + (if sleeps side (ths ! i) then 1 else 0) =
     asleep side ths + (if sleeps side th then 1 else 0)"
  unfolding asleep_def by (rule length_filter_update)

lemma awake_update:
  "i < length ths \<Longrightarrow> awake side (ths[i := th]) + (if roused side (ths ! i) then 1 else 0) =
     awake side ths + (if roused side th then 1 else 0)"
  unfolding awake_def by (rule length_filter_update)

lemma sleeps_iff: "sleeps side th \<longleftrightarrow> (\<exists>c. th = Sleeping c \<and> is_push c = side)"
  by (cases th) auto

lemma roused_iff: "roused side th \<longleftrightarrow> (\<exists>c e. th = Woken c e \<and> is_push c = side)"
  by (cases th) auto

lemma sleeps_wake [simp]: "\<not> sleeps side (wake th)"
  by (cases th) auto

lemma asleep_pos: "0 < asleep side ths \<longleftrightarrow> (\<exists>c. Sleeping c \<in> set ths \<and> is_push c = side)"
  by (auto simp: asleep_def filter_empty_conv sleeps_iff)

lemma awake_pos: "0 < awake side ths \<longleftrightarrow> (\<exists>c e. Woken c e \<in> set ths \<and> is_push c = side)"
  by (auto simp: awake_def filter_empty_conv roused_iff)

lemma runnable_not_asleep: "runnable th c e \<Longrightarrow> \<not> sleeps side th"
  by (cases th) auto

lemma runnable_roused: "runnable th c e \<Longrightarrow> roused side th \<Longrightarrow> is_push c = side"
  by (cases th) auto

text \<open>Waking one thread of a side moves it from one count to the other.\<close>

lemma wake_one_counts:
  assumes "wake_one side ths ths'"
  shows "asleep (\<not> side) ths' = asleep (\<not> side) ths" and "awake (\<not> side) ths' = awake (\<not> side) ths"
    and "asleep side ths' = asleep side ths - 1"
    and "awake side ths' = awake side ths + (if 0 < asleep side ths then 1 else 0)"
proof -
  consider (woken) j c where "j < length ths" "ths ! j = Sleeping c" "is_push c = side" "ths' = ths[j := Woken c False]"
    | (nobody) "\<forall>c. Sleeping c \<in> set ths \<longrightarrow> is_push c \<noteq> side" "ths' = ths"
    using assms unfolding wake_one_def by blast
  then have "asleep (\<not> side) ths' = asleep (\<not> side) ths \<and> awake (\<not> side) ths' = awake (\<not> side) ths \<and>
      asleep side ths' = asleep side ths - 1 \<and>
      awake side ths' = awake side ths + (if 0 < asleep side ths then 1 else 0)"
  proof cases
    case woken
    have "0 < asleep side ths" using woken unfolding asleep_pos by (metis nth_mem)
    then show ?thesis
      using asleep_update [OF woken(1), of side "Woken c False"] asleep_update [OF woken(1), of "\<not> side" "Woken c False"]
        awake_update [OF woken(1), of side "Woken c False"] awake_update [OF woken(1), of "\<not> side" "Woken c False"] woken
      by simp
  next
    case nobody
    then have "asleep side ths = 0" using asleep_pos [of side ths] by auto
    with nobody show ?thesis by simp
  qed
  then show "asleep (\<not> side) ths' = asleep (\<not> side) ths" "awake (\<not> side) ths' = awake (\<not> side) ths"
    "asleep side ths' = asleep side ths - 1"
    "awake side ths' = awake side ths + (if 0 < asleep side ths then 1 else 0)" by blast+
qed

lemma attempt_cases:
  assumes "attempt c e q = Some (res, q', sig)"
  obtains (pushing) x where "is_push c" "\<not> shutdown q" "length (items q) < capacity q"
      "q' = q\<lparr>items := items q @ [x]\<rparr>" "sig = Signal_not_empty" "pushed_by c res = [x]" "popped_by res = []"
  | (popping) x xs where "\<not> is_push c" "items q = x # xs" "q' = q\<lparr>items := xs\<rparr>" "sig = Signal_not_full"
      "pushed_by c res = []" "popped_by res = [x]"
  | (ending) "q' = q" "sig = No_signal" "pushed_by c res = []" "popped_by res = []"
      "\<not> shutdown q \<Longrightarrow> (if is_push c then capacity q \<le> length (items q) else items q = [])"
proof (cases c)
  case (Push x)
  then show thesis using assms that by (auto simp: Push_body_def can_push_def split: if_splits)
next
  case Pop
  then show thesis using assms that
    by (cases "items q") (auto simp: Pop_body_def can_pop_def split: if_splits)
next
  case (TryPush x)
  then show thesis using assms that by (auto simp: Push_body_def can_push_def split: if_splits)
next
  case TryPop
  then show thesis using assms that
    by (cases "items q") (auto simp: Pop_body_def can_pop_def split: if_splits)
qed

lemma attempt_None:
  assumes "attempt c e q = None"
  shows "\<not> shutdown q" "if is_push c then capacity q \<le> length (items q) else items q = []"
  using assms by (cases c; auto simp: can_push_def can_pop_def split: if_splits)+

section \<open>The invariant\<close>

text \<open>
  Nobody sleeps once the queue is shut down; before that, a sleeping consumer means that every item
  in the queue has a consumer awake for it, and a sleeping producer that every free slot has a
  producer awake for it.
\<close>

definition no_lost_wakeup :: "'a bq_system \<Rightarrow> bool" where
  "no_lost_wakeup s \<longleftrightarrow>
     (if shutdown (queue s) then asleep True (threads s) = 0 \<and> asleep False (threads s) = 0
      else (0 < asleep False (threads s) \<longrightarrow> length (items (queue s)) \<le> awake False (threads s)) \<and>
           (0 < asleep True (threads s) \<longrightarrow>
              capacity (queue s) \<le> length (items (queue s)) + awake True (threads s)))"

definition bq_inv :: "'a bq_system \<Rightarrow> bool" where
  "bq_inv s \<longleftrightarrow> length (items (queue s)) \<le> capacity (queue s) \<and> pushed s = popped s @ items (queue s) \<and>
     no_lost_wakeup s"

lemma bq_inv_start: "bq_inv (bq_start cap n)"
  by (simp add: bq_inv_def bq_start_def no_lost_wakeup_def asleep_def filter_replicate)

lemma bq_step_inv:
  assumes "bq_step s s'" "bq_inv s"
  shows "bq_inv s'"
  using assms
proof (cases rule: bq_step.cases)
  case (finish i c e res q sig ths)
  let ?q = "queue s" and ?t = "threads s" let ?t1 = "?t[i := Finished res]"
  have same: "asleep side ?t1 = asleep side ?t" for side
    using asleep_update [OF finish(2), of side "Finished res"] runnable_not_asleep [OF finish(3), of side] by simp
  have fewer: "awake side ?t \<le> awake side ?t1 + (if is_push c = side then 1 else 0)" for side
    using awake_update [OF finish(2), of side "Finished res"] runnable_roused [OF finish(3), of side]
    by (auto split: if_splits)
  from finish(4) show ?thesis
  proof (cases rule: attempt_cases)
    case (pushing x)
    then have "wake_one False ?t1 ths" using finish(5) by simp
    note w = wake_one_counts [OF this]
    show ?thesis
      using assms(2) finish(1) pushing w same fewer [of True] fewer [of False]
      by (auto simp: bq_inv_def no_lost_wakeup_def split: if_splits)
  next
    case (popping x xs)
    then have "wake_one True ?t1 ths" using finish(5) by simp
    note w = wake_one_counts [OF this]
    show ?thesis
      using assms(2) finish(1) popping w same fewer [of True] fewer [of False]
      by (auto simp: bq_inv_def no_lost_wakeup_def split: if_splits)
  next
    case ending
    then have "ths = ?t1" using finish(5) by simp
    then show ?thesis
      using assms(2) finish(1) ending same fewer [of True] fewer [of False]
      by (auto simp: bq_inv_def no_lost_wakeup_def split: if_splits)
  qed
next
  case (sleep i c e)
  note none = attempt_None [OF sleep(4)]
  have a: "awake side (threads s) \<le> awake side ((threads s)[i := Sleeping c]) + (if is_push c = side then 1 else 0)" for side
    using awake_update [OF sleep(2), of side "Sleeping c"] runnable_roused [OF sleep(3), of side]
    by (auto split: if_splits)
  have b: "asleep side ((threads s)[i := Sleeping c]) = asleep side (threads s) + (if is_push c = side then 1 else 0)" for side
    using asleep_update [OF sleep(2), of side "Sleeping c"] runnable_not_asleep [OF sleep(3), of side] by simp
  show ?thesis
    using assms(2) sleep(1) none a [of True] a [of False] b [of True] b [of False]
    by (auto simp: bq_inv_def no_lost_wakeup_def split: if_splits)
next
  case (spurious i c)
  then show ?thesis
    using assms(2) asleep_update [OF spurious(2), of True "Woken c False"] asleep_update [OF spurious(2), of False "Woken c False"]
      awake_update [OF spurious(2), of True "Woken c False"] awake_update [OF spurious(2), of False "Woken c False"]
    by (auto simp: bq_inv_def no_lost_wakeup_def split: if_splits)
next
  case (timeout i c)
  then show ?thesis
    using assms(2) asleep_update [OF timeout(2), of True "Woken c True"] asleep_update [OF timeout(2), of False "Woken c True"]
      awake_update [OF timeout(2), of True "Woken c True"] awake_update [OF timeout(2), of False "Woken c True"]
    by (auto simp: bq_inv_def no_lost_wakeup_def split: if_splits)
next
  case shut
  have "asleep side (map wake (threads s)) = 0" for side by (simp add: asleep_def filter_empty_conv)
  with shut assms(2) show ?thesis by (simp add: bq_inv_def no_lost_wakeup_def Shutdown_def)
qed

lemma bq_run_inv: "bq_step\<^sup>*\<^sup>* (bq_start cap n) s \<Longrightarrow> bq_inv s"
  by (induction rule: rtranclp_induct) (auto intro: bq_inv_start bq_step_inv)

lemma bq_run_capacity: "bq_step\<^sup>*\<^sup>* s s' \<Longrightarrow> capacity (queue s') = capacity (queue s)"
  by (induction rule: rtranclp_induct)
     (auto elim!: bq_stepE attempt_cases simp: Shutdown_def)

section \<open>What the queue promises\<close>

text \<open>
  C19: Whatever the interleaving of any number of producers and consumers, with timed and untimed
  calls, spurious wake-ups and a shutdown at any moment: the queue never holds more than its
  capacity, and the items pushed so far are, in order, those popped followed by those in the queue:
  none is lost, duplicated or overtaken.
\<close>

theorem queue_is_bounded_and_fifo:
  assumes "bq_step\<^sup>*\<^sup>* (bq_start cap n) s"
  shows "length (items (queue s)) \<le> cap \<and> pushed s = popped s @ items (queue s)"
  using bq_run_inv [OF assms] bq_run_capacity [OF assms] by (simp add: bq_inv_def bq_start_def)

text \<open>
  C18: No wake-up is lost: in every reachable state where a consumer sleeps although the queue holds an
  item, another consumer is awake and the step in which it takes an item is possible; the same
  holds of producers and free slots; and after a shutdown nobody sleeps.
\<close>

theorem no_wakeup_is_lost:
  assumes "bq_step\<^sup>*\<^sup>* (bq_start cap n) s"
  shows "(Sleeping c \<in> set (threads s) \<longrightarrow> \<not> is_push c \<longrightarrow> items (queue s) \<noteq> [] \<longrightarrow>
            (\<exists>c' e res q sig. Woken c' e \<in> set (threads s) \<and> \<not> is_push c' \<and>
               attempt c' e (queue s) = Some (res, q, sig) \<and> popped_by res = [hd (items (queue s))])) \<and>
         (Sleeping c \<in> set (threads s) \<longrightarrow> is_push c \<longrightarrow> length (items (queue s)) < cap \<longrightarrow>
            (\<exists>c' e res q sig. Woken c' e \<in> set (threads s) \<and> is_push c' \<and>
               attempt c' e (queue s) = Some (res, q, sig) \<and> pushed_by c' res \<noteq> [])) \<and>
         (shutdown (queue s) \<longrightarrow> Sleeping c \<notin> set (threads s))"
proof (intro conjI impI)
  have inv: "no_lost_wakeup s" and cap: "capacity (queue s) = cap"
    using bq_run_inv [OF assms] bq_run_capacity [OF assms] by (simp_all add: bq_inv_def bq_start_def)
  have asleep: "0 < asleep (is_push c) (threads s)" if "Sleeping c \<in> set (threads s)"
    using that asleep_pos by blast
  show "\<exists>c' e res q sig. Woken c' e \<in> set (threads s) \<and> \<not> is_push c' \<and>
      attempt c' e (queue s) = Some (res, q, sig) \<and> popped_by res = [hd (items (queue s))]"
    if "Sleeping c \<in> set (threads s)" "\<not> is_push c" "items (queue s) \<noteq> []"
  proof -
    have "length (items (queue s)) \<le> awake False (threads s)"
      using inv asleep that by (auto simp: no_lost_wakeup_def split: if_splits)
    then have "0 < awake False (threads s)" using that(3) by (cases "items (queue s)") auto
    then obtain c' e where "Woken c' e \<in> set (threads s)" "\<not> is_push c'" using awake_pos by blast
    with that(3) show ?thesis
      by (intro exI [of _ c'] exI [of _ e], cases c') (auto simp: can_pop_def Pop_body_def)
  qed
  show "\<exists>c' e res q sig. Woken c' e \<in> set (threads s) \<and> is_push c' \<and>
      attempt c' e (queue s) = Some (res, q, sig) \<and> pushed_by c' res \<noteq> []"
    if "Sleeping c \<in> set (threads s)" "is_push c" "length (items (queue s)) < cap"
  proof -
    have "\<not> shutdown (queue s)" "0 < awake True (threads s)"
      using inv asleep that cap by (auto simp: no_lost_wakeup_def split: if_splits)
    then obtain c' e where "Woken c' e \<in> set (threads s)" "is_push c'" using awake_pos by blast
    with that(3) cap \<open>\<not> shutdown (queue s)\<close> show ?thesis
      by (intro exI [of _ c'] exI [of _ e], cases c') (auto simp: can_push_def Push_body_def)
  qed
  show "Sleeping c \<notin> set (threads s)" if "shutdown (queue s)"
    using inv that asleep by (cases "is_push c") (auto simp: no_lost_wakeup_def)
qed

text \<open>
  After \<open>Shutdown\<close> no call waits any more: every attempt finishes at once, pushes report
  \<^verbatim>\<open>ShutDown\<close> and change nothing, and pops hand out the remaining items in order before reporting the end.
\<close>

theorem shutdown_drains:
  "attempt (Push x) e (Shutdown q) = Some (Push_result (Err QueueError_ShutDown), Shutdown q, No_signal) \<and>
   attempt (TryPush x) e (Shutdown q) = Some (Push_result (Err QueueError_ShutDown), Shutdown q, No_signal) \<and>
   attempt Pop e (Shutdown q) = Some (case items q of
      [] \<Rightarrow> (Pop_result None, Shutdown q, No_signal)
    | y # ys \<Rightarrow> (Pop_result (Some y), Shutdown (q\<lparr>items := ys\<rparr>), Signal_not_full)) \<and>
   attempt TryPop e (Shutdown q) = Some (case items q of
      [] \<Rightarrow> (TryPop_result (Ok None), Shutdown q, No_signal)
    | y # ys \<Rightarrow> (TryPop_result (Ok (Some y)), Shutdown (q\<lparr>items := ys\<rparr>), Signal_not_full))"
  by (auto simp: Shutdown_def can_push_def can_pop_def Push_body_def Pop_body_def split: list.splits)

section \<open>A concrete run\<close>

text \<open>Two consumers go to sleep on an empty queue, a producer pushes an item and wakes one of them.\<close>

definition bq_demo :: "nat bq_system" where
  "bq_demo = \<lparr>queue = \<lparr>items = [7], capacity = 1, shutdown = False\<rparr>,
     threads = [Woken Pop False, Sleeping TryPop, Finished (Push_result (Ok ()))], pushed = [7], popped = []\<rparr>"

lemma bq_demo_reachable: "bq_step\<^sup>*\<^sup>* (bq_start 1 3) bq_demo"
proof -
  let ?s0 = "bq_start 1 3 :: nat bq_system"
  let ?s1 = "?s0\<lparr>threads := [Sleeping Pop, Idle, Idle]\<rparr>" let ?s2 = "?s0\<lparr>threads := [Sleeping Pop, Sleeping TryPop, Idle]\<rparr>"
  have "bq_step ?s0 (?s0\<lparr>threads := (threads ?s0)[0 := Sleeping Pop]\<rparr>)"
    by (rule sleep [where e = False]) (simp_all add: bq_start_def can_pop_def numeral_3_eq_3)
  then have one: "bq_step ?s0 ?s1" by (simp add: bq_start_def numeral_3_eq_3)
  have "bq_step ?s1 (?s1\<lparr>threads := (threads ?s1)[1 := Sleeping TryPop]\<rparr>)"
    by (rule sleep [where e = False]) (simp_all add: bq_start_def can_pop_def)
  then have two: "bq_step ?s1 ?s2" by (simp add: bq_start_def)
  have "bq_step ?s2 (?s2\<lparr>queue := (queue ?s2)\<lparr>items := [7]\<rparr>,
      threads := [Woken Pop False, Sleeping TryPop, Finished (Push_result (Ok ()))],
      pushed := pushed ?s2 @ pushed_by (Push 7) (Push_result (Ok ())),
      popped := popped ?s2 @ popped_by (Push_result (Ok ()) :: nat outcome)\<rparr>)"
    by (rule finish [where i = 2 and e = False and sig = Signal_not_empty])
       (auto simp: bq_start_def can_push_def Push_body_def wake_one_def numeral_2_eq_2 intro!: exI [of _ 0])
  then have "bq_step ?s2 bq_demo" by (simp add: bq_start_def bq_demo_def)
  with one two show ?thesis by (meson converse_rtranclp_into_rtranclp rtranclp.rtrancl_refl)
qed

theorem queue_is_bounded_and_fifo_witness:
  "length (items (queue bq_demo)) \<le> 1 \<and> pushed bq_demo = popped bq_demo @ items (queue bq_demo)"
  by (rule queue_is_bounded_and_fifo [OF bq_demo_reachable])

theorem no_wakeup_is_lost_witness:
  "\<exists>c' e. Woken c' e \<in> set (threads bq_demo) \<and> \<not> is_push c'"
proof -
  have "Sleeping TryPop \<in> set (threads bq_demo)" "items (queue bq_demo) \<noteq> []" by (simp_all add: bq_demo_def)
  with no_wakeup_is_lost [OF bq_demo_reachable, of TryPop] show ?thesis by auto
qed

end
