(* ===== verification/Config.thy ===== *)
theory Config
  imports Result "HOL-Library.Sublist" "HOL-Library.List_Lexorder" "HOL-Library.Char_ord"
begin

text \<open>
  \<^verbatim>\<open>libs/common/src/config.cpp\<close> and \<^verbatim>\<open>config_schema.cpp\<close>: configuration from a JSON file with
  environment overrides for node-local settings, and its validation against a schema.

  The JSON library is a parameter: \<open>'j\<close> is its value type and the record \<open>json_lib\<close> the functions of
  it the code calls; \<open>json_laws\<close> is the one documented fact a theorem relies on. \<open>'d\<close> is the type
  \<^verbatim>\<open>double\<close> and \<open>stod\<close> the conversion of the standard library. The environment is the list of
  \<^verbatim>\<open>NAME=value\<close> strings of the process, \<open>files\<close> the readable files.
\<close>

section \<open>The schema\<close>

datatype ConfigFieldType = Field_String | Field_Int64 | Field_Double | Field_Bool

datatype ConfigSection = ClusterInvariant | NodeLocal

record ConfigFieldSpec =
  spec_type :: ConfigFieldType
  spec_required :: bool

type_synonym spec_map = "(string \<times> ConfigFieldSpec) list"

record ConfigSchema =
  cluster_invariant_specs :: spec_map
  node_local_specs :: spec_map

text \<open>\<^verbatim>\<open>std::map\<close> as a list sorted by key; \<open>map_assign\<close> is \<^verbatim>\<open>m[key] = value\<close>.\<close>

fun map_assign :: "string \<Rightarrow> 'v \<Rightarrow> (string \<times> 'v) list \<Rightarrow> (string \<times> 'v) list" where
  "map_assign k v [] = [(k, v)]"
| "map_assign k v ((k', v') # m) =
     (if k = k' then (k, v) # m
      else if k < k' then (k, v) # (k', v') # m
      else (k', v') # map_assign k v m)"

definition RequireClusterInvariant :: "string \<Rightarrow> ConfigFieldType \<Rightarrow> ConfigSchema \<Rightarrow> ConfigSchema" where
  "RequireClusterInvariant key ty sch =
     sch\<lparr>cluster_invariant_specs := map_assign key \<lparr>spec_type = ty, spec_required = True\<rparr> (cluster_invariant_specs sch)\<rparr>"

definition RequireNodeLocal :: "string \<Rightarrow> ConfigFieldType \<Rightarrow> ConfigSchema \<Rightarrow> ConfigSchema" where
  "RequireNodeLocal key ty sch =
     sch\<lparr>node_local_specs := map_assign key \<lparr>spec_type = ty, spec_required = True\<rparr> (node_local_specs sch)\<rparr>"

definition OptionalClusterInvariant :: "string \<Rightarrow> ConfigFieldType \<Rightarrow> ConfigSchema \<Rightarrow> ConfigSchema" where
  "OptionalClusterInvariant key ty sch =
     sch\<lparr>cluster_invariant_specs := map_assign key \<lparr>spec_type = ty, spec_required = False\<rparr> (cluster_invariant_specs sch)\<rparr>"

definition OptionalNodeLocal :: "string \<Rightarrow> ConfigFieldType \<Rightarrow> ConfigSchema \<Rightarrow> ConfigSchema" where
  "OptionalNodeLocal key ty sch =
     sch\<lparr>node_local_specs := map_assign key \<lparr>spec_type = ty, spec_required = False\<rparr> (node_local_specs sch)\<rparr>"

definition GetClusterInvariantSpecs :: "ConfigSchema \<Rightarrow> spec_map" where
  [simp]: "GetClusterInvariantSpecs sch = cluster_invariant_specs sch"

definition GetNodeLocalSpecs :: "ConfigSchema \<Rightarrow> spec_map" where
  [simp]: "GetNodeLocalSpecs sch = node_local_specs sch"

section \<open>The environment\<close>

type_synonym environ = "string list"

fun HasClusterInvariantEnvOverrides :: "environ \<Rightarrow> bool" where
  "HasClusterInvariantEnvOverrides [] = False"
| "HasClusterInvariantEnvOverrides (env_var # env) =
     (if prefix ''NIMBUS_CLUSTER_'' env_var then True else HasClusterInvariantEnvOverrides env)"

definition ToUpperAndUnderscore :: "string \<Rightarrow> string" where
  "ToUpperAndUnderscore input = map toupper (map (\<lambda>c. if c = CHR ''.'' then CHR ''_'' else c) input)"

fun getenv :: "environ \<Rightarrow> string \<Rightarrow> string option" where
  "getenv [] name = None"
| "getenv (env_var # env) name =
     (if prefix (name @ ''='') env_var then Some (drop (length name + 1) env_var) else getenv env name)"

definition GetEnvOverride :: "environ \<Rightarrow> ConfigSection \<Rightarrow> string \<Rightarrow> string option" where
  "GetEnvOverride env section path =
     (if section = ClusterInvariant then None
      else getenv env (''NIMBUS_NODE_'' @ ToUpperAndUnderscore path))"

section \<open>Loading\<close>

datatype ConfigErrorCode =
    FileNotFound | MalformedJson | SchemaValidationFailed | ClusterInvariantEnvOverrideAttempted
  | KeyNotFound | TypeMismatch

record ConfigError =
  cfg_code :: ConfigErrorCode
  cfg_message :: string
  cfg_validation_errors :: "string list"

abbreviation cfg_error :: "ConfigErrorCode \<Rightarrow> string \<Rightarrow> ('a, ConfigError) Result" where
  "cfg_error ec msg \<equiv> Err \<lparr>cfg_code = ec, cfg_message = msg, cfg_validation_errors = []\<rparr>"

record ('j, 'd) json_lib =
  json_parse :: "string \<Rightarrow> ('j, string) Result" \<comment> \<open>the error is the text of \<open>parse_error\<close>\<close>
  json_contains :: "'j \<Rightarrow> string \<Rightarrow> bool"
  json_at :: "'j \<Rightarrow> string \<Rightarrow> 'j"
  is_string :: "'j \<Rightarrow> bool"
  is_number :: "'j \<Rightarrow> bool"
  is_number_integer :: "'j \<Rightarrow> bool"
  is_number_float :: "'j \<Rightarrow> bool"
  is_boolean :: "'j \<Rightarrow> bool"
  get_string :: "'j \<Rightarrow> string"
  get_int64 :: "'j \<Rightarrow> int"
  get_double :: "'j \<Rightarrow> 'd"
  get_bool :: "'j \<Rightarrow> bool"
  stod :: "string \<Rightarrow> 'd option" \<comment> \<open>\<open>None\<close>: it throws\<close>

text \<open>Documented: a number is an integer or a floating-point number.\<close>

definition json_laws :: "('j, 'd) json_lib \<Rightarrow> bool" where
  "json_laws lib \<longleftrightarrow> (\<forall>j. is_number lib j \<longleftrightarrow> is_number_integer lib j \<or> is_number_float lib j)"

definition LoadFromFile ::
  "('j, 'd) json_lib \<Rightarrow> environ \<Rightarrow> (string \<Rightarrow> string option) \<Rightarrow> string \<Rightarrow> ('j, ConfigError) Result" where
  "LoadFromFile lib env files path =
     (if HasClusterInvariantEnvOverrides env then
        cfg_error ClusterInvariantEnvOverrideAttempted
          ''Attempted to override a cluster invariant configuration via environment variables''
      else case files path of
        None \<Rightarrow> cfg_error FileNotFound (''Configuration file not found: '' @ path)
      | Some text \<Rightarrow>
          (case json_parse lib text of
             Err what \<Rightarrow> cfg_error MalformedJson (''Malformed JSON: '' @ what)
           | Ok data \<Rightarrow> Ok data))"

section \<open>Validation\<close>

definition has_key :: "('j, 'd) json_lib \<Rightarrow> 'j \<Rightarrow> string \<Rightarrow> string \<Rightarrow> bool" where
  "has_key lib data section_name key \<longleftrightarrow>
     json_contains lib data section_name \<and> json_contains lib (json_at lib data section_name) key"

definition type_error :: "('j, 'd) json_lib \<Rightarrow> ConfigFieldType \<Rightarrow> 'j \<Rightarrow> string \<Rightarrow> string option" where
  "type_error lib ty jval name = (case ty of
      Field_String \<Rightarrow> if \<not> is_string lib jval then Some (''Type mismatch for '' @ name @ '': expected string'') else None
    | Field_Int64 \<Rightarrow> if \<not> is_number_integer lib jval then Some (''Type mismatch for '' @ name @ '': expected int64'') else None
    | Field_Double \<Rightarrow>
        if \<not> is_number_float lib jval \<and> \<not> is_number_integer lib jval
        then Some (''Type mismatch for '' @ name @ '': expected double'') else None
    | Field_Bool \<Rightarrow> if \<not> is_boolean lib jval then Some (''Type mismatch for '' @ name @ '': expected boolean'') else None)"

fun validate_section ::
  "('j, 'd) json_lib \<Rightarrow> environ \<Rightarrow> 'j \<Rightarrow> ConfigSection \<Rightarrow> string \<Rightarrow> spec_map \<Rightarrow> string list \<Rightarrow> string list" where
  "validate_section lib env data section section_name [] errors = errors"
| "validate_section lib env data section section_name ((key, spec) # specs) errors =
     validate_section lib env data section section_name specs
       (let has_env = (section = NodeLocal \<and> GetEnvOverride env section key \<noteq> None);
            name = section_name @ ''.'' @ key
        in if has_env then errors
           else if \<not> has_key lib data section_name key then
             (if spec_required spec then errors @ [''Missing required key: '' @ name] else errors)
           else (case type_error lib (spec_type spec) (json_at lib (json_at lib data section_name) key) name of
                   Some msg \<Rightarrow> errors @ [msg]
                 | None \<Rightarrow> errors))"

definition Config_Validate ::
  "('j, 'd) json_lib \<Rightarrow> environ \<Rightarrow> 'j \<Rightarrow> ConfigSchema \<Rightarrow> (unit, ConfigError) Result" where
  "Config_Validate lib env data schema =
     (let e1 = validate_section lib env data ClusterInvariant ''cluster_invariant'' (GetClusterInvariantSpecs schema) [];
          e2 = validate_section lib env data NodeLocal ''node_local'' (GetNodeLocalSpecs schema) e1
      in if e2 \<noteq> [] then Err \<lparr>cfg_code = SchemaValidationFailed, cfg_message = ''Schema validation failed'',
                              cfg_validation_errors = e2\<rparr>
         else Ok ())"

section \<open>The getters\<close>

definition section_name :: "ConfigSection \<Rightarrow> string" where
  "section_name section = (if section = ClusterInvariant then ''cluster_invariant'' else ''node_local'')"

abbreviation value_at :: "('j, 'd) json_lib \<Rightarrow> 'j \<Rightarrow> ConfigSection \<Rightarrow> string \<Rightarrow> 'j" where
  "value_at lib data section path \<equiv> json_at lib (json_at lib data (section_name section)) path"

definition GetString ::
  "('j, 'd) json_lib \<Rightarrow> environ \<Rightarrow> 'j \<Rightarrow> ConfigSection \<Rightarrow> string \<Rightarrow> (string, ConfigError) Result" where
  "GetString lib env data section path =
     (case GetEnvOverride env section path of
        Some env_val \<Rightarrow> Ok env_val
      | None \<Rightarrow>
          if \<not> has_key lib data (section_name section) path then cfg_error KeyNotFound (''Key not found: '' @ path)
          else if \<not> is_string lib (value_at lib data section path)
          then cfg_error TypeMismatch ''Type mismatch, expected string''
          else Ok (get_string lib (value_at lib data section path)))"

definition GetInt64 ::
  "('j, 'd) json_lib \<Rightarrow> environ \<Rightarrow> 'j \<Rightarrow> ConfigSection \<Rightarrow> string \<Rightarrow> (int, ConfigError) Result" where
  "GetInt64 lib env data section path =
     (case GetEnvOverride env section path of
        Some env_val \<Rightarrow>
          (case stoll env_val of
             Some v \<Rightarrow> Ok v
           | None \<Rightarrow> cfg_error TypeMismatch ''Env var could not be parsed as int64'')
      | None \<Rightarrow>
          if \<not> has_key lib data (section_name section) path then cfg_error KeyNotFound (''Key not found: '' @ path)
          else if \<not> is_number_integer lib (value_at lib data section path)
          then cfg_error TypeMismatch ''Type mismatch, expected int64''
          else Ok (get_int64 lib (value_at lib data section path)))"

definition GetDouble ::
  "('j, 'd) json_lib \<Rightarrow> environ \<Rightarrow> 'j \<Rightarrow> ConfigSection \<Rightarrow> string \<Rightarrow> ('d, ConfigError) Result" where
  "GetDouble lib env data section path =
     (case GetEnvOverride env section path of
        Some env_val \<Rightarrow>
          (case stod lib env_val of
             Some v \<Rightarrow> Ok v
           | None \<Rightarrow> cfg_error TypeMismatch ''Env var could not be parsed as double'')
      | None \<Rightarrow>
          if \<not> has_key lib data (section_name section) path then cfg_error KeyNotFound (''Key not found: '' @ path)
          else if \<not> is_number lib (value_at lib data section path)
          then cfg_error TypeMismatch ''Type mismatch, expected double''
          else Ok (get_double lib (value_at lib data section path)))"

definition GetBool ::
  "('j, 'd) json_lib \<Rightarrow> environ \<Rightarrow> 'j \<Rightarrow> ConfigSection \<Rightarrow> string \<Rightarrow> (bool, ConfigError) Result" where
  "GetBool lib env data section path =
     (case GetEnvOverride env section path of
        Some env_val \<Rightarrow>
          (let lower = map tolower env_val
           in if lower = ''true'' \<or> lower = ''1'' then Ok True
              else if lower = ''false'' \<or> lower = ''0'' then Ok False
              else cfg_error TypeMismatch ''Env var could not be parsed as bool'')
      | None \<Rightarrow>
          if \<not> has_key lib data (section_name section) path then cfg_error KeyNotFound (''Key not found: '' @ path)
          else if \<not> is_boolean lib (value_at lib data section path)
          then cfg_error TypeMismatch ''Type mismatch, expected bool''
          else Ok (get_bool lib (value_at lib data section path)))"

text \<open>The overloads with a default value.\<close>

definition GetString_or ::
  "('j, 'd) json_lib \<Rightarrow> environ \<Rightarrow> 'j \<Rightarrow> ConfigSection \<Rightarrow> string \<Rightarrow> string \<Rightarrow> string" where
  "GetString_or lib env data section path dflt =
     (case GetString lib env data section path of Ok v \<Rightarrow> v | Err _ \<Rightarrow> dflt)"

definition GetInt64_or ::
  "('j, 'd) json_lib \<Rightarrow> environ \<Rightarrow> 'j \<Rightarrow> ConfigSection \<Rightarrow> string \<Rightarrow> int \<Rightarrow> int" where
  "GetInt64_or lib env data section path dflt =
     (case GetInt64 lib env data section path of Ok v \<Rightarrow> v | Err _ \<Rightarrow> dflt)"

definition GetDouble_or ::
  "('j, 'd) json_lib \<Rightarrow> environ \<Rightarrow> 'j \<Rightarrow> ConfigSection \<Rightarrow> string \<Rightarrow> 'd \<Rightarrow> 'd" where
  "GetDouble_or lib env data section path dflt =
     (case GetDouble lib env data section path of Ok v \<Rightarrow> v | Err _ \<Rightarrow> dflt)"

definition GetBool_or ::
  "('j, 'd) json_lib \<Rightarrow> environ \<Rightarrow> 'j \<Rightarrow> ConfigSection \<Rightarrow> string \<Rightarrow> bool \<Rightarrow> bool" where
  "GetBool_or lib env data section path dflt =
     (case GetBool lib env data section path of Ok v \<Rightarrow> v | Err _ \<Rightarrow> dflt)"

section \<open>Lemmas\<close>

lemma map_of_map_assign [simp]: "map_of (map_assign k v m) = (map_of m)(k \<mapsto> v)"
  by (induction k v m rule: map_assign.induct) (auto simp: fun_eq_iff)

lemma set_map_assign: "set (map fst (map_assign k v m)) = insert k (set (map fst m))"
  by (induction k v m rule: map_assign.induct) auto

lemma map_assign_subset: "set (map_assign k v m) \<subseteq> insert (k, v) (set m)"
  by (induction k v m rule: map_assign.induct) auto

lemma sorted_map_assign:
  "sorted_wrt (<) (map fst m) \<Longrightarrow> sorted_wrt (<) (map fst (map_assign k v m))"
proof (induction k v m rule: map_assign.induct)
  case (2 k v k' v' m)
  then show ?case using set_map_assign [of k v m] by (auto simp: image_iff)
qed simp

text \<open>The message a field contributes to the errors, if any.\<close>

definition field_errors ::
  "('j, 'd) json_lib \<Rightarrow> environ \<Rightarrow> 'j \<Rightarrow> ConfigSection \<Rightarrow> string \<Rightarrow> ConfigFieldSpec \<Rightarrow> string list" where
  "field_errors lib env data section key spec =
     (if GetEnvOverride env section key \<noteq> None then []
      else if \<not> has_key lib data (section_name section) key then
        (if spec_required spec then [''Missing required key: '' @ section_name section @ ''.'' @ key] else [])
      else case type_error lib (spec_type spec) (value_at lib data section key) (section_name section @ ''.'' @ key) of
             Some msg \<Rightarrow> [msg] | None \<Rightarrow> [])"

lemma validate_section_eq:
  "validate_section lib env data section (section_name section) specs errors =
     errors @ concat (map (\<lambda>(key, spec). field_errors lib env data section key spec) specs)"
proof (induction specs arbitrary: errors)
  case (Cons e specs)
  obtain key spec where e: "e = (key, spec)" by (cases e)
  have env: "section = NodeLocal \<and> GetEnvOverride env section key \<noteq> None \<longleftrightarrow> GetEnvOverride env section key \<noteq> None"
    by (cases "section") (simp_all add: GetEnvOverride_def)
  have "validate_section lib env data section (section_name section) [e] errors =
      errors @ field_errors lib env data section key spec"
    unfolding e validate_section.simps env field_errors_def Let_def by (simp split: option.splits)
  then show ?case using Cons [of "errors @ field_errors lib env data section key spec"] e by simp
qed simp

lemma Config_Validate_errors:
  "Config_Validate lib env data schema =
     (let errors = concat (map (\<lambda>(key, spec). field_errors lib env data ClusterInvariant key spec) (cluster_invariant_specs schema)) @
                   concat (map (\<lambda>(key, spec). field_errors lib env data NodeLocal key spec) (node_local_specs schema))
      in if errors \<noteq> [] then Err \<lparr>cfg_code = SchemaValidationFailed, cfg_message = ''Schema validation failed'',
                              cfg_validation_errors = errors\<rparr>
         else Ok ())"
  using validate_section_eq [of lib env data ClusterInvariant "cluster_invariant_specs schema" "[]"]
    validate_section_eq [of lib env data NodeLocal "node_local_specs schema"]
  by (simp add: Config_Validate_def section_name_def Let_def)

definition specs_of :: "ConfigSchema \<Rightarrow> ConfigSection \<Rightarrow> spec_map" where
  "specs_of schema section =
     (if section = ClusterInvariant then cluster_invariant_specs schema else node_local_specs schema)"

lemma Config_Validate_Ok:
  "Config_Validate lib env data schema = Ok () \<longleftrightarrow>
     (\<forall>section. \<forall>(key, spec) \<in> set (specs_of schema section). field_errors lib env data section key spec = [])"
proof -
  have all: "(\<forall>section. P section) \<longleftrightarrow> P ClusterInvariant \<and> P NodeLocal" for P
    by (metis ConfigSection.exhaust)
  show ?thesis by (auto simp: Config_Validate_errors Let_def specs_of_def all)
qed

section \<open>A concrete JSON value type\<close>

text \<open>The instance of the library parameter on which the theorems are instantiated.\<close>

datatype demo_json = JNull | JBool bool | JInt int | JString string | JObject "(string \<times> demo_json) list"

definition demo_lib :: "(demo_json, int) json_lib" where
  "demo_lib = \<lparr>
     json_parse = (\<lambda>text. if text = ''{}'' then Ok (JObject []) else Err ''syntax error''),
     json_contains = (\<lambda>j k. case j of JObject m \<Rightarrow> map_of m k \<noteq> None | _ \<Rightarrow> False),
     json_at = (\<lambda>j k. case j of JObject m \<Rightarrow> (case map_of m k of Some v \<Rightarrow> v | None \<Rightarrow> JNull) | _ \<Rightarrow> JNull),
     is_string = (\<lambda>j. case j of JString _ \<Rightarrow> True | _ \<Rightarrow> False),
     is_number = (\<lambda>j. case j of JInt _ \<Rightarrow> True | _ \<Rightarrow> False),
     is_number_integer = (\<lambda>j. case j of JInt _ \<Rightarrow> True | _ \<Rightarrow> False),
     is_number_float = (\<lambda>j. False),
     is_boolean = (\<lambda>j. case j of JBool _ \<Rightarrow> True | _ \<Rightarrow> False),
     get_string = (\<lambda>j. case j of JString s \<Rightarrow> s | _ \<Rightarrow> []),
     get_int64 = (\<lambda>j. case j of JInt i \<Rightarrow> i | _ \<Rightarrow> 0),
     get_double = (\<lambda>j. case j of JInt i \<Rightarrow> i | _ \<Rightarrow> 0),
     get_bool = (\<lambda>j. case j of JBool b \<Rightarrow> b | _ \<Rightarrow> False),
     stod = stoll\<rparr>"

lemma demo_lib_laws: "json_laws demo_lib"
  by (simp add: json_laws_def demo_lib_def)

definition demo_config :: demo_json where
  "demo_config = JObject
     [(''cluster_invariant'', JObject [(''max_chunk_bytes'', JInt 4194304)]),
      (''node_local'', JObject [(''listen_port'', JInt 50052)])]"

definition demo_schema :: ConfigSchema where
  "demo_schema = RequireNodeLocal ''listen_port'' Field_Int64
     (RequireClusterInvariant ''max_chunk_bytes'' Field_Int64
        \<lparr>cluster_invariant_specs = [], node_local_specs = []\<rparr>)"

section \<open>What the configuration promises\<close>

text \<open>
  C39: Validation is a promise about reading: when \<open>Validate\<close> accepts, every required field of the schema
  that the environment does not override can be read with the getter of its declared type.
\<close>

theorem validated_fields_are_readable:
  assumes "json_laws lib" "Config_Validate lib env data schema = Ok ()"
    "map_of (specs_of schema section) key = Some spec" "spec_required spec" "GetEnvOverride env section key = None"
  shows "case spec_type spec of
      Field_String \<Rightarrow> IsOk (GetString lib env data section key)
    | Field_Int64 \<Rightarrow> IsOk (GetInt64 lib env data section key)
    | Field_Double \<Rightarrow> IsOk (GetDouble lib env data section key)
    | Field_Bool \<Rightarrow> IsOk (GetBool lib env data section key)"
proof -
  have "field_errors lib env data section key spec = []"
    using assms(2,3) map_of_SomeD by (fastforce simp: Config_Validate_Ok)
  then show ?thesis
    using assms(1,4,5)
    by (auto simp: field_errors_def type_error_def json_laws_def GetString_def GetInt64_def GetDouble_def GetBool_def
        split: if_splits ConfigFieldType.splits option.splits)
qed

theorem validated_fields_are_readable_witness:
  "IsOk (GetInt64 demo_lib [] demo_config ClusterInvariant ''max_chunk_bytes'')"
proof -
  have "Config_Validate demo_lib [] demo_config demo_schema = Ok ()"
    by (simp add: Config_Validate_def demo_schema_def demo_config_def demo_lib_def RequireNodeLocal_def
        RequireClusterInvariant_def has_key_def type_error_def GetEnvOverride_def)
  from validated_fields_are_readable [OF demo_lib_laws this, of ClusterInvariant "''max_chunk_bytes''"
      "\<lparr>spec_type = Field_Int64, spec_required = True\<rparr>"]
  show ?thesis
    by (simp add: demo_schema_def specs_of_def RequireNodeLocal_def RequireClusterInvariant_def GetEnvOverride_def)
qed

text \<open>
  A validated configuration can still fail to read: whatever the configuration file holds, adding a
  required node-local field of any type to a schema that validates keeps it valid as soon as the
  environment overrides the field, while the integer getter reports a type mismatch if the
  override is not a number.
\<close>

theorem overridden_fields_are_not_validated:
  assumes "Config_Validate lib env data schema = Ok ()" "GetEnvOverride env NodeLocal key = Some v" "stoll v = None"
  shows "Config_Validate lib env data (RequireNodeLocal key ty schema) = Ok () \<and>
    GetInt64 lib env data NodeLocal key = cfg_error TypeMismatch ''Env var could not be parsed as int64''"
proof
  have "field_errors lib env data sec k spec = []"
    if "(k, spec) \<in> set (specs_of (RequireNodeLocal key ty schema) sec)" for sec k spec
  proof (cases "sec = NodeLocal \<and> k = key")
    case True
    then show ?thesis using assms(2) by (simp add: field_errors_def)
  next
    case False
    then have "(k, spec) \<in> set (specs_of schema sec)"
      using that map_assign_subset [of key _ "node_local_specs schema"]
      by (cases sec) (auto simp: specs_of_def RequireNodeLocal_def)
    then show ?thesis using assms(1) by (auto simp: Config_Validate_Ok)
  qed
  then show "Config_Validate lib env data (RequireNodeLocal key ty schema) = Ok ()"
    by (auto simp: Config_Validate_Ok)
  show "GetInt64 lib env data NodeLocal key = cfg_error TypeMismatch ''Env var could not be parsed as int64''"
    using assms(2,3) by (simp add: GetInt64_def)
qed

theorem overridden_fields_are_not_validated_witness:
  "Config_Validate demo_lib [''NIMBUS_NODE_LISTEN_PORT=http''] demo_config demo_schema = Ok () \<and>
   GetInt64 demo_lib [''NIMBUS_NODE_LISTEN_PORT=http''] demo_config NodeLocal ''listen_port'' =
     cfg_error TypeMismatch ''Env var could not be parsed as int64''"
proof -
  have "Config_Validate demo_lib [''NIMBUS_NODE_LISTEN_PORT=http''] demo_config
      (RequireClusterInvariant ''max_chunk_bytes'' Field_Int64 \<lparr>cluster_invariant_specs = [], node_local_specs = []\<rparr>) = Ok ()"
    "GetEnvOverride [''NIMBUS_NODE_LISTEN_PORT=http''] NodeLocal ''listen_port'' = Some ''http''" "stoll ''http'' = None"
    by code_simp+
  from overridden_fields_are_not_validated [OF this, of Field_Int64] show ?thesis
    by (simp add: demo_schema_def)
qed

text \<open>
  Cluster invariants cannot come from the environment: loading refuses as soon as any
  \<^verbatim>\<open>NIMBUS_CLUSTER_\<close> variable is set, and no getter of a cluster-invariant field depends on the
  environment at all.
\<close>

theorem cluster_invariants_ignore_environment:
  "(HasClusterInvariantEnvOverrides env = list_ex (prefix ''NIMBUS_CLUSTER_'') env) \<and>
   (IsOk (LoadFromFile lib env files path) =
      (\<not> list_ex (prefix ''NIMBUS_CLUSTER_'') env \<and>
       (\<exists>text data. files path = Some text \<and> json_parse lib text = Ok data))) \<and>
   GetString lib env data ClusterInvariant key = GetString lib [] data ClusterInvariant key \<and>
   GetInt64 lib env data ClusterInvariant key = GetInt64 lib [] data ClusterInvariant key \<and>
   GetDouble lib env data ClusterInvariant key = GetDouble lib [] data ClusterInvariant key \<and>
   GetBool lib env data ClusterInvariant key = GetBool lib [] data ClusterInvariant key"
proof -
  have over: "HasClusterInvariantEnvOverrides env = list_ex (prefix ''NIMBUS_CLUSTER_'') env"
    by (induction env) auto
  then show ?thesis
    by (auto simp: LoadFromFile_def GetString_def GetInt64_def GetDouble_def GetBool_def GetEnvOverride_def
        split: option.splits Result.splits)
qed

text \<open>
  Declaring fields keeps the specifications sorted and unique by key, the last declaration of a
  key wins, and the two sections do not disturb each other.
\<close>

theorem schema_declarations:
  assumes "sorted_wrt (<) (map fst (cluster_invariant_specs sch))" "sorted_wrt (<) (map fst (node_local_specs sch))"
  shows "sorted_wrt (<) (map fst (cluster_invariant_specs (RequireClusterInvariant key ty sch))) \<and>
    sorted_wrt (<) (map fst (node_local_specs (OptionalNodeLocal key ty sch))) \<and>
    map_of (cluster_invariant_specs (OptionalClusterInvariant key ty' (RequireClusterInvariant key ty sch))) =
      (map_of (cluster_invariant_specs sch))(key \<mapsto> \<lparr>spec_type = ty', spec_required = False\<rparr>) \<and>
    map_of (node_local_specs (RequireNodeLocal key ty (OptionalNodeLocal key ty' sch))) =
      (map_of (node_local_specs sch))(key \<mapsto> \<lparr>spec_type = ty, spec_required = True\<rparr>) \<and>
    node_local_specs (RequireClusterInvariant key ty sch) = node_local_specs sch \<and>
    cluster_invariant_specs (RequireNodeLocal key ty sch) = cluster_invariant_specs sch"
  using assms
  by (simp add: RequireClusterInvariant_def OptionalClusterInvariant_def RequireNodeLocal_def OptionalNodeLocal_def
      sorted_map_assign)

theorem schema_declarations_witness:
  "sorted_wrt (<) (map fst (cluster_invariant_specs (RequireClusterInvariant ''a'' Field_Bool demo_schema)))"
proof -
  have "sorted_wrt (<) (map fst (cluster_invariant_specs demo_schema))"
      "sorted_wrt (<) (map fst (node_local_specs demo_schema))"
    by (simp_all add: demo_schema_def RequireNodeLocal_def RequireClusterInvariant_def)
  from schema_declarations [OF this] show ?thesis by blast
qed

end
