(* ===== verification/Spec2Isabelle.thy ===== *)
theory Spec2Isabelle
  imports Node_Durability Node_Process Node_Faults Disk_Listing Object_Lifetimes Uuid Clock_Lease Path_Validator Bounded_Queue Config
begin

text \<open>
  NimbusFS is a distributed file store in C++. This development models the parts of it that carry
  logic: the common library (\<^verbatim>\<open>src/libs/common\<close>), the storage node (\<^verbatim>\<open>src/services/storage_node\<close>) and the
  greeter demo (\<^verbatim>\<open>src/services/greeter_demo\<close>).

  \<^bold>\<open>How the program is put together.\<close> A storage node is a gRPC service (\<^verbatim>\<open>StorageNodeServiceImpl\<close>) in front
  of a chunk store (\<^verbatim>\<open>IChunkStore\<close>). A chunk is addressed by its SHA-256 digest (\<^verbatim>\<open>ChunkId\<close>). The production
  store (\<^verbatim>\<open>LocalDiskChunkStore\<close>) keeps one file per chunk in a two-level directory layout, guards each
  address with one of 256 mutexes, writes to a temporary file that it renames, and verifies the
  digest on every read; \<^verbatim>\<open>FaultInjectingChunkStore\<close> decorates any store with failures and delays. Nodes
  copy chunks from each other: \<^verbatim>\<open>ReplicateChunk\<close> of one node calls \<^verbatim>\<open>GetChunk\<close> of another. Every handler
  logs under the correlation id of its call. The common library also has the pieces that the later
  services will use: configuration with a schema, a path validator, leases over an injectable
  clock, and a bounded blocking queue. The storage node's \<^verbatim>\<open>main\<close> loads the configuration, opens the store,
  starts the server and waits for a signal.

  \<^bold>\<open>Theories and sources.\<close>
    \<^item> \<open>Prelude\<close>: integer types, how a C++ call ends (\<open>Returns\<close>, \<open>Throws\<close>, \<open>Blocks\<close>), \<^verbatim>\<open><cctype>\<close>, \<^verbatim>\<open>std::stoi\<close>
      and \<^verbatim>\<open>std::stoll\<close>; the locales \<open>step_invariant\<close>, \<open>step_measure\<close> and \<open>step_refinement\<close> of runs that keep an
      invariant, of runs that end and of runs that are seen as runs of a smaller system.
    \<^item> \<open>Result\<close> (\<^verbatim>\<open>result.h\<close>), \<open>Sha256\<close> (\<^verbatim>\<open>sha256.cpp\<close>), \<open>Chunk_Id\<close> (\<^verbatim>\<open>chunk_id.cpp\<close>), \<open>Logger\<close> (\<^verbatim>\<open>logger.cpp\<close>),
      \<open>Protocol_Version\<close> (\<^verbatim>\<open>protocol_version.cpp\<close>, \<^verbatim>\<open>grpc_metadata_keys.h\<close>, and the parts of gRPC's status and server
      context that the handlers touch).
    \<^item> \<open>Chunk_Store\<close> (\<^verbatim>\<open>i_chunk_store.h\<close>): the interface as a record of functions, and its contract as the
      locales \<open>chunk_integrity\<close> and \<open>chunk_store\<close>.
    \<^item> \<open>File_System\<close>: \<^verbatim>\<open>std::filesystem\<close> and the POSIX calls of the disk store, over an association list from
      paths to nodes, with the answers of the operating system in the record \<open>os_answers\<close>.
    \<^item> \<open>Local_Disk\<close> (\<^verbatim>\<open>local_disk_chunk_store.cpp\<close>), its operations, its invariant and the interpretation
      \<open>local_disk\<close> of \<open>chunk_store\<close>; \<open>Local_Disk_Properties\<close> and \<open>Local_Disk_Theorems\<close>, what follows.
    \<^item> \<open>Scoped_Fd\<close> (the class \<^verbatim>\<open>ScopedFd\<close> and the wrappers of the same file, over a table of open descriptors) and
      \<open>Disk_Steps\<close>: the operations of the disk store again, one system call, lock operation or counter
      update at a time. \<open>Disk_Threads\<close>, what one such step does; \<open>Disk_Solo\<close>, a thread that runs alone
      computes what \<open>Local_Disk\<close> says; \<open>Disk_Concurrent\<close>, any number of threads in any order, and a restart
      at any point; \<open>Disk_Listing\<close>, a listing that walks the directories while others change them; \<open>Disk_Counters\<close>, the exact value of the counters at every moment; \<open>Disk_Durability\<close>, what the
      kernel has not yet put on the disk, and what is found after a failure of the machine.
    \<^item> \<open>Fault_Injecting\<close> (\<^verbatim>\<open>fault_injecting_chunk_store.cpp\<close>): the decorator keeps the contract of whatever store it
      wraps (interpretation \<open>faulty_disk\<close>). \<open>Fault_Threads\<close>: several threads call it at once, over the store of
      \<open>Disk_Steps\<close>; the delegate sees a run of \<open>Disk_Concurrent\<close> (interpretation \<open>faulty_refines\<close>).
    \<^item> \<open>Storage_Service\<close> (\<^verbatim>\<open>storage_node_service_impl.cpp\<close>, \<^verbatim>\<open>capability_token.cpp\<close>, \<^verbatim>\<open>storage_node.proto\<close>): the six
      handlers; \<open>Storage_Service_Lemmas\<close>, one case rule per handler; \<open>Storage_Node\<close>, the locale \<open>storage_node\<close>
      of a service over any store that keeps the contract, with its interpretations \<open>disk_node\<close> and
      \<open>faulty_node\<close>, and \<open>rpc_step\<close>, one remote call; \<open>Storage_Node_Theorems\<close>, the theorems.
    \<^item> \<open>Node_Workers\<close>: the handlers on the worker threads of the server, any number at a time, over the store of
      \<open>Disk_Steps\<close>; a handler is the definition of \<open>Storage_Service\<close>, stopped at its one call of the store and
      resumed with the answer. \<open>Node_Handlers\<close>, what each handler asks of the store and makes of the answer;
      \<open>Node_Concurrent\<close>, the invariant, and that the store behind the service sees a run of
      \<open>Disk_Concurrent\<close> (interpretation \<open>node_refines\<close>); \<open>Node_Alone\<close>, a worker by itself; \<open>Node_Concurrent_Theorems\<close>;
      \<open>Node_Durability\<close>, the same node on a machine that fails; \<open>Node_Faults\<close>, the same node over the fault injector,
      while a driver injects and clears faults (interpretations \<open>faulty_node_refines\<close> and \<open>faulty_serving\<close>).
    \<^item> \<open>Object_Lifetimes\<close>: moves and destruction of \<^verbatim>\<open>Logger\<close> and \<^verbatim>\<open>Sha256\<close> objects. \<open>Uuid\<close> (\<^verbatim>\<open>uuid.cpp\<close>): \<^verbatim>\<open>GenerateUuidV4\<close>
      and its thread-local variables.
    \<^item> \<open>Clock_Lease\<close> (\<^verbatim>\<open>clock.cpp\<close>, \<^verbatim>\<open>lease.cpp\<close>, with the clock interface as the locale \<open>measured_clock\<close>), \<open>Path_Validator\<close> (\<^verbatim>\<open>path_validator.cpp\<close>), \<open>Bounded_Queue\<close>
      (\<^verbatim>\<open>bounded_blocking_queue.h\<close>), \<open>Config\<close> (\<^verbatim>\<open>config.cpp\<close>, \<^verbatim>\<open>config_schema.cpp\<close>), \<open>Greeter\<close> (\<^verbatim>\<open>greeter_server_main.cpp\<close>,
      \<^verbatim>\<open>greeter_client_main.cpp\<close>).
    \<^item> \<open>Node_Process\<close> (\<^verbatim>\<open>storage_node/src/main.cpp\<close>, \<^verbatim>\<open>main\<close> of the greeter server, the placeholder programs): start-up on
      every branch, the waiting loop, signals and restart; the locale \<open>storage_node\<close> once more, with the
      store's root directory fixed (\<open>rooted_node\<close>).
    \<^item> This theory: a node under injected faults, and a node whose mutexes make their holder wait.

  \<^bold>\<open>State and operations.\<close> An object is a record of its members; an operation takes the record and returns
  how the call ended together with the new record. Fallible calls return \<open>Result\<close>, as in the code.
  Counters are words of their width. The queue, whose calls wait in the middle, has a step relation
  over the stretches between its waits. The disk store has two models: one step per call in
  \<open>Local_Disk\<close>, on which the service and the node are built, and one step per system call in \<open>Disk_Steps\<close>,
  where threads interleave; \<open>thread_alone_is_operation\<close> ties them together. The fault injector and the handlers
  have both models too, tied together by \<open>caller_alone_is_operation\<close>, \<open>worker_alone_is_handler\<close> and
  \<open>faulty_worker_alone_is_handler\<close>. A listing beside other calls sees what POSIX promises of \<^verbatim>\<open>readdir\<close>: entries that
  stay are returned once, entries that come or go meanwhile may be returned or not.

  \<^bold>\<open>The mutexes.\<close> \<^verbatim>\<open>Put\<close> locks a stripe and calls \<^verbatim>\<open>Exists\<close>, which locks the same \<^verbatim>\<open>std::mutex\<close> again. The standard leaves
  the effect undefined, so \<open>relock\<close> says what this mutex does: the holder waits for ever, the call throws
  \<^verbatim>\<open>std::system_error\<close>, or the mutex counts. Theorems that need a \<^verbatim>\<open>Put\<close> to succeed assume the third; what the
  first leads to is a theorem of its own, and the safety theorems hold for all three.

  \<^bold>\<open>What the groups of theorems show.\<close> Integrity: nothing a node or a store does, with whatever requests, peers,
  failing system calls and injected faults, makes it hold or deliver bytes that do not hash to
  their address. Functional behaviour: uploading, downloading, replicating, deleting, listing and the
  statistics do what they say on every branch. Concurrency: a stripe has one holder and a descriptor
  one owner, results are true when the stripe is released, counters are exact when nothing runs, every
  call returns unless relocking hangs, and an acknowledged write survives whatever runs beside it and
  a restart at any point. The same for a whole node with any number of RPCs in flight: acknowledged
  uploads stay, downloads deliver verified bytes, every request is answered, and log lines carry the
  correlation id of their request; for callers of the fault injector, whose faults strike exactly the
  calls they should; and for the node over the injector, whose promises and whose liveness no fault
  takes away. A listing returns every chunk that stays, once, and none that was never there. Durability: a failure of the machine never leaves a corrupt chunk, an
  acknowledged upload survives it if its shard directory was on the disk, and may be lost if not. The process: each way start-up can end, shutdown on a signal, restart. Limits and errors: sizes, protocol versions, corrupt
  files, failing calls. Supporting components: hexadecimal round trip, exact parsing, equivalence of
  the index loops with specifications by components, a queue that is bounded, first-in first-out
  and loses no wake-up, leases without overflow, validation that promises readability, UUID sequences
  that depend on one seed per thread, loggers that can be destroyed only if they were not moved. Some theorems
  state where the code falls short of its documentation.

  \<^bold>\<open>Parameters.\<close> OpenSSL's EVP functions (record \<open>EVP\<close>, with \<open>evp_computes\<close> stating that they compute some
  function of the absorbed bytes), the JSON library and \<^verbatim>\<open>std::stod\<close> (record \<open>json_lib\<close>, laws \<open>json_laws\<close>), the answers
  of the operating system, the package that makes UUIDs (record \<open>uuids_lib\<close>; handlers and stores take
  the strings themselves as parameters), measured durations, the peer a node replicates from and
  the results of writing to a client. The theorems name what they assume of them; a concrete
  instance shows that it can hold. spdlog is the list of messages handed to a logger,
  before its level filters them.

  For the processes: the members of \<^verbatim>\<open>Config\<close> and \<^verbatim>\<open>Logger\<close> that \<^verbatim>\<open>main\<close> calls and no header declares, and gRPC's
  server start (record \<open>node_api\<close>).

  \<^bold>\<open>Bounds.\<close> No definition uses fuel: all loops are structural or have a termination measure (\<open>solo\<close> uses
  \<open>steps_left\<close>, at most 20 for a call). Sizes of byte vectors and of the queue are natural numbers; counters
  and limits are 64-bit words. A thread's system calls are atomic, and the file system shows every
  thread what the last call wrote.

  \<^bold>\<open>Not modelled.\<close> Generated protocol code and the transport; what gRPC does with its threads beyond
  running handlers on them; an exception of \<^verbatim>\<open>GenerateUuidV4\<close> inside a handler or \<^verbatim>\<open>Put\<close>; time stamps of logs; the
  Windows branches; for callers of the fault injector, \<^verbatim>\<open>GetStats\<close> and \<^verbatim>\<open>ListAllChunkIds\<close> among threads of a test
  (a handler's \<^verbatim>\<open>GetStats\<close> is in \<open>Node_Faults\<close>, and no handler lists); the empty functions \<^verbatim>\<open>ClientStub\<close> and \<^verbatim>\<open>CommonStub\<close>.
  How \<^verbatim>\<open>Config\<close> configures a node stays a parameter: \<^verbatim>\<open>main\<close> calls members of \<^verbatim>\<open>Config\<close> and \<^verbatim>\<open>Logger\<close> that no header of the
  repository declares, so there is no code to translate. The remaining lines of the sources are
  include directives, forward declarations, comments and the closing of namespaces.
\<close>

section \<open>A node under fault injection\<close>

text \<open>
  One step of a node whose store is wrapped in the fault injector: a remote call, or a test driver
  changing the injected faults between calls.
\<close>

inductive chaos_step :: "'s FaultInjecting StorageNodeService \<Rightarrow> 's FaultInjecting \<Rightarrow> 's FaultInjecting \<Rightarrow> bool"
  for svc where
  chaos_rpc: "rpc_step svc f f' \<Longrightarrow> chaos_step svc f f'"
| chaos_next: "chaos_step svc f (InjectFailureOnNextCall e f)"
| chaos_after: "chaos_step svc f (InjectFailureAfterNCalls n e f)"
| chaos_latency: "chaos_step svc f (InjectLatency ms f)"
| chaos_clear: "chaos_step svc f (ClearInjectedFaults f)"

lemma injection_frame:
  "delegate (InjectFailureOnNextCall e f) = delegate f"
  "delegate (InjectFailureAfterNCalls n e f) = delegate f"
  "delegate (InjectLatency ms f) = delegate f"
  "delegate (ClearInjectedFaults f) = delegate f"
  by (simp_all add: InjectFailureOnNextCall_def InjectFailureAfterNCalls_def InjectLatency_def
      ClearInjectedFaults_def)

lemma demo_full_stored:
  assumes "ChunkId_wf x" "stored (demo_full rl b) x = Some d"
  shows "x = demo_id" "d = b"
proof -
  have "FinalPathFor (demo_empty rl) x = FinalPathFor (demo_empty rl) demo_id" "d = b"
    using assms(2) by (auto simp: stored_def demo_full_def split: if_splits)
  then show "x = demo_id" "d = b" using FinalPathFor_inj [OF assms(1) demo_id_wf] by auto
qed

lemma blocked_stripe_handlers:
  assumes "svc_store svc = LocalDisk_vtable evp" "service_logger svc = LocalDisk_log" "ChunkId_wf x"
    "LockFor x \<in> stripe_locks s"
  shows "fst (GetChunk svc sctx (get_request x) write_ok s) = Blocks"
    and "fst (DeleteChunk svc sctx
           \<lparr>del_protocol_version = 1, del_chunk_id = id_hex x, del_capability_token = tok\<rparr> s) = Blocks"
proof -
  have locked: "LockFor x \<in> stripe_locks t" if "logged LocalDisk_log s t" for t
    using that assms(4) by (auto elim!: logged_disk)
  show "fst (GetChunk svc sctx (get_request x) write_ok s) = Blocks"
    using prod.collapse [of "GetChunk svc sctx (get_request x) write_ok s", symmetric]
  proof (cases rule: GetChunk_cases)
    case (rejected st)
    then show ?thesis using assms(3) by (simp add: get_request_def)
  next
    case (asked cid s1 rg s2)
    then have "cid = x" using assms(3) by (simp add: get_request_def)
    then show ?thesis using asked assms(1,2) locked_stripe_blocks(1) [OF locked, where evp = evp, of s1] by simp
  qed
  show "fst (DeleteChunk svc sctx
      \<lparr>del_protocol_version = 1, del_chunk_id = id_hex x, del_capability_token = tok\<rparr> s) = Blocks"
    using assms by (simp add: DeleteChunk_def scope_defs LocalDisk_log_def locked_stripe_blocks)
qed



section \<open>A node whose mutexes make their holder wait\<close>

text \<open>
  On a node over the local disk store whose stripe mutexes make their own holder wait, an upload
  that passes every check never returns: the handler waits inside \<open>Put\<close>, nothing is written, and every
  later download or deletion of a chunk of the same stripe waits too.
\<close>

theorem upload_blocks_the_stripe:
  assumes "svc_store svc = LocalDisk_vtable evp" "service_logger svc = LocalDisk_log" "ChunkId_wf cid"
    "evp_computes evp absorbed H" "H (concat ds) = id_digest cid"
    "total_size \<le> max_chunk_bytes svc" "length (concat ds) \<le> unat (max_chunk_bytes svc)"
    "relock s = Relock_blocks" "LockFor cid \<notin> stripe_locks s"
  shows "\<exists>s'. PutChunk svc sctx (put_request cid total_size ds) s = (Blocks, s') \<and> disk s' = disk s \<and>
    (\<forall>x. ChunkId_wf x \<longrightarrow> LockFor x = LockFor cid \<longrightarrow>
       fst (GetChunk svc sctx2 (get_request x) write_ok s') = Blocks \<and>
       fst (DeleteChunk svc sctx3 \<lparr>del_protocol_version = 1, del_chunk_id = id_hex x, del_capability_token = []\<rparr> s') = Blocks)"
proof -
  obtain r s' where run: "PutChunk svc sctx (put_request cid total_size ds) s = (r, s')" by fastforce
  note acc = put_request_accepted [OF assms(3,6,7)]
  have hash: "HashBytes evp (concat ds) = Returns (id_digest cid)" using HashBytes_eq [OF assms(4)] assms(5) by simp
  from run have s': "r = Blocks \<and> disk s' = disk s \<and> LockFor cid \<in> stripe_locks s'"
  proof (cases rule: PutChunk_cases)
    case (rejected st resp)
    then show ?thesis using acc by blast
  next
    case (accepted c p t1 rp t2)
    obtain f where t1: "t1 = log_with f s" using accepted(2) assms(2) logged_disk by metis
    obtain g where s': "s' = log_with g t2" using accepted(4) assms(2) logged_disk by metis
    have "c = cid" "p = concat ds" using accepted(1) acc by auto
    with accepted(3) assms(1) Put_relocks(1) [OF hash, of t1] assms(8,9) t1
    have "rp = Blocks" "t2 = t1\<lparr>stripe_locks := insert (LockFor cid) (stripe_locks t1)\<rparr>" by simp_all
    then show ?thesis using accepted(5) s' t1 by simp
  qed
  have "fst (GetChunk svc sctx2 (get_request x) write_ok s') = Blocks \<and>
      fst (DeleteChunk svc sctx3 \<lparr>del_protocol_version = 1, del_chunk_id = id_hex x, del_capability_token = []\<rparr> s') = Blocks"
    if "ChunkId_wf x" "LockFor x = LockFor cid" for x
    by (intro conjI blocked_stripe_handlers) (use assms(1,2) that s' in simp_all)
  with run s' show ?thesis by blast
qed

theorem upload_blocks_the_stripe_witness:
  "\<exists>s'. PutChunk (demo_svc 100) demo_ctx (put_request demo_id 3 [[1], [2, 3]]) (demo_empty Relock_blocks) = (Blocks, s') \<and>
     fst (GetChunk (demo_svc 100) demo_ctx (get_request demo_id) (\<lambda>_. True) s') = Blocks"
  using upload_blocks_the_stripe [OF _ _ demo_id_wf demo_evp_computes, of "demo_svc 100" "[[1], [2, 3]]" 3
      "demo_empty Relock_blocks" demo_ctx demo_ctx "\<lambda>_. True" demo_ctx]
  by (auto simp: demo_data_def)

end
